(* ===== verification/Prelude.thy ===== *)
theory Prelude
  imports Main "HOL-Library.Word"
begin

text \<open>
  Shared vocabulary of the development: the Rust values every component of the proxy
  (\<^verbatim>\<open>src/proxy/src\<close>) uses, and the lemmas about them.

  \<^item> A Rust \<^verbatim>\<open>char\<close> is a Unicode scalar value, here its code point (\<open>uchar\<close>); a
    \<^verbatim>\<open>String\<close> or \<^verbatim>\<open>&str\<close> is a list of them (\<open>ustring\<close>), and \<open>utf8\<close> gives the bytes
    \<^verbatim>\<open>as_bytes\<close> would return.  \<open>str\<close> turns an ASCII literal into such a string.
  \<^item> A \<^verbatim>\<open>u8\<close> is an \<open>8 word\<close>; an \<^verbatim>\<open>i64\<close> is an integer with the saturation of
    \<^verbatim>\<open>saturating_sub\<close> and \<^verbatim>\<open>saturating_abs\<close> written out.
  \<^item> \<^verbatim>\<open>Instant\<close> and \<^verbatim>\<open>Duration\<close> are nanosecond counts (\<open>nat\<close>): subtraction on \<open>nat\<close>
    stops at zero, which is what \<^verbatim>\<open>Instant::duration_since\<close> does.
  \<^item> \<^verbatim>\<open>Result<T, E>\<close> is \<open>'e + 'a\<close> with \<open>Inl\<close> the error; \<open>rbind\<close> is the \<^verbatim>\<open>?\<close> operator.
\<close>

named_theorems result_simps \<open>rewriting of fallible computations\<close>
named_theorems ustring_simps \<open>evaluation of strings\<close>

section \<open>Types\<close>

type_synonym byte = "8 word"
type_synonym uchar = nat
type_synonym ustring = "uchar list"
type_synonym instant = nat
type_synonym duration = nat

section \<open>Results\<close>

fun rbind :: "'e + 'a \<Rightarrow> ('a \<Rightarrow> 'e + 'b) \<Rightarrow> 'e + 'b" where
  "rbind (Inl e) f = Inl e"
| "rbind (Inr a) f = f a"

definition ensure :: "bool \<Rightarrow> 'e \<Rightarrow> 'e + unit" where
  "ensure b e = (if b then Inr () else Inl e)"

definition ok_or :: "'a option \<Rightarrow> 'e \<Rightarrow> 'e + 'a" where
  "ok_or m e = (case m of None \<Rightarrow> Inl e | Some a \<Rightarrow> Inr a)"

fun map_err :: "('e \<Rightarrow> 'f) \<Rightarrow> 'e + 'a \<Rightarrow> 'f + 'a" where
  "map_err g (Inl e) = Inl (g e)"
| "map_err g (Inr a) = Inr a"

definition is_ok :: "'e + 'a \<Rightarrow> bool" where
  "is_ok r = (case r of Inl _ \<Rightarrow> False | Inr _ \<Rightarrow> True)"

text \<open>A loop over a vector whose body may return early with an error.\<close>

fun mapM :: "('a \<Rightarrow> 'e + 'b) \<Rightarrow> 'a list \<Rightarrow> 'e + 'b list" where
  "mapM f [] = Inr []"
| "mapM f (x # xs) = rbind (f x) (\<lambda>y. rbind (mapM f xs) (\<lambda>ys. Inr (y # ys)))"

lemma rbind_eq_Inr [result_simps]:
  "rbind m f = Inr b \<longleftrightarrow> (\<exists>a. m = Inr a \<and> f a = Inr b)"
  by (cases m) auto

lemma rbind_eq_Inl [result_simps]:
  "rbind m f = Inl e \<longleftrightarrow> m = Inl e \<or> (\<exists>a. m = Inr a \<and> f a = Inl e)"
  by (cases m) auto

lemma ensure_eq_Inr [result_simps]: "ensure b e = Inr u \<longleftrightarrow> b"
  by (simp add: ensure_def)

lemma ensure_eq_Inl [result_simps]: "ensure b e = Inl e' \<longleftrightarrow> \<not> b \<and> e' = e"
  by (auto simp: ensure_def)

lemma ensure_simps [simp]: "ensure True e = Inr ()" "ensure False e = Inl e"
  by (simp_all add: ensure_def)

lemma ok_or_eq_Inr [result_simps]: "ok_or m e = Inr a \<longleftrightarrow> m = Some a"
  by (simp add: ok_or_def split: option.splits)

lemma ok_or_eq_Inl [result_simps]: "ok_or m e = Inl e' \<longleftrightarrow> m = None \<and> e' = e"
  by (auto simp: ok_or_def split: option.splits)

lemma ok_or_simps [simp]: "ok_or None e = Inl e" "ok_or (Some a) e = Inr a"
  by (simp_all add: ok_or_def)

lemma map_err_eq_Inr [result_simps]: "map_err g m = Inr a \<longleftrightarrow> m = Inr a"
  by (cases m) auto

lemma map_err_eq_Inl [result_simps]: "map_err g m = Inl e \<longleftrightarrow> (\<exists>e'. m = Inl e' \<and> e = g e')"
  by (cases m) auto

lemma is_ok_simps [simp]: "is_ok (Inl e) = False" "is_ok (Inr a) = True"
  by (simp_all add: is_ok_def)

lemma is_ok_iff: "is_ok r \<longleftrightarrow> (\<exists>a. r = Inr a)"
  by (cases r) auto

lemma mapM_eq_Inr:
  "mapM f xs = Inr ys \<longleftrightarrow> list_all2 (\<lambda>x y. f x = Inr y) xs ys"
proof (induction xs arbitrary: ys)
  case Nil
  then show ?case by auto
next
  case (Cons x xs)
  show ?case
    by (cases ys) (auto simp: result_simps Cons.IH)
qed

lemma mapM_eq_Inl:
  "mapM f xs = Inl e \<longleftrightarrow>
     (\<exists>us x vs. xs = us @ x # vs \<and> (\<forall>u \<in> set us. is_ok (f u)) \<and> f x = Inl e)"
proof (induction xs)
  case Nil
  then show ?case by simp
next
  case (Cons x xs)
  show ?case
  proof (cases "f x")
    case (Inl e')
    have "(\<exists>us y vs. x # xs = us @ y # vs \<and> (\<forall>u \<in> set us. is_ok (f u)) \<and> f y = Inl e) \<longleftrightarrow> e' = e"
      (is "?L \<longleftrightarrow> _")
    proof
      assume ?L
      then obtain us y vs where *: "x # xs = us @ y # vs" "\<forall>u \<in> set us. is_ok (f u)" "f y = Inl e"
        by blast
      then show "e' = e" using Inl by (cases us) auto
    next
      assume "e' = e"
      then show ?L using Inl by (intro exI [of _ "[]"] exI [of _ x] exI [of _ xs]) simp
    qed
    then show ?thesis using Inl by simp
  next
    case (Inr y)
    have "(\<exists>us z vs. x # xs = us @ z # vs \<and> (\<forall>u \<in> set us. is_ok (f u)) \<and> f z = Inl e) \<longleftrightarrow>
          (\<exists>us z vs. xs = us @ z # vs \<and> (\<forall>u \<in> set us. is_ok (f u)) \<and> f z = Inl e)"
      (is "?L \<longleftrightarrow> ?R")
    proof
      assume ?L
      then obtain us z vs where *: "x # xs = us @ z # vs" "\<forall>u \<in> set us. is_ok (f u)" "f z = Inl e"
        by blast
      then obtain us' where "us = x # us'" using Inr by (cases us) auto
      with * show ?R by auto
    next
      assume ?R
      then obtain us z vs where *: "xs = us @ z # vs" "\<forall>u \<in> set us. is_ok (f u)" "f z = Inl e"
        by blast
      with Inr show ?L by (intro exI [of _ "x # us"] exI [of _ z] exI [of _ vs]) simp
    qed
    then show ?thesis using Inr Cons.IH by (auto simp: result_simps)
  qed
qed

section \<open>Strings\<close>

definition str :: "string \<Rightarrow> ustring" where
  "str s = map of_char s"

lemma str_eq_iff [simp]: "str s = str t \<longleftrightarrow> s = t"
proof -
  have "inj (of_char :: char \<Rightarrow> nat)"
    by (rule injI) simp
  then show ?thesis by (simp add: str_def inj_map_eq_map)
qed

lemma str_Nil [simp]: "str [] = []"
  by (simp add: str_def)

lemma str_Nil_iff [simp]: "str s = [] \<longleftrightarrow> s = []" "[] = str s \<longleftrightarrow> s = []"
  by (auto simp: str_def)

lemma length_str [simp]: "length (str s) = length s"
  by (simp add: str_def)

lemma str_append: "str (s @ t) = str s @ str t"
  by (simp add: str_def)

lemma str_ascii: "c \<in> set (str s) \<Longrightarrow> c < 256"
  by (auto simp: str_def)

abbreviation is_ascii :: "uchar \<Rightarrow> bool" where
  "is_ascii c \<equiv> c < 128"

text \<open>\<^verbatim>\<open>char::is_ascii_digit\<close> and friends.\<close>

definition is_digit :: "uchar \<Rightarrow> bool" where
  "is_digit c \<longleftrightarrow> 48 \<le> c \<and> c \<le> 57"

definition is_ascii_alphabetic :: "uchar \<Rightarrow> bool" where
  "is_ascii_alphabetic c \<longleftrightarrow> 65 \<le> c \<and> c \<le> 90 \<or> 97 \<le> c \<and> c \<le> 122"

definition is_ascii_control :: "uchar \<Rightarrow> bool" where
  "is_ascii_control c \<longleftrightarrow> c < 32 \<or> c = 127"

text \<open>\<^verbatim>\<open>char::is_control\<close>: the general category Cc.\<close>

definition is_control :: "uchar \<Rightarrow> bool" where
  "is_control c \<longleftrightarrow> c < 32 \<or> 127 \<le> c \<and> c < 160"

text \<open>\<^verbatim>\<open>char::is_whitespace\<close>: the Unicode property White\_Space.\<close>

definition is_whitespace :: "uchar \<Rightarrow> bool" where
  "is_whitespace c \<longleftrightarrow>
     9 \<le> c \<and> c \<le> 13 \<or> c = 32 \<or> c = 133 \<or> c = 160 \<or> c = 5760 \<or>
     8192 \<le> c \<and> c \<le> 8202 \<or> c = 8232 \<or> c = 8233 \<or> c = 8239 \<or> c = 8287 \<or> c = 12288"

definition to_ascii_lower :: "uchar \<Rightarrow> uchar" where
  "to_ascii_lower c = (if 65 \<le> c \<and> c \<le> 90 then c + 32 else c)"

definition to_ascii_lowercase :: "ustring \<Rightarrow> ustring" where
  "to_ascii_lowercase s = map to_ascii_lower s"

lemmas char_class_defs =
  is_digit_def is_ascii_alphabetic_def is_ascii_control_def is_control_def is_whitespace_def
  to_ascii_lower_def

lemma to_ascii_lowercase_idem [simp]:
  "to_ascii_lowercase (to_ascii_lowercase s) = to_ascii_lowercase s"
  by (simp add: to_ascii_lowercase_def to_ascii_lower_def)

text \<open>\<^verbatim>\<open>str::trim\<close>.\<close>

definition trim_start :: "ustring \<Rightarrow> ustring" where
  "trim_start s = dropWhile is_whitespace s"

definition trim_end :: "ustring \<Rightarrow> ustring" where
  "trim_end s = rev (dropWhile is_whitespace (rev s))"

definition trim :: "ustring \<Rightarrow> ustring" where
  "trim s = trim_end (trim_start s)"

lemma trim_eq_Nil: "trim s = [] \<longleftrightarrow> (\<forall>c \<in> set s. is_whitespace c)"
proof -
  have "trim s = [] \<longleftrightarrow> (\<forall>c \<in> set (dropWhile is_whitespace s). is_whitespace c)"
    by (simp add: trim_def trim_end_def trim_start_def dropWhile_eq_Nil_conv)
  also have "\<dots> \<longleftrightarrow> dropWhile is_whitespace s = []"
  proof
    assume *: "\<forall>c \<in> set (dropWhile is_whitespace s). is_whitespace c"
    show "dropWhile is_whitespace s = []"
    proof (rule ccontr)
      assume "dropWhile is_whitespace s \<noteq> []"
      then have "\<not> is_whitespace (hd (dropWhile is_whitespace s))"
        and "hd (dropWhile is_whitespace s) \<in> set (dropWhile is_whitespace s)"
        by (rule hd_dropWhile, rule hd_in_set)
      with * show False by blast
    qed
  qed (auto dest: set_dropWhileD)
  finally show ?thesis by (simp add: dropWhile_eq_Nil_conv)
qed

section \<open>UTF-8\<close>

text \<open>\<^verbatim>\<open>str::as_bytes\<close>.\<close>

definition utf8_units :: "uchar \<Rightarrow> nat list" where
  "utf8_units c =
     (if c < 128 then [c]
      else if c < 2048 then [192 + c div 64, 128 + c mod 64]
      else if c < 65536 then [224 + c div 4096, 128 + c div 64 mod 64, 128 + c mod 64]
      else [240 + c div 262144, 128 + c div 4096 mod 64, 128 + c div 64 mod 64, 128 + c mod 64])"

definition utf8_char :: "uchar \<Rightarrow> byte list" where
  "utf8_char c = map of_nat (utf8_units c)"

definition utf8 :: "ustring \<Rightarrow> byte list" where
  "utf8 s = concat (map utf8_char s)"

text \<open>
  \<^verbatim>\<open>std::str::from_utf8\<close>: overlong forms, surrogates and values past U+10FFFF are errors.
\<close>

definition is_cont :: "byte \<Rightarrow> bool" where
  "is_cont b \<longleftrightarrow> 128 \<le> unat b \<and> unat b < 192"

fun from_utf8 :: "byte list \<Rightarrow> ustring option" where
  "from_utf8 [] = Some []"
| "from_utf8 (a # bs) =
     (let n = unat a in
      if n < 128 then map_option ((#) n) (from_utf8 bs)
      else if 194 \<le> n \<and> n < 224 then
        (case bs of b # cs \<Rightarrow>
           if is_cont b then map_option ((#) ((n - 192) * 64 + (unat b - 128))) (from_utf8 cs)
           else None
         | _ \<Rightarrow> None)
      else if 224 \<le> n \<and> n < 240 then
        (case bs of b # c # ds \<Rightarrow>
           let v = (n - 224) * 4096 + (unat b - 128) * 64 + (unat c - 128) in
           if is_cont b \<and> is_cont c \<and> 2048 \<le> v \<and> \<not> (55296 \<le> v \<and> v < 57344)
           then map_option ((#) v) (from_utf8 ds) else None
         | _ \<Rightarrow> None)
      else if 240 \<le> n \<and> n < 245 then
        (case bs of b # c # d # es \<Rightarrow>
           let v = (n - 240) * 262144 + (unat b - 128) * 4096 + (unat c - 128) * 64 + (unat d - 128) in
           if is_cont b \<and> is_cont c \<and> is_cont d \<and> 65536 \<le> v \<and> v < 1114112
           then map_option ((#) v) (from_utf8 es) else None
         | _ \<Rightarrow> None)
      else None)"

lemma utf8_Nil [simp]: "utf8 [] = []"
  by (simp add: utf8_def)

lemma utf8_Cons: "utf8 (c # s) = utf8_char c @ utf8 s"
  by (simp add: utf8_def)

lemma utf8_append [simp]: "utf8 (s @ t) = utf8 s @ utf8 t"
  by (simp add: utf8_def)

lemma utf8_concat: "utf8 (concat ss) = concat (map utf8 ss)"
  by (induction ss) simp_all

lemma utf8_ascii: "\<forall>c \<in> set s. is_ascii c \<Longrightarrow> utf8 s = map of_nat s"
  by (induction s) (simp_all add: utf8_Cons utf8_char_def utf8_units_def)

lemma unat_of_nat_byte: "n < 256 \<Longrightarrow> unat (of_nat n :: byte) = n"
  by (simp add: unat_of_nat)

abbreviation is_scalar :: "uchar \<Rightarrow> bool" where
  "is_scalar c \<equiv> c < 1114112"

lemma utf8_units_range: "is_scalar c \<Longrightarrow> n \<in> set (utf8_units c) \<Longrightarrow> n < 256 \<and> (n < 128 \<longrightarrow> n = c)"
  by (auto simp: utf8_units_def split: if_splits)

text \<open>An ASCII byte occurs in the encoding only where its character does.\<close>

lemma ascii_in_utf8:
  assumes "\<forall>c \<in> set s. is_scalar c" "k < 128" "k \<notin> set s"
  shows "of_nat k \<notin> set (utf8 s)"
proof
  assume "of_nat k \<in> set (utf8 s)"
  then obtain c n where cn: "c \<in> set s" "n \<in> set (utf8_units c)" "(of_nat k :: byte) = of_nat n"
    by (auto simp: utf8_def utf8_char_def)
  with assms(1) have n: "n < 256" "n < 128 \<longrightarrow> n = c" using utf8_units_range by auto
  have "unat (of_nat k :: byte) = unat (of_nat n :: byte)" using cn(3) by simp
  with n(1) assms(2) have "k = n" by (simp add: unat_of_nat_byte)
  with n(2) assms(2,3) cn(1) show False by simp
qed

lemma unat_byte_less: "unat (b :: byte) < 256"
  using unsigned_less [of b, where ?'a = nat] by simp

lemma from_utf8_ascii: "\<forall>c \<in> set s. is_ascii c \<Longrightarrow> from_utf8 (map of_nat s) = Some s"
  by (induction s) (simp_all add: Let_def unat_of_nat_byte)

text \<open>
  One step of \<^verbatim>\<open>String::from_utf8_lossy\<close>: the next character, or no character and the length of
  the maximal ill-formed prefix, which becomes U+FFFD.
\<close>

definition utf8_next :: "byte list \<Rightarrow> uchar option \<times> nat" where
  "utf8_next bs =
     (case bs of
        [] \<Rightarrow> (None, 0)
      | a # r \<Rightarrow>
        (let n = unat a;
             b = (if r = [] then 0 else unat (r ! 0));
             c = (if length r < 2 then 0 else unat (r ! 1));
             d = (if length r < 3 then 0 else unat (r ! 2));
             cont = (\<lambda>x. 128 \<le> x \<and> x < 192) in
         if n < 128 then (Some n, 1)
         else if 194 \<le> n \<and> n < 224 then
           if cont b then (Some ((n - 192) * 64 + (b - 128)), 2) else (None, 1)
         else if 224 \<le> n \<and> n < 240 then
           if \<not> (cont b \<and> (n = 224 \<longrightarrow> 160 \<le> b) \<and> (n = 237 \<longrightarrow> b < 160)) then (None, 1)
           else if \<not> cont c then (None, 2)
           else (Some ((n - 224) * 4096 + (b - 128) * 64 + (c - 128)), 3)
         else if 240 \<le> n \<and> n < 245 then
           if \<not> (cont b \<and> (n = 240 \<longrightarrow> 144 \<le> b) \<and> (n = 244 \<longrightarrow> b < 144)) then (None, 1)
           else if \<not> cont c then (None, 2)
           else if \<not> cont d then (None, 3)
           else (Some ((n - 240) * 262144 + (b - 128) * 4096 + (c - 128) * 64 + (d - 128)), 4)
         else (None, 1)))"

lemma utf8_next_progress: "bs \<noteq> [] \<Longrightarrow> 1 \<le> snd (utf8_next bs)"
  by (auto simp: utf8_next_def Let_def split: list.splits)

function from_utf8_lossy :: "byte list \<Rightarrow> ustring" where
  "from_utf8_lossy bs =
     (if bs = [] then []
      else (case utf8_next bs of
              (Some c, k) \<Rightarrow> c # from_utf8_lossy (drop k bs)
            | (None, k) \<Rightarrow> 65533 # from_utf8_lossy (drop k bs)))"
  by pat_completeness auto
termination
proof (relation "measure length")
  show "wf (measure length)" by simp
next
  fix bs x y c
  assume "bs \<noteq> []" "(x, y) = utf8_next bs" "x = Some c"
  then show "(drop y bs, bs) \<in> measure length"
    using utf8_next_progress [of bs] by (cases bs) (auto simp: prod_eq_iff dest: arg_cong [of _ _ snd])
next
  fix bs x y
  assume "bs \<noteq> []" "(x, y) = utf8_next bs" "x = None"
  then show "(drop y bs, bs) \<in> measure length"
    using utf8_next_progress [of bs] by (cases bs) (auto simp: prod_eq_iff dest: arg_cong [of _ _ snd])
qed

declare from_utf8_lossy.simps [simp del]

lemma unat_of_nat_byte': "unat (of_nat n :: byte) = n mod 256"
  by (simp add: unat_of_nat)

text \<open>\<^verbatim>\<open>from_utf8\<close> inverts \<^verbatim>\<open>as_bytes\<close> on every string.\<close>

abbreviation is_char :: "uchar \<Rightarrow> bool" where
  "is_char c \<equiv> c < 1114112 \<and> \<not> (55296 \<le> c \<and> c < 57344)"

lemma div_mod_64: "c div 64 * 64 + c mod 64 = (c :: nat)"
  by simp

lemma div_4096: "c div 4096 = (c :: nat) div 64 div 64"
  using div_mult2_eq [of c 64 64] by simp

lemma div_262144: "c div 262144 = (c :: nat) div 4096 div 64"
  using div_mult2_eq [of c 4096 64] by simp

lemma div_mod_4096: "c div 4096 * 4096 + (c div 64 mod 64) * 64 + c mod 64 = (c :: nat)"
  using div_mult_mod_eq [of c 64] div_mult_mod_eq [of "c div 64" 64] unfolding div_4096 by linarith

lemma div_mod_262144:
  "c div 262144 * 262144 + (c div 4096 mod 64) * 4096 + (c div 64 mod 64) * 64 + c mod 64 = (c :: nat)"
  using div_mod_4096 [of c] div_mult_mod_eq [of "c div 4096" 64] unfolding div_262144 by linarith

lemma from_utf8_char:
  assumes "is_char c"
  shows "from_utf8 (utf8_char c @ r) = map_option ((#) c) (from_utf8 r)"
proof -
  have m: "x mod 64 < 64" for x :: nat by simp
  consider "c < 128" | "128 \<le> c" "c < 2048" | "2048 \<le> c" "c < 65536" | "65536 \<le> c" "c < 1114112"
    using assms by linarith
  then show ?thesis
  proof cases
    case 1
    then show ?thesis by (simp add: utf8_char_def utf8_units_def unat_of_nat_byte Let_def)
  next
    case 2
    then have "2 \<le> c div 64" "c div 64 < 32" by linarith+
    with 2 m [of c] show ?thesis
      by (simp add: utf8_char_def utf8_units_def unat_of_nat_byte Let_def is_cont_def div_mod_64
          del: of_nat_add)
  next
    case 3
    then have "c div 4096 < 16" by linarith
    with 3 assms m [of c] m [of "c div 64"] show ?thesis
      by (simp add: utf8_char_def utf8_units_def unat_of_nat_byte Let_def is_cont_def div_mod_4096
          del: of_nat_add)
  next
    case 4
    then have "c div 262144 < 5" by linarith
    with 4 m [of c] m [of "c div 64"] m [of "c div 4096"] show ?thesis
      by (simp add: utf8_char_def utf8_units_def unat_of_nat_byte Let_def is_cont_def div_mod_262144
          del: of_nat_add)
  qed
qed

lemma from_utf8_utf8: "\<forall>c \<in> set s. is_char c \<Longrightarrow> from_utf8 (utf8 s) = Some s"
proof (induction s)
  case Nil
  show ?case by simp
next
  case (Cons c s)
  then have "is_char c" and s: "from_utf8 (utf8 s) = Some s" by simp_all
  from from_utf8_char [OF this(1), of "utf8 s"] s show ?case
    unfolding utf8_Cons by (simp only: option.map)
qed

lemma utf8_inj:
  assumes "\<forall>c \<in> set s. is_char c" "\<forall>c \<in> set t. is_char c" "utf8 s = utf8 t"
  shows "s = t"
  using from_utf8_utf8 [OF assms(1)] from_utf8_utf8 [OF assms(2)] assms(3) by (metis option.inject)

section \<open>Splitting and joining\<close>

text \<open>\<^verbatim>\<open>slice::split\<close> and \<^verbatim>\<open>str::split\<close> on a single separator: never empty.\<close>

fun split_on :: "'a \<Rightarrow> 'a list \<Rightarrow> 'a list list" where
  "split_on x [] = [[]]"
| "split_on x (y # ys) =
     (if y = x then [] # split_on x ys
      else (case split_on x ys of [] \<Rightarrow> [[y]] | p # ps \<Rightarrow> (y # p) # ps))"

text \<open>\<^verbatim>\<open>[T]::join\<close>.\<close>

fun join :: "'a list \<Rightarrow> 'a list list \<Rightarrow> 'a list" where
  "join sep [] = []"
| "join sep [p] = p"
| "join sep (p # q # ps) = p @ sep @ join sep (q # ps)"

lemma split_on_not_Nil [simp]: "split_on x ys \<noteq> []"
  by (cases ys) (auto split: list.splits)

lemma split_on_free: "x \<notin> set p \<Longrightarrow> split_on x p = [p]"
  by (induction p) auto

lemma split_on_append: "x \<notin> set p \<Longrightarrow> split_on x (p @ x # ys) = p # split_on x ys"
  by (induction p) auto

lemma split_on_join:
  "ps \<noteq> [] \<Longrightarrow> \<forall>p \<in> set ps. x \<notin> set p \<Longrightarrow> split_on x (join [x] ps) = ps"
  by (induction "[x]" ps rule: join.induct) (auto simp: split_on_free split_on_append)

lemma set_join: "set (join sep ps) \<subseteq> set sep \<union> \<Union> (set ` set ps)"
  by (induction sep ps rule: join.induct) auto

lemma join_split_on: "join [x] (split_on x ys) = ys"
proof (induction ys)
  case Nil
  then show ?case by simp
next
  case (Cons y ys)
  obtain p ps where *: "split_on x ys = p # ps"
    by (cases "split_on x ys") auto
  with Cons.IH show ?case by (cases ps) auto
qed

lemma split_on_parts_free: "p \<in> set (split_on x ys) \<Longrightarrow> x \<notin> set p"
proof (induction ys arbitrary: p)
  case Nil
  then show ?case by simp
next
  case (Cons y ys)
  obtain q qs where *: "split_on x ys = q # qs"
    by (cases "split_on x ys") auto
  show ?case
  proof (cases "y = x")
    case True
    with Cons show ?thesis by auto
  next
    case False
    with Cons.prems * have "p = y # q \<or> p \<in> set qs" by simp
    with Cons.IH False * show ?thesis by auto
  qed
qed

lemma takeWhile_take: "takeWhile P (take n xs) = take n (takeWhile P xs)"
  by (induction xs arbitrary: n) (auto simp: take_Cons')

text \<open>\<^verbatim>\<open>str::rsplit_once\<close>: around the last separator.\<close>

definition rsplit_once :: "'a \<Rightarrow> 'a list \<Rightarrow> ('a list \<times> 'a list) option" where
  "rsplit_once x s =
     (if x \<in> set s
      then Some (rev (tl (dropWhile (\<lambda>c. c \<noteq> x) (rev s))), rev (takeWhile (\<lambda>c. c \<noteq> x) (rev s)))
      else None)"

lemma rsplit_once_None [simp]: "rsplit_once x s = None \<longleftrightarrow> x \<notin> set s"
  by (simp add: rsplit_once_def)

lemma rsplit_once_Some:
  "rsplit_once x s = Some (a, b) \<longleftrightarrow> s = a @ x # b \<and> x \<notin> set b"
proof
  assume *: "rsplit_once x s = Some (a, b)"
  then have "x \<in> set (rev s)" by (simp add: rsplit_once_def split: if_splits)
  then have "dropWhile (\<lambda>c. c \<noteq> x) (rev s) \<noteq> []" by (auto simp: dropWhile_eq_Nil_conv)
  then have d: "dropWhile (\<lambda>c. c \<noteq> x) (rev s) = x # tl (dropWhile (\<lambda>c. c \<noteq> x) (rev s))"
    using hd_dropWhile [of "\<lambda>c. c \<noteq> x" "rev s"] by (cases "dropWhile (\<lambda>c. c \<noteq> x) (rev s)") auto
  have "rev s = takeWhile (\<lambda>c. c \<noteq> x) (rev s) @ dropWhile (\<lambda>c. c \<noteq> x) (rev s)"
    by simp
  with d have "rev s = rev b @ x # rev a"
    using * by (auto simp: rsplit_once_def split: if_splits)
  then have "rev (rev s) = rev (rev b @ x # rev a)" by (rule arg_cong)
  moreover have "x \<notin> set b"
    using * by (auto simp: rsplit_once_def dest: set_takeWhileD split: if_splits)
  ultimately show "s = a @ x # b \<and> x \<notin> set b" by simp
next
  assume *: "s = a @ x # b \<and> x \<notin> set b"
  then have t: "takeWhile (\<lambda>c. c \<noteq> x) (rev s) = rev b"
    by (auto simp: takeWhile_append)
  from * have "dropWhile (\<lambda>c. c \<noteq> x) (rev s) = x # rev a"
    by (auto simp: dropWhile_append)
  with * t show "rsplit_once x s = Some (a, b)"
    by (simp add: rsplit_once_def)
qed

section \<open>Integers\<close>

definition i64_min :: int where "i64_min = - (2 ^ 63)"
definition i64_max :: int where "i64_max = 2 ^ 63 - 1"

definition saturate_i64 :: "int \<Rightarrow> int" where
  "saturate_i64 x = max i64_min (min i64_max x)"

definition saturating_sub :: "int \<Rightarrow> int \<Rightarrow> int" where
  "saturating_sub a b = saturate_i64 (a - b)"

definition saturating_abs :: "int \<Rightarrow> int" where
  "saturating_abs a = saturate_i64 \<bar>a\<bar>"

abbreviation is_i64 :: "int \<Rightarrow> bool" where
  "is_i64 x \<equiv> i64_min \<le> x \<and> x \<le> i64_max"

lemmas i64_defs = i64_min_def i64_max_def saturate_i64_def saturating_sub_def saturating_abs_def

definition u64_max :: nat where "u64_max = 2 ^ 64 - 1"

subsection \<open>Printing\<close>

definition digit_char :: "nat \<Rightarrow> uchar" where
  "digit_char d = (if d < 10 then 48 + d else 87 + d)"

definition digit_char_upper :: "nat \<Rightarrow> uchar" where
  "digit_char_upper d = (if d < 10 then 48 + d else 55 + d)"

function print_radix :: "nat \<Rightarrow> nat \<Rightarrow> ustring" where
  "print_radix r n =
     (if r < 2 \<or> n < r then [digit_char n] else print_radix r (n div r) @ [digit_char (n mod r)])"
  by pat_completeness auto
termination
  by (relation "measure snd") auto

declare print_radix.simps [simp del]

definition dec_nat :: "nat \<Rightarrow> ustring" where
  "dec_nat n = print_radix 10 n"

definition dec_int :: "int \<Rightarrow> ustring" where
  "dec_int i = (if i < 0 then 45 # dec_nat (nat (- i)) else dec_nat (nat i))"

text \<open>\<^verbatim>\<open>{:0w}\<close>: zero padding on the left.\<close>

definition zero_pad :: "nat \<Rightarrow> ustring \<Rightarrow> ustring" where
  "zero_pad w s = replicate (w - length s) 48 @ s"

text \<open>\<^verbatim>\<open>{:02x}\<close> and \<^verbatim>\<open>{:02X}\<close> of a byte.\<close>

definition hex_lower :: "byte \<Rightarrow> ustring" where
  "hex_lower b = [digit_char (unat b div 16), digit_char (unat b mod 16)]"

definition hex_upper :: "byte \<Rightarrow> ustring" where
  "hex_upper b = [digit_char_upper (unat b div 16), digit_char_upper (unat b mod 16)]"

subsection \<open>Parsing\<close>

text \<open>\<^verbatim>\<open>char::to_digit\<close>.\<close>

definition to_digit :: "nat \<Rightarrow> uchar \<Rightarrow> nat option" where
  "to_digit r c =
     (let d = (if is_digit c then c - 48
               else if 97 \<le> c \<and> c \<le> 122 then c - 87
               else if 65 \<le> c \<and> c \<le> 90 then c - 55
               else r)
      in if d < r then Some d else None)"

fun digits_val :: "nat \<Rightarrow> nat \<Rightarrow> ustring \<Rightarrow> nat option" where
  "digits_val r acc [] = Some acc"
| "digits_val r acc (c # cs) =
     (case to_digit r c of None \<Rightarrow> None | Some d \<Rightarrow> digits_val r (acc * r + d) cs)"

text \<open>
  The sign rules of \<^verbatim>\<open>from_str_radix\<close>: an empty string and a lone sign are errors, \<^verbatim>\<open>+\<close> is
  accepted for every integer type, \<^verbatim>\<open>-\<close> for the signed ones only.
\<close>

fun strip_sign :: "bool \<Rightarrow> ustring \<Rightarrow> (bool \<times> ustring) option" where
  "strip_sign sg [] = None"
| "strip_sign sg (c # cs) =
     (if (c = 43 \<or> c = 45) \<and> cs = [] then None
      else if c = 43 then Some (False, cs)
      else if c = 45 \<and> sg then Some (True, cs)
      else Some (False, c # cs))"

definition parse_int :: "nat \<Rightarrow> bool \<Rightarrow> int \<Rightarrow> int \<Rightarrow> ustring \<Rightarrow> int option" where
  "parse_int r sg lo hi s =
     (case strip_sign sg s of
        None \<Rightarrow> None
      | Some (neg, ds) \<Rightarrow>
          (case digits_val r 0 ds of
             None \<Rightarrow> None
           | Some n \<Rightarrow>
               let v = (if neg then - int n else int n)
               in if lo \<le> v \<and> v \<le> hi then Some v else None))"

definition parse_i64 :: "ustring \<Rightarrow> int option" where
  "parse_i64 s = parse_int 10 True i64_min i64_max s"

definition parse_u16 :: "ustring \<Rightarrow> int option" where
  "parse_u16 s = parse_int 10 False 0 65535 s"

definition u8_from_hex :: "ustring \<Rightarrow> byte option" where
  "u8_from_hex s = map_option of_int (parse_int 16 False 0 255 s)"

lemma to_digit_digit_char: "d < r \<Longrightarrow> r \<le> 36 \<Longrightarrow> to_digit r (digit_char d) = Some d"
  by (auto simp: to_digit_def digit_char_def is_digit_def)

lemma digit_char_ascii: "d < 36 \<Longrightarrow> is_ascii (digit_char d)"
  by (simp add: digit_char_def)

lemma digit_char_not_sign: "digit_char d \<noteq> 43" "digit_char d \<noteq> 45"
  by (simp_all add: digit_char_def)

lemma digits_val_append:
  "digits_val r acc (xs @ ys) =
     (case digits_val r acc xs of None \<Rightarrow> None | Some v \<Rightarrow> digits_val r v ys)"
  by (induction xs arbitrary: acc) (auto split: option.splits)

lemma digits_val_print_radix:
  assumes "2 \<le> r" "r \<le> 36"
  shows "digits_val r 0 (print_radix r n) = Some n"
  using assms
proof (induction r n rule: print_radix.induct)
  case (1 r n)
  show ?case
  proof (cases "n < r")
    case True
    with 1 show ?thesis by (simp add: print_radix.simps [of r n] to_digit_digit_char)
  next
    case False
    with 1 show ?thesis
      by (simp add: print_radix.simps [of r n] digits_val_append to_digit_digit_char)
  qed
qed

lemma print_radix_shape:
  "\<exists>d ds. print_radix r n = d # ds \<and> (\<forall>c \<in> set (d # ds). \<exists>k. c = digit_char k)"
proof (induction r n rule: print_radix.induct)
  case (1 r n)
  show ?case
  proof (cases "r < 2 \<or> n < r")
    case True
    then show ?thesis by (auto simp: print_radix.simps [of r n])
  next
    case False
    from 1 [OF False] obtain d ds where
      "print_radix r (n div r) = d # ds" "\<forall>c \<in> set (d # ds). \<exists>k. c = digit_char k"
      by blast
    with False show ?thesis by (auto simp: print_radix.simps [of r n])
  qed
qed

lemma strip_sign_dec_nat: "strip_sign sg (dec_nat n) = Some (False, dec_nat n)"
proof -
  obtain d ds where "print_radix 10 n = d # ds" "\<exists>k. d = digit_char k"
    using print_radix_shape [of 10 n] by auto
  then show ?thesis by (auto simp: dec_nat_def digit_char_not_sign)
qed

lemma dec_nat_not_Nil [simp]: "dec_nat n \<noteq> []"
  using print_radix_shape [of 10 n] by (auto simp: dec_nat_def)

lemma parse_i64_dec_int: "is_i64 i \<Longrightarrow> parse_i64 (dec_int i) = Some i"
  by (auto simp: parse_i64_def parse_int_def dec_int_def strip_sign_dec_nat
      digits_val_print_radix [of 10, folded dec_nat_def])

lemma dec_int_chars: "c \<in> set (dec_int i) \<Longrightarrow> c = 45 \<or> (\<exists>k. c = digit_char k)"
  using print_radix_shape [of 10 "nat i"] print_radix_shape [of 10 "nat (- i)"]
  by (auto simp: dec_int_def dec_nat_def split: if_splits)

lemma u8_from_hex_hex_lower: "u8_from_hex (hex_lower b) = Some b"
proof -
  have b: "unat b < 256"
    by (rule unat_byte_less)
  then have "to_digit 16 (digit_char (unat b div 16)) = Some (unat b div 16)"
    "to_digit 16 (digit_char (unat b mod 16)) = Some (unat b mod 16)"
    by (simp_all add: to_digit_digit_char)
  moreover have "uint b \<le> 255"
    using unsigned_less [of b, where ?'a = int] by simp
  ultimately show ?thesis
    by (simp add: u8_from_hex_def hex_lower_def parse_int_def digit_char_not_sign Let_def
        div_mult_mod_eq [of "unat b" 16])
qed

lemma to_digit_ascii: "to_digit r c = Some d \<Longrightarrow> is_ascii c"
  by (auto simp: to_digit_def is_digit_def Let_def split: if_splits)

lemma digits_val_ascii: "digits_val r acc s = Some v \<Longrightarrow> c \<in> set s \<Longrightarrow> is_ascii c"
  by (induction s arbitrary: acc) (auto split: option.splits dest: to_digit_ascii)

lemma parse_int_ascii: "parse_int r sg lo hi s = Some v \<Longrightarrow> c \<in> set s \<Longrightarrow> is_ascii c"
  by (cases s) (auto simp: parse_int_def Let_def split: option.splits if_splits
      dest: digits_val_ascii to_digit_ascii)

lemma utf8_ascii_inj:
  assumes "utf8 s = utf8 t" "\<forall>c \<in> set s. is_ascii c" "\<forall>c \<in> set t. is_ascii c"
  shows "s = t"
proof -
  have "map of_nat s = (map of_nat t :: byte list)"
    using assms by (simp add: utf8_ascii)
  then have "from_utf8 (map of_nat s) = from_utf8 (map of_nat t)" by simp
  with assms(2,3) show ?thesis by (simp add: from_utf8_ascii)
qed

section \<open>Addresses\<close>

text \<open>\<^verbatim>\<open>std::net::IpAddr\<close> and \<^verbatim>\<open>SocketAddr\<close>.\<close>

datatype ip_addr = V4 "32 word" | V6 "128 word"

record socket_addr =
  sa_ip :: ip_addr
  sa_port :: "16 word"

definition octets :: "32 word \<Rightarrow> nat list" where
  "octets w = map (\<lambda>k. unat w div 2 ^ k mod 256) [24, 16, 8, 0]"

definition segments :: "128 word \<Rightarrow> nat list" where
  "segments w = map (\<lambda>k. unat w div 2 ^ k mod 65536) [112, 96, 80, 64, 48, 32, 16, 0]"

definition ipv4_to_string :: "nat list \<Rightarrow> ustring" where
  "ipv4_to_string os = join [46] (map dec_nat os)"

text \<open>
  \<^verbatim>\<open>Display for Ipv6Addr\<close>: an IPv4-mapped address keeps its dotted form, otherwise the first
  longest run of at least two zero segments is written \<^verbatim>\<open>::\<close>.
\<close>

fun zero_span :: "nat \<Rightarrow> nat \<times> nat \<Rightarrow> nat \<times> nat \<Rightarrow> nat list \<Rightarrow> nat \<times> nat" where
  "zero_span i cur longest [] = longest"
| "zero_span i cur longest (s # ss) =
     (if s = 0 then
        let cur' = (if snd cur = 0 then (i, 1) else (fst cur, snd cur + 1))
        in zero_span (Suc i) cur' (if snd cur' > snd longest then cur' else longest) ss
      else zero_span (Suc i) (0, 0) longest ss)"

definition ipv6_to_string :: "nat list \<Rightarrow> ustring" where
  "ipv6_to_string ss =
     (if take 6 ss = [0, 0, 0, 0, 0, 65535] then
        str ''::ffff:'' @
        ipv4_to_string [ss ! 6 div 256, ss ! 6 mod 256, ss ! 7 div 256, ss ! 7 mod 256]
      else
        let (start, len) = zero_span 0 (0, 0) (0, 0) ss;
            hex = (\<lambda>xs. join [58] (map (print_radix 16) xs))
        in if len > 1 then hex (take start ss) @ str ''::'' @ hex (drop (start + len) ss)
           else hex ss)"

fun ip_to_string :: "ip_addr \<Rightarrow> ustring" where
  "ip_to_string (V4 w) = ipv4_to_string (octets w)"
| "ip_to_string (V6 w) = ipv6_to_string (segments w)"

section \<open>Debug output of a string\<close>

text \<open>
  \<^verbatim>\<open>{:?}\<close> of a \<^verbatim>\<open>str\<close>, for the ASCII strings the proxy prints this way: a quote or backslash is
  escaped, the usual control characters have their short form, the others are \<^verbatim>\<open>\u{..}\<close>.
  Characters beyond ASCII never reach it (\<open>verify_cert\<close> refuses them) and are left as they are.
\<close>

definition escape_debug :: "uchar \<Rightarrow> ustring" where
  "escape_debug c =
     (if c = 0 then [92, 48] else if c = 9 then [92, 116] else if c = 13 then [92, 114]
      else if c = 10 then [92, 110] else if c = 34 \<or> c = 92 then [92, c]
      else if is_ascii_control c then [92, 117, 123] @ print_radix 16 c @ [125]
      else [c])"

definition debug_str :: "ustring \<Rightarrow> ustring" where
  "debug_str s = [34] @ concat (map escape_debug s) @ [34]"

section \<open>Durations\<close>

text \<open>\<^verbatim>\<open>Duration::from_secs\<close>, in nanoseconds.\<close>

definition from_secs :: "nat \<Rightarrow> duration" where
  "from_secs s = s * 1000000000"

lemma from_secs_mono [simp]: "from_secs a \<le> from_secs b \<longleftrightarrow> a \<le> b"
  by (simp add: from_secs_def)

lemma from_secs_less [simp]: "from_secs a < from_secs b \<longleftrightarrow> a < b"
  by (simp add: from_secs_def)

lemma from_secs_add: "from_secs (a + b) = from_secs a + from_secs b"
  by (simp add: from_secs_def algebra_simps)

end
