(* ===== verification/Reasons.thy ===== *)
theory Reasons
  imports Prelude
begin

text \<open>
  The vocabulary of the audit trail (\<^verbatim>\<open>src/proxy/src/audit.rs\<close>): the risk scale, the stages of
  the request pipeline and the table of reasons a request can be refused for, with each reason's
  code, stage and risk.  The locale \<open>audited_error\<close> is what an error type has to offer to be
  recorded: a reason in a fixed layer of the pipeline that is not the rate limiter's, and a
  message.  \<open>Attest\<close> and \<open>Machine\<close> interpret it for their error types.
\<close>

section \<open>Risk, stage, reason\<close>

datatype risk = Risk_Info | Risk_Low | Risk_Medium | Risk_High | Risk_Critical

datatype stage =
    St_RateLimit | St_AttestationHeaders | St_MachineIdentity | St_AttestationToken
  | St_AttestationBody | St_Upstream | St_Downstream | St_Internal

definition is_attestation :: "stage \<Rightarrow> bool" where
  "is_attestation s \<longleftrightarrow>
     s = St_AttestationHeaders \<or> s = St_AttestationToken \<or> s = St_AttestationBody"

datatype reason =
    R_RateLimited | R_NoAttestationHeaders | R_IncompleteAttestationHeaders
  | R_MachineCertMissing | R_MachineCertMalformed | R_MachineCertNoCommonName
  | R_MachineCertUnsafeCommonName | R_MachineHostnameNotAllowed | R_MachineCertExpired
  | R_MachineCertNotYetValid | R_MachineCertUntrusted | R_MachineHostnameUnresolvable
  | R_MachineAddressMismatch | R_MachineNoClientAddress
  | R_TimestampInvalid | R_TimestampOutOfWindow | R_NonceInvalid | R_NonceReplay
  | R_TokenMalformed | R_TokenDecryptFailed | R_TokenRequestMismatch
  | R_BodyTooLarge | R_BodyHashMismatch | R_BodyReadFailed | R_RequestMalformed
  | R_UpstreamError | R_DownstreamError | R_InternalError

fun reason_code :: "reason \<Rightarrow> ustring" where
  "reason_code R_RateLimited = str ''rate_limited''"
| "reason_code R_NoAttestationHeaders = str ''no_attestation_headers''"
| "reason_code R_IncompleteAttestationHeaders = str ''incomplete_attestation_headers''"
| "reason_code R_MachineCertMissing = str ''machine_cert_missing''"
| "reason_code R_MachineCertMalformed = str ''machine_cert_malformed''"
| "reason_code R_MachineCertNoCommonName = str ''machine_cert_no_common_name''"
| "reason_code R_MachineCertUnsafeCommonName = str ''machine_cert_unsafe_common_name''"
| "reason_code R_MachineHostnameNotAllowed = str ''machine_hostname_not_allowed''"
| "reason_code R_MachineCertExpired = str ''machine_cert_expired''"
| "reason_code R_MachineCertNotYetValid = str ''machine_cert_not_yet_valid''"
| "reason_code R_MachineCertUntrusted = str ''machine_cert_untrusted''"
| "reason_code R_MachineHostnameUnresolvable = str ''machine_hostname_unresolvable''"
| "reason_code R_MachineAddressMismatch = str ''machine_address_mismatch''"
| "reason_code R_MachineNoClientAddress = str ''machine_no_client_address''"
| "reason_code R_TimestampInvalid = str ''timestamp_invalid''"
| "reason_code R_TimestampOutOfWindow = str ''timestamp_out_of_window''"
| "reason_code R_NonceInvalid = str ''nonce_invalid''"
| "reason_code R_NonceReplay = str ''nonce_replay''"
| "reason_code R_TokenMalformed = str ''token_malformed''"
| "reason_code R_TokenDecryptFailed = str ''token_decrypt_failed''"
| "reason_code R_TokenRequestMismatch = str ''token_request_mismatch''"
| "reason_code R_BodyTooLarge = str ''body_too_large''"
| "reason_code R_BodyHashMismatch = str ''body_hash_mismatch''"
| "reason_code R_BodyReadFailed = str ''body_read_failed''"
| "reason_code R_RequestMalformed = str ''request_malformed''"
| "reason_code R_UpstreamError = str ''upstream_error''"
| "reason_code R_DownstreamError = str ''downstream_error''"
| "reason_code R_InternalError = str ''internal_error''"

fun reason_stage :: "reason \<Rightarrow> stage" where
  "reason_stage R_RateLimited = St_RateLimit"
| "reason_stage R_NoAttestationHeaders = St_AttestationHeaders"
| "reason_stage R_IncompleteAttestationHeaders = St_AttestationHeaders"
| "reason_stage R_MachineCertMissing = St_MachineIdentity"
| "reason_stage R_MachineCertMalformed = St_MachineIdentity"
| "reason_stage R_MachineCertNoCommonName = St_MachineIdentity"
| "reason_stage R_MachineCertUnsafeCommonName = St_MachineIdentity"
| "reason_stage R_MachineHostnameNotAllowed = St_MachineIdentity"
| "reason_stage R_MachineCertExpired = St_MachineIdentity"
| "reason_stage R_MachineCertNotYetValid = St_MachineIdentity"
| "reason_stage R_MachineCertUntrusted = St_MachineIdentity"
| "reason_stage R_MachineHostnameUnresolvable = St_MachineIdentity"
| "reason_stage R_MachineAddressMismatch = St_MachineIdentity"
| "reason_stage R_MachineNoClientAddress = St_MachineIdentity"
| "reason_stage R_TimestampInvalid = St_AttestationToken"
| "reason_stage R_TimestampOutOfWindow = St_AttestationToken"
| "reason_stage R_NonceInvalid = St_AttestationToken"
| "reason_stage R_NonceReplay = St_AttestationToken"
| "reason_stage R_TokenMalformed = St_AttestationToken"
| "reason_stage R_TokenDecryptFailed = St_AttestationToken"
| "reason_stage R_TokenRequestMismatch = St_AttestationToken"
| "reason_stage R_BodyTooLarge = St_AttestationBody"
| "reason_stage R_BodyHashMismatch = St_AttestationBody"
| "reason_stage R_BodyReadFailed = St_Downstream"
| "reason_stage R_RequestMalformed = St_Downstream"
| "reason_stage R_UpstreamError = St_Upstream"
| "reason_stage R_DownstreamError = St_Downstream"
| "reason_stage R_InternalError = St_Internal"

fun reason_risk :: "reason \<Rightarrow> risk" where
  "reason_risk R_RateLimited = Risk_Medium"
| "reason_risk R_NoAttestationHeaders = Risk_Low"
| "reason_risk R_IncompleteAttestationHeaders = Risk_High"
| "reason_risk R_MachineCertMissing = Risk_Medium"
| "reason_risk R_MachineCertMalformed = Risk_High"
| "reason_risk R_MachineCertNoCommonName = Risk_High"
| "reason_risk R_MachineCertUnsafeCommonName = Risk_High"
| "reason_risk R_MachineHostnameNotAllowed = Risk_High"
| "reason_risk R_MachineCertExpired = Risk_Medium"
| "reason_risk R_MachineCertNotYetValid = Risk_Medium"
| "reason_risk R_MachineCertUntrusted = Risk_High"
| "reason_risk R_MachineHostnameUnresolvable = Risk_Medium"
| "reason_risk R_MachineAddressMismatch = Risk_High"
| "reason_risk R_MachineNoClientAddress = Risk_Medium"
| "reason_risk R_TimestampInvalid = Risk_High"
| "reason_risk R_TimestampOutOfWindow = Risk_Medium"
| "reason_risk R_NonceInvalid = Risk_High"
| "reason_risk R_NonceReplay = Risk_High"
| "reason_risk R_TokenMalformed = Risk_High"
| "reason_risk R_TokenDecryptFailed = Risk_High"
| "reason_risk R_TokenRequestMismatch = Risk_Critical"
| "reason_risk R_BodyTooLarge = Risk_Medium"
| "reason_risk R_BodyHashMismatch = Risk_Critical"
| "reason_risk R_BodyReadFailed = Risk_Low"
| "reason_risk R_RequestMalformed = Risk_High"
| "reason_risk R_UpstreamError = Risk_Medium"
| "reason_risk R_DownstreamError = Risk_Low"
| "reason_risk R_InternalError = Risk_Medium"

lemma reason_code_inj: "reason_code r = reason_code r' \<Longrightarrow> r = r'"
  by (cases r; cases r'; simp)

lemma reason_risk_not_info [simp]: "reason_risk r \<noteq> Risk_Info" "Risk_Info \<noteq> reason_risk r"
  by (cases r; simp)+

lemma reason_stage_rate_limit: "reason_stage r = St_RateLimit \<longleftrightarrow> r = R_RateLimited"
  by (cases r) simp_all

section \<open>What an error type owes the audit trail\<close>

locale audited_error =
  fixes err_reason :: "'e \<Rightarrow> reason"
    and err_message :: "'e \<Rightarrow> ustring"
    and layer :: "stage set"
  assumes reason_in_layer: "reason_stage (err_reason e) \<in> layer"
    and layer_not_rate_limit: "St_RateLimit \<notin> layer"
    and message_not_empty: "err_message e \<noteq> []"
begin

lemma not_rate_limited: "err_reason e \<noteq> R_RateLimited"
  using reason_in_layer [of e] layer_not_rate_limit by auto

lemma risk_above_info: "reason_risk (err_reason e) \<noteq> Risk_Info"
  by simp

end

end
