(* ===== verification/Attest.thy ===== *)
theory Attest
  imports Reasons
begin

text \<open>
  Attestation (\<^verbatim>\<open>src/proxy/src/attest.rs\<close>): the timestamp windows, the replay cache
  (\<open>nonce_cache\<close>), the verifier's two phases (\<open>verify_headers\<close>, then \<open>commit_nonce\<close> or
  \<open>verify_body_and_commit\<close>) and the error type with its audit reasons and messages.

  The cryptography and base64 are crates the proxy calls, so they are the record \<open>crypto\<close> that
  the definitions take as an argument.  The clocks are arguments too: the wall clock in
  nanoseconds since the Unix epoch (possibly negative), the monotonic clock as an \<open>instant\<close>.

  The replay cache is used through the locale \<open>replay_cache\<close>, interpreted on \<open>nonce_cache\<close>;
  \<open>verifier_step\<close> is the transition system of a verifier shared by any number of requests whose
  two phases interleave arbitrarily.
\<close>

section \<open>Constants\<close>

definition MAX_TS_DRIFT_SECS :: int where "MAX_TS_DRIFT_SECS = 30"
definition COMMIT_GRACE_SECS :: int where "COMMIT_GRACE_SECS = 60"
definition NONCE_TTL :: duration where "NONCE_TTL = from_secs 180"
definition NONCE_LEN :: nat where "NONCE_LEN = 16"
definition HEX_HASH_LEN :: nat where "HEX_HASH_LEN = 64"
definition MAX_EVICTIONS_PER_COMMIT :: nat where "MAX_EVICTIONS_PER_COMMIT = 256"
definition TOKEN_MIN_LEN :: nat where "TOKEN_MIN_LEN = 94"
definition PLAINTEXT_PREFIX :: "byte list" where
  "PLAINTEXT_PREFIX = utf8 (str ''denbrowser-attest:v2'')"
definition UNBOUND_SENTINEL :: "byte list" where
  "UNBOUND_SENTINEL = utf8 (str ''unbound'')"

lemmas window_consts = MAX_TS_DRIFT_SECS_def COMMIT_GRACE_SECS_def

section \<open>Data\<close>

type_synonym nonce = "byte list"

record attest_inputs =
  in_ts :: ustring
  in_nonce_b64 :: ustring
  in_token_b64 :: ustring
  in_host :: ustring
  in_method :: ustring
  in_path :: ustring

datatype body_binding = Hash "byte list" | Unbound

record phase_one =
  p1_nonce :: nonce
  p1_body_binding :: body_binding
  p1_ts :: int

datatype attest_error =
    AE_BadTimestamp
  | AE_TimestampDrift int
  | AE_CommitTooLate int
  | AE_InvalidNonce ustring
  | AE_NonceReplay
  | AE_InvalidToken ustring
  | AE_DecryptFailed
  | AE_PlaintextMismatch
  | AE_BodyHashMismatch

record nonce_cache =
  seen :: "nonce set"
  expiry :: "(nonce \<times> instant) list"

record 'sk verifier =
  private_key :: 'sk
  v_cache :: nonce_cache

text \<open>The crates: \<^verbatim>\<open>base64\<close>, \<^verbatim>\<open>p256\<close>, \<^verbatim>\<open>sha2\<close> and \<^verbatim>\<open>aes_gcm\<close>.\<close>

record ('sk, 'pk) crypto =
  b64_decode :: "ustring \<Rightarrow> byte list option"
  from_sec1_bytes :: "byte list \<Rightarrow> 'pk option"
  diffie_hellman :: "'sk \<Rightarrow> 'pk \<Rightarrow> byte list"
  sha256 :: "byte list \<Rightarrow> byte list"
  aes128_gcm_decrypt :: "byte list \<Rightarrow> byte list \<Rightarrow> byte list \<Rightarrow> byte list option"

section \<open>Errors: message and audit reason\<close>

fun attest_error_display :: "attest_error \<Rightarrow> ustring" where
  "attest_error_display AE_BadTimestamp = str ''X-DenBrowser-Ts is not a valid integer''"
| "attest_error_display (AE_TimestampDrift d) =
     str ''timestamp drift '' @ dec_int d @ str ''s exceeds '' @ dec_int MAX_TS_DRIFT_SECS @
     str ''s window''"
| "attest_error_display (AE_CommitTooLate d) =
     (let limit = MAX_TS_DRIFT_SECS + COMMIT_GRACE_SECS in
      str ''nonce committed '' @ dec_int d @ str ''s after X-DenBrowser-Ts, past the '' @
      dec_int limit @ str ''s commit window '' @ [8212] @
      str '' the body or the checks before forwarding took too long'')"
| "attest_error_display (AE_InvalidNonce r) = str ''invalid X-DenBrowser-Nonce: '' @ r"
| "attest_error_display AE_NonceReplay =
     str ''nonce already seen '' @ [8212] @ str '' replay rejected''"
| "attest_error_display (AE_InvalidToken r) = str ''invalid token: '' @ r"
| "attest_error_display AE_DecryptFailed = str ''AES-128-GCM authentication failed''"
| "attest_error_display AE_PlaintextMismatch = str ''plaintext mismatch''"
| "attest_error_display AE_BodyHashMismatch = str ''body hash mismatch''"

fun attest_error_reason :: "attest_error \<Rightarrow> reason" where
  "attest_error_reason AE_BadTimestamp = R_TimestampInvalid"
| "attest_error_reason (AE_TimestampDrift _) = R_TimestampOutOfWindow"
| "attest_error_reason (AE_CommitTooLate _) = R_TimestampOutOfWindow"
| "attest_error_reason (AE_InvalidNonce _) = R_NonceInvalid"
| "attest_error_reason AE_NonceReplay = R_NonceReplay"
| "attest_error_reason (AE_InvalidToken _) = R_TokenMalformed"
| "attest_error_reason AE_DecryptFailed = R_TokenDecryptFailed"
| "attest_error_reason AE_PlaintextMismatch = R_TokenRequestMismatch"
| "attest_error_reason AE_BodyHashMismatch = R_BodyHashMismatch"

section \<open>Clock checks\<close>

text \<open>\<^verbatim>\<open>unix_now\<close>: whole seconds; a clock before the epoch reads as 0.\<close>

definition unix_now :: "int \<Rightarrow> int" where
  "unix_now wall = (if wall < 0 then 0 else wall div 1000000000)"

definition check_drift :: "int \<Rightarrow> int \<Rightarrow> attest_error + unit" where
  "check_drift ts now =
     (let drift = saturating_abs (saturating_sub now ts)
      in if drift > MAX_TS_DRIFT_SECS then Inl (AE_TimestampDrift drift) else Inr ())"

definition check_commit_window :: "int \<Rightarrow> int \<Rightarrow> attest_error + unit" where
  "check_commit_window ts now =
     (let elapsed = saturating_sub now ts
      in if elapsed < - MAX_TS_DRIFT_SECS then Inl (AE_TimestampDrift (saturating_abs elapsed))
         else if elapsed > MAX_TS_DRIFT_SECS + COMMIT_GRACE_SECS then Inl (AE_CommitTooLate elapsed)
         else Inr ())"

section \<open>The replay cache\<close>

definition nc_default :: nonce_cache where
  "nc_default = \<lparr>seen = {}, expiry = []\<rparr>"

definition nc_contains :: "nonce_cache \<Rightarrow> nonce \<Rightarrow> bool" where
  "nc_contains c n \<longleftrightarrow> n \<in> seen c"

text \<open>
  The loop of \<^verbatim>\<open>evict_expired\<close>: \<open>k\<close> counts the entries dropped so far; the front of the queue is
  looked at, and popped only if the batch is not full and the entry has aged out.
\<close>

fun evict_loop :: "nat \<Rightarrow> instant \<Rightarrow> nonce set \<Rightarrow> (nonce \<times> instant) list \<Rightarrow> nonce_cache" where
  "evict_loop k now S [] = \<lparr>seen = S, expiry = []\<rparr>"
| "evict_loop k now S ((n, committed) # q) =
     (if k = MAX_EVICTIONS_PER_COMMIT \<or> now - committed < NONCE_TTL
      then \<lparr>seen = S, expiry = (n, committed) # q\<rparr>
      else evict_loop (Suc k) now (S - {n}) q)"

definition evict_expired :: "instant \<Rightarrow> nonce_cache \<Rightarrow> nonce_cache" where
  "evict_expired now c = evict_loop 0 now (seen c) (expiry c)"

definition nc_commit ::
  "nonce \<Rightarrow> instant \<Rightarrow> nonce_cache \<Rightarrow> (attest_error + unit) \<times> nonce_cache" where
  "nc_commit n now c =
     (let c' = evict_expired now c in
      if n \<in> seen c' then (Inl AE_NonceReplay, c')
      else (Inr (), c'\<lparr>seen := insert n (seen c'), expiry := expiry c' @ [(n, now)]\<rparr>))"

section \<open>The verifier\<close>

text \<open>\<^verbatim>\<open>from_pem\<close> and \<^verbatim>\<open>from_config\<close>; reading the file and parsing SEC1 PEM are arguments.\<close>

record attestation_config =
  att_private_key :: ustring

datatype key_error =
    KE_NotSet
  | KE_CannotRead ustring ustring
  | KE_CannotParse ustring ustring

definition verifier_from_pem ::
  "(ustring \<Rightarrow> ustring + 'sk) \<Rightarrow> ustring \<Rightarrow> ustring + 'sk verifier" where
  "verifier_from_pem from_sec1_pem pem =
     rbind (from_sec1_pem pem) (\<lambda>key. Inr \<lparr>private_key = key, v_cache = nc_default\<rparr>)"

definition verifier_from_config ::
  "(ustring \<Rightarrow> ustring + ustring) \<Rightarrow> (ustring \<Rightarrow> ustring + 'sk) \<Rightarrow> attestation_config
   \<Rightarrow> key_error + 'sk verifier" where
  "verifier_from_config read_to_string from_sec1_pem cfg =
     rbind (ensure (att_private_key cfg \<noteq> []) KE_NotSet) (\<lambda>_.
     rbind (map_err (KE_CannotRead (att_private_key cfg)) (read_to_string (att_private_key cfg)))
       (\<lambda>pem. map_err (KE_CannotParse (att_private_key cfg)) (verifier_from_pem from_sec1_pem pem)))"

text \<open>\<^verbatim>\<open>slice::chunks(2)\<close>.\<close>

fun chunks2 :: "'a list \<Rightarrow> 'a list list" where
  "chunks2 [] = []"
| "chunks2 [a] = [[a]]"
| "chunks2 (a # b # r) = [a, b] # chunks2 r"

text \<open>
  Step 8 of \<^verbatim>\<open>verify_headers\<close>: the sentinel, or 64 bytes read two at a time as hexadecimal
  (\<^verbatim>\<open>u8::from_str_radix\<close>, sign rules included).
\<close>

definition parse_hash_pair :: "byte list \<Rightarrow> attest_error + byte" where
  "parse_hash_pair pair =
     rbind (ok_or (from_utf8 pair) AE_PlaintextMismatch) (\<lambda>s.
     ok_or (u8_from_hex s) AE_PlaintextMismatch)"

definition parse_body_binding :: "byte list \<Rightarrow> attest_error + body_binding" where
  "parse_body_binding field =
     (if field = UNBOUND_SENTINEL then Inr Unbound
      else rbind (ensure (length field = HEX_HASH_LEN) AE_PlaintextMismatch) (\<lambda>_.
           rbind (mapM parse_hash_pair (chunks2 field)) (\<lambda>h. Inr (Hash h))))"

text \<open>Steps 4 to 6: split the token, derive the AES key, decrypt.\<close>

definition derive_key :: "('sk, 'pk, 'x) crypto_scheme \<Rightarrow> 'sk \<Rightarrow> 'pk \<Rightarrow> byte list" where
  "derive_key K sk pk = take 16 (sha256 K (diffie_hellman K sk pk @ [0, 0, 0, 1]))"

definition decrypt_token ::
  "('sk, 'pk, 'x) crypto_scheme \<Rightarrow> 'sk \<Rightarrow> ustring \<Rightarrow> attest_error + byte list" where
  "decrypt_token K sk token_b64 =
     rbind (ok_or (b64_decode K token_b64) (AE_InvalidToken (str ''invalid base64''))) (\<lambda>raw.
     rbind (ensure (TOKEN_MIN_LEN \<le> length raw) (AE_InvalidToken (str ''token too short''))) (\<lambda>_.
     let ephem_bytes = take 65 raw; iv = take 12 (drop 65 raw); ct_tag = drop 77 raw in
     rbind (ok_or (from_sec1_bytes K ephem_bytes)
              (AE_InvalidToken (str ''EC point not on curve''))) (\<lambda>ephem_pub.
     ok_or (aes128_gcm_decrypt K (derive_key K sk ephem_pub) iv ct_tag) AE_DecryptFailed)))"

text \<open>Step 7: the plaintext is seven newline-separated fields, the first six known.\<close>

definition check_plaintext :: "attest_inputs \<Rightarrow> byte list \<Rightarrow> attest_error + byte list" where
  "check_plaintext i plaintext =
     (let parts = split_on 10 plaintext in
      if length parts \<noteq> 7 \<or> parts ! 0 \<noteq> PLAINTEXT_PREFIX
         \<or> parts ! 1 \<noteq> utf8 (in_nonce_b64 i) \<or> parts ! 2 \<noteq> utf8 (in_ts i)
         \<or> parts ! 3 \<noteq> utf8 (in_host i) \<or> parts ! 4 \<noteq> utf8 (in_method i)
         \<or> parts ! 5 \<noteq> utf8 (in_path i)
      then Inl AE_PlaintextMismatch else Inr (parts ! 6))"

text \<open>Step 2: the nonce is base64 of exactly 16 bytes.\<close>

definition decode_nonce :: "('sk, 'pk, 'x) crypto_scheme \<Rightarrow> ustring \<Rightarrow> attest_error + nonce" where
  "decode_nonce K nonce_b64 =
     rbind (ok_or (b64_decode K nonce_b64) (AE_InvalidNonce (str ''not base64''))) (\<lambda>raw.
     rbind (ensure (length raw = NONCE_LEN) (AE_InvalidNonce (str ''wrong length''))) (\<lambda>_.
     Inr raw))"

definition verify_headers ::
  "('sk, 'pk, 'x) crypto_scheme \<Rightarrow> int \<Rightarrow> 'sk verifier \<Rightarrow> attest_inputs \<Rightarrow> attest_error + phase_one" where
  "verify_headers K wall v i =
     rbind (ok_or (parse_i64 (in_ts i)) AE_BadTimestamp) (\<lambda>ts.
     rbind (check_drift ts (unix_now wall)) (\<lambda>_.
     rbind (decode_nonce K (in_nonce_b64 i)) (\<lambda>nonce.
     rbind (ensure (\<not> nc_contains (v_cache v) nonce) AE_NonceReplay) (\<lambda>_.
     rbind (decrypt_token K (private_key v) (in_token_b64 i)) (\<lambda>plaintext.
     rbind (check_plaintext i plaintext) (\<lambda>body_field.
     rbind (parse_body_binding body_field) (\<lambda>binding.
     Inr \<lparr>p1_nonce = nonce, p1_body_binding = binding, p1_ts = ts\<rparr>)))))))"

text \<open>
  \<^verbatim>\<open>commit_nonce\<close>: one critical section under the cache's lock.  The wall clock and the monotonic
  clock are the readings taken inside it.
\<close>

definition commit_nonce ::
  "int \<Rightarrow> instant \<Rightarrow> phase_one \<Rightarrow> 'sk verifier \<Rightarrow> (attest_error + unit) \<times> 'sk verifier" where
  "commit_nonce wall inst p1 v =
     (if nc_contains (v_cache v) (p1_nonce p1) then (Inl AE_NonceReplay, v)
      else case check_commit_window (p1_ts p1) (unix_now wall) of
             Inl e \<Rightarrow> (Inl e, v)
           | Inr _ \<Rightarrow> (case nc_commit (p1_nonce p1) inst (v_cache v) of
                          (r, c) \<Rightarrow> (r, v\<lparr>v_cache := c\<rparr>)))"

definition verify_body_and_commit ::
  "int \<Rightarrow> instant \<Rightarrow> phase_one \<Rightarrow> byte list \<Rightarrow> 'sk verifier
   \<Rightarrow> (attest_error + unit) \<times> 'sk verifier" where
  "verify_body_and_commit wall inst p1 actual v =
     (case p1_body_binding p1 of
        Hash expected \<Rightarrow>
          if expected \<noteq> actual then (Inl AE_BodyHashMismatch, v) else commit_nonce wall inst p1 v
      | Unbound \<Rightarrow> commit_nonce wall inst p1 v)"

section \<open>The client's half\<close>

text \<open>
  What a DenBrowser client does, as the test module mirrors it: \<open>make_token_with_body_field\<close> and
  \<open>make_token\<close>.  The sealing operations of the crates extend \<open>crypto\<close>; \<open>crypto_laws\<close> is the
  documented behaviour the protocol relies on.
\<close>

record ('sk, 'pk) client_crypto = "('sk, 'pk) crypto" +
  b64_encode :: "byte list \<Rightarrow> ustring"
  public_key :: "'sk \<Rightarrow> 'pk"
  to_encoded_point :: "'pk \<Rightarrow> byte list"
  aes128_gcm_encrypt :: "byte list \<Rightarrow> byte list \<Rightarrow> byte list \<Rightarrow> byte list"

definition crypto_laws :: "('sk, 'pk, 'x) client_crypto_scheme \<Rightarrow> bool" where
  "crypto_laws K \<longleftrightarrow>
     (\<forall>bs. b64_decode K (b64_encode K bs) = Some bs) \<and>
     (\<forall>pk. from_sec1_bytes K (to_encoded_point K pk) = Some pk) \<and>
     (\<forall>pk. length (to_encoded_point K pk) = 65) \<and>
     (\<forall>a b. diffie_hellman K a (public_key K b) = diffie_hellman K b (public_key K a)) \<and>
     (\<forall>k iv m. length k = 16 \<longrightarrow> length iv = 12 \<longrightarrow>
        aes128_gcm_decrypt K k iv (aes128_gcm_encrypt K k iv m) = Some m) \<and>
     (\<forall>k iv m. length (aes128_gcm_encrypt K k iv m) = length m + 16) \<and>
     (\<forall>m. length (sha256 K m) = 32)"

definition sha256_hex :: "('sk, 'pk, 'x) crypto_scheme \<Rightarrow> byte list \<Rightarrow> ustring" where
  "sha256_hex K data = concat (map hex_lower (sha256 K data))"

definition make_token_with_body_field ::
  "('sk, 'pk, 'x) client_crypto_scheme \<Rightarrow> 'sk \<Rightarrow> 'pk \<Rightarrow> ustring \<Rightarrow> ustring \<Rightarrow> ustring \<Rightarrow> ustring
   \<Rightarrow> ustring \<Rightarrow> ustring \<Rightarrow> ustring" where
  "make_token_with_body_field K ephem_priv proxy_pub nonce_b64 ts host meth path body_field =
     (let shared = diffie_hellman K ephem_priv proxy_pub;
          aes_key = take 16 (sha256 K (shared @ [0, 0, 0, 1]));
          iv = replicate 12 0;
          plaintext = join [10] [str ''denbrowser-attest:v2'', nonce_b64, ts, host, meth, path,
            body_field];
          ct_tag = aes128_gcm_encrypt K aes_key iv (utf8 plaintext)
      in b64_encode K (to_encoded_point K (public_key K ephem_priv) @ iv @ ct_tag))"

definition make_token ::
  "('sk, 'pk, 'x) client_crypto_scheme \<Rightarrow> 'sk \<Rightarrow> 'pk \<Rightarrow> ustring \<Rightarrow> ustring \<Rightarrow> ustring \<Rightarrow> ustring
   \<Rightarrow> ustring \<Rightarrow> byte list \<Rightarrow> ustring" where
  "make_token K ephem_priv proxy_pub nonce_b64 ts host meth path body =
     make_token_with_body_field K ephem_priv proxy_pub nonce_b64 ts host meth path
       (sha256_hex K body)"

interpretation attest_err: audited_error attest_error_reason attest_error_display
  "{St_AttestationToken, St_AttestationBody}"
proof
  fix e
  show "reason_stage (attest_error_reason e) \<in> {St_AttestationToken, St_AttestationBody}"
    by (cases e) simp_all
  show "attest_error_display e \<noteq> []"
    by (cases e) (simp_all add: Let_def)
qed simp

section \<open>The windows\<close>

lemma saturating_drift: "saturating_abs (saturating_sub a b) = min i64_max \<bar>a - b\<bar>"
  by (auto simp: i64_defs)

lemma check_drift_eq:
  "check_drift ts now =
     (if \<bar>now - ts\<bar> \<le> 30 then Inr () else Inl (AE_TimestampDrift (min i64_max \<bar>now - ts\<bar>)))"
  by (auto simp: check_drift_def saturating_drift Let_def window_consts i64_max_def)

lemma check_commit_window_eq:
  "check_commit_window ts now =
     (if now - ts < - 30 then Inl (AE_TimestampDrift (min i64_max \<bar>now - ts\<bar>))
      else if now - ts > 90 then Inl (AE_CommitTooLate (min i64_max (now - ts)))
      else Inr ())"
  by (auto simp: check_commit_window_def saturating_drift Let_def window_consts i64_defs)

lemma unix_now_diff:
  "unix_now w' - unix_now w \<le> k \<Longrightarrow> 0 \<le> w \<Longrightarrow> w' - w < (k + 1) * 1000000000"
  by (auto simp: unix_now_def split: if_splits)

section \<open>Interface of a replay cache\<close>

definition remembers ::
  "('c \<Rightarrow> 'n \<Rightarrow> instant option) \<Rightarrow> duration \<Rightarrow> 'c \<Rightarrow> instant \<Rightarrow> ('n \<times> instant) list \<Rightarrow> bool" where
  "remembers stamp ttl c now log \<longleftrightarrow>
     (\<forall>(n, s) \<in> set log. s \<le> now \<and> (now - s < ttl \<longrightarrow> stamp c n = Some s))"

definition spaced :: "duration \<Rightarrow> ('n \<times> instant) list \<Rightarrow> bool" where
  "spaced ttl log \<longleftrightarrow>
     sorted_wrt (\<lambda>late early. fst late = fst early \<longrightarrow> ttl \<le> snd late - snd early) log"

locale replay_cache =
  fixes empty :: 'c
    and has :: "'c \<Rightarrow> 'n \<Rightarrow> bool"
    and put :: "'n \<Rightarrow> instant \<Rightarrow> 'c \<Rightarrow> ('e + unit) \<times> 'c"
    and inv :: "'c \<Rightarrow> instant \<Rightarrow> bool"
    and stamp :: "'c \<Rightarrow> 'n \<Rightarrow> instant option"
    and ttl :: duration
  assumes inv_empty: "inv empty t"
    and inv_later: "inv c t \<Longrightarrow> t \<le> t' \<Longrightarrow> inv c t'"
    and inv_put: "inv c t \<Longrightarrow> t \<le> now \<Longrightarrow> inv (snd (put n now c)) now"
    and has_iff_stamp: "inv c t \<Longrightarrow> has c n \<longleftrightarrow> stamp c n \<noteq> None"
    and put_keeps_young: "inv c t \<Longrightarrow> t \<le> now \<Longrightarrow> stamp c m = Some s \<Longrightarrow> now - s < ttl \<Longrightarrow>
      stamp (snd (put n now c)) m = Some s"
    and put_ok_stamps: "inv c t \<Longrightarrow> t \<le> now \<Longrightarrow> fst (put n now c) = Inr () \<Longrightarrow>
      stamp (snd (put n now c)) n = Some now"
    and put_refuses_young: "inv c t \<Longrightarrow> t \<le> now \<Longrightarrow> stamp c n = Some s \<Longrightarrow> now - s < ttl \<Longrightarrow>
      fst (put n now c) \<noteq> Inr ()"
    and put_accepts_fresh: "inv c t \<Longrightarrow> t \<le> now \<Longrightarrow> stamp c n = None \<Longrightarrow>
      fst (put n now c) = Inr ()"
begin

lemma remembers_later:
  "remembers stamp ttl c now log \<Longrightarrow> now \<le> now' \<Longrightarrow> remembers stamp ttl c now' log"
  by (force simp: remembers_def)

lemma remembers_put:
  assumes "inv c now" "remembers stamp ttl c now log"
  shows "remembers stamp ttl (snd (put n now c)) now log"
  using assms put_keeps_young [of c now now] by (auto simp: remembers_def)

lemma remembers_put_ok:
  assumes "inv c now" "remembers stamp ttl c now log" "fst (put n now c) = Inr ()"
  shows "remembers stamp ttl (snd (put n now c)) now ((n, now) # log)"
  using remembers_put [OF assms(1,2)] put_ok_stamps [OF assms(1) _ assms(3)]
  by (simp add: remembers_def)

lemma spaced_put_ok:
  assumes "inv c now" "remembers stamp ttl c now log" "spaced ttl log" "fst (put n now c) = Inr ()"
  shows "spaced ttl ((n, now) # log)"
proof -
  have "ttl \<le> now - s" if "(n, s) \<in> set log" for s
  proof (rule ccontr)
    assume "\<not> ttl \<le> now - s"
    then have young: "now - s < ttl" by simp
    with that assms(2) have "stamp c n = Some s" by (auto simp: remembers_def)
    with young put_refuses_young [OF assms(1)] assms(4) show False by blast
  qed
  with assms(3) show ?thesis by (auto simp: spaced_def)
qed

end

section \<open>The nonce cache implements it\<close>

definition cache_inv :: "nonce_cache \<Rightarrow> instant \<Rightarrow> bool" where
  "cache_inv c t \<longleftrightarrow>
     seen c = fst ` set (expiry c) \<and> distinct (map fst (expiry c)) \<and>
     sorted (map snd (expiry c)) \<and> (\<forall>e \<in> set (expiry c). snd e \<le> t)"

definition nc_stamp :: "nonce_cache \<Rightarrow> nonce \<Rightarrow> instant option" where
  "nc_stamp c n = map_of (expiry c) n"

abbreviation aged :: "instant \<Rightarrow> nonce \<times> instant \<Rightarrow> bool" where
  "aged now e \<equiv> NONCE_TTL \<le> now - snd e"

definition evict_count :: "nat \<Rightarrow> instant \<Rightarrow> (nonce \<times> instant) list \<Rightarrow> nat" where
  "evict_count k now q = length (takeWhile (aged now) (take (MAX_EVICTIONS_PER_COMMIT - k) q))"

lemma evict_loop_eq:
  assumes "k \<le> MAX_EVICTIONS_PER_COMMIT" "distinct (map fst q)"
  shows "evict_loop k now S q =
     \<lparr>seen = S - fst ` set (take (evict_count k now q) q), expiry = drop (evict_count k now q) q\<rparr>"
  using assms
proof (induction k now S q rule: evict_loop.induct)
  case (1 k now S)
  then show ?case by (simp add: evict_count_def)
next
  case (2 k now S n committed q)
  show ?case
  proof (cases "k = MAX_EVICTIONS_PER_COMMIT \<or> now - committed < NONCE_TTL")
    case True
    then have "evict_count k now ((n, committed) # q) = 0"
      by (auto simp: evict_count_def take_Cons')
    with True show ?thesis by simp
  next
    case False
    with "2.prems" have less: "k < MAX_EVICTIONS_PER_COMMIT" by simp
    then obtain j where "MAX_EVICTIONS_PER_COMMIT - k = Suc j" "MAX_EVICTIONS_PER_COMMIT - Suc k = j"
      by (metis Suc_diff_Suc)
    with False have "evict_count k now ((n, committed) # q) = Suc (evict_count (Suc k) now q)"
      by (simp add: evict_count_def)
    with 2 False less show ?thesis by auto
  qed
qed

lemma evict_count_le: "evict_count k now q \<le> MAX_EVICTIONS_PER_COMMIT - k"
  using length_takeWhile_le [of "aged now" "take (MAX_EVICTIONS_PER_COMMIT - k) q"]
  by (simp add: evict_count_def)

lemma evict_count_aged:
  assumes "e \<in> set (take (evict_count k now q) q)"
  shows "aged now e"
proof -
  let ?t = "take (MAX_EVICTIONS_PER_COMMIT - k) q"
  have "take (evict_count k now q) q = takeWhile (aged now) ?t"
    by (metis evict_count_def evict_count_le takeWhile_eq_take min.absorb1 take_take)
  with assms show ?thesis by (auto dest: set_takeWhileD)
qed
lemma evict_expired_eq:
  assumes "cache_inv c t"
  shows "evict_expired now c =
     \<lparr>seen = seen c - fst ` set (take (evict_count 0 now (expiry c)) (expiry c)),
      expiry = drop (evict_count 0 now (expiry c)) (expiry c)\<rparr>"
  using assms by (simp add: evict_expired_def evict_loop_eq cache_inv_def)

lemma cache_inv_suffix:
  "cache_inv \<lparr>seen = S, expiry = A @ B\<rparr> t \<Longrightarrow> cache_inv \<lparr>seen = S - fst ` set A, expiry = B\<rparr> t"
  by (auto simp: cache_inv_def sorted_append)

lemma cache_inv_drop:
  "cache_inv c t \<Longrightarrow>
   cache_inv \<lparr>seen = seen c - fst ` set (take d (expiry c)), expiry = drop d (expiry c)\<rparr> t"
  by (rule cache_inv_suffix) (simp add: cache_inv_def)

lemma cache_inv_evict: "cache_inv c t \<Longrightarrow> cache_inv (evict_expired now c) t"
  by (simp add: evict_expired_eq cache_inv_drop)

lemma nc_stamp_evict:
  assumes "cache_inv c t" "nc_stamp c n = Some s" "now - s < NONCE_TTL"
  shows "nc_stamp (evict_expired now c) n = Some s"
proof -
  let ?d = "evict_count 0 now (expiry c)" and ?q = "expiry c"
  have in_q: "(n, s) \<in> set ?q"
    using assms(2) by (simp add: nc_stamp_def map_of_SomeD)
  have "(n, s) \<notin> set (take ?d ?q)"
    using evict_count_aged [of "(n, s)" 0 now ?q] assms(3) by auto
  with in_q have "(n, s) \<in> set (drop ?d ?q)"
    by (metis Un_iff append_take_drop_id set_append)
  moreover have "distinct (map fst (drop ?d ?q))"
    using assms(1) by (simp add: cache_inv_def drop_map [symmetric])
  ultimately show ?thesis
    using assms(1) by (simp add: nc_stamp_def evict_expired_eq)
qed

lemma nc_stamp_seen: "cache_inv c t \<Longrightarrow> n \<in> seen c \<longleftrightarrow> nc_stamp c n \<noteq> None"
  by (simp add: cache_inv_def nc_stamp_def map_of_eq_None_iff)

lemma seen_evict: "cache_inv c t \<Longrightarrow> n \<in> seen (evict_expired now c) \<Longrightarrow> n \<in> seen c"
  by (simp add: evict_expired_eq)

lemma cache_inv_push:
  "cache_inv c t \<Longrightarrow> n \<notin> seen c \<Longrightarrow> t \<le> now \<Longrightarrow>
   cache_inv (c\<lparr>seen := insert n (seen c), expiry := expiry c @ [(n, now)]\<rparr>) now"
  by (force simp: cache_inv_def sorted_append)

interpretation nc: replay_cache nc_default nc_contains nc_commit cache_inv nc_stamp NONCE_TTL
proof
  fix c t now n m s t'
  show "cache_inv nc_default t"
    by (simp add: cache_inv_def nc_default_def)
  show "cache_inv c t'" if "cache_inv c t" "t \<le> t'"
    using that by (force simp: cache_inv_def)
  show "cache_inv (snd (nc_commit n now c)) now" if "cache_inv c t" "t \<le> now"
    using cache_inv_evict [OF that(1), of now] that(2)
    by (auto simp: nc_commit_def Let_def intro: cache_inv_push) (force simp: cache_inv_def)
  show "nc_contains c n \<longleftrightarrow> nc_stamp c n \<noteq> None" if "cache_inv c t"
    using nc_stamp_seen [OF that] by (simp add: nc_contains_def)
  show "nc_stamp (snd (nc_commit n now c)) m = Some s"
    if "cache_inv c t" "t \<le> now" "nc_stamp c m = Some s" "now - s < NONCE_TTL"
    using nc_stamp_evict [OF that(1,3,4)]
    by (simp add: nc_commit_def Let_def nc_stamp_def map_add_def)
  show "nc_stamp (snd (nc_commit n now c)) n = Some now"
    if "cache_inv c t" "t \<le> now" "fst (nc_commit n now c) = Inr ()"
    using that nc_stamp_seen [OF cache_inv_evict [OF that(1)], of n now]
    by (auto simp: nc_commit_def Let_def nc_stamp_def map_add_def split: if_splits)
  show "fst (nc_commit n now c) \<noteq> Inr ()"
    if "cache_inv c t" "t \<le> now" "nc_stamp c n = Some s" "now - s < NONCE_TTL"
    using nc_stamp_evict [OF that(1,3,4)] nc_stamp_seen [OF cache_inv_evict [OF that(1)], of n now]
    by (simp add: nc_commit_def Let_def)
  show "fst (nc_commit n now c) = Inr ()"
    if "cache_inv c t" "t \<le> now" "nc_stamp c n = None"
    using seen_evict [OF that(1), of n now] nc_stamp_seen [OF that(1), of n] that(3)
    by (auto simp: nc_commit_def Let_def)
qed

section \<open>Eviction in closed form\<close>

lemma takeWhile_aged_filter:
  "sorted (map snd q) \<Longrightarrow> takeWhile (aged now) q = filter (aged now) q"
proof (induction q)
  case Nil
  then show ?case by simp
next
  case (Cons e q)
  have "\<not> aged now x" if "\<not> aged now e" "x \<in> set q" for x
  proof -
    have "snd e \<le> snd x" using Cons.prems that(2) by simp
    with that(1) show ?thesis by linarith
  qed
  with Cons show ?case by (auto intro: filter_False [symmetric])
qed

lemma evict_count_filter:
  assumes "cache_inv c t"
  shows "evict_count 0 now (expiry c) =
    min MAX_EVICTIONS_PER_COMMIT (length (filter (aged now) (expiry c)))"
  using assms by (simp add: evict_count_def takeWhile_take takeWhile_aged_filter cache_inv_def)

lemma seen_evict_expiry: "cache_inv c t \<Longrightarrow> seen (evict_expired now c) = fst ` set (expiry (evict_expired now c))"
  using cache_inv_evict [of c t now] unfolding cache_inv_def by blast

text \<open>
  Eviction by age and in bounded batches: one commit drops exactly the oldest
  \<open>min 256 a\<close> entries, where \<open>a\<close> is the number of entries that have outlived the TTL, all of them
  aged; every younger entry survives, and the set stays in step with the queue.
\<close>

lemma evict_expired_exact:
  assumes "cache_inv c t"
  shows "expiry (evict_expired now c) =
       drop (min 256 (length (filter (\<lambda>e. from_secs 180 \<le> now - snd e) (expiry c)))) (expiry c) \<and>
     seen (evict_expired now c) = fst ` set (expiry (evict_expired now c)) \<and>
     (\<forall>e \<in> set (expiry c). now - snd e < from_secs 180 \<longrightarrow> e \<in> set (expiry (evict_expired now c)))"
proof -
  have exp: "expiry (evict_expired now c) = drop (evict_count 0 now (expiry c)) (expiry c)"
    using assms by (simp add: evict_expired_eq)
  moreover have "e \<in> set (drop (evict_count 0 now (expiry c)) (expiry c))"
    if "e \<in> set (expiry c)" "now - snd e < NONCE_TTL" for e
  proof -
    have "e \<notin> set (take (evict_count 0 now (expiry c)) (expiry c))"
      using that(2) evict_count_aged [of e 0 now "expiry c"] by auto
    with that(1) show ?thesis by (metis Un_iff append_take_drop_id set_append)
  qed
  ultimately show ?thesis
    using assms seen_evict_expiry [OF assms, of now]
    by (simp add: evict_count_filter MAX_EVICTIONS_PER_COMMIT_def NONCE_TTL_def)
qed

lemma commit_nonce_ok:
  assumes "cache_inv (v_cache v) t" "p1_nonce p \<notin> seen (v_cache v)"
    and "- 30 \<le> unix_now wall - p1_ts p" "unix_now wall - p1_ts p \<le> 90"
  shows "\<exists>v'. commit_nonce wall inst p v = (Inr (), v')"
  using assms seen_evict [OF assms(1), of "p1_nonce p" inst]
  by (auto simp: commit_nonce_def nc_contains_def check_commit_window_eq nc_commit_def Let_def)

lemma commit_err_unchanged:
  assumes "cache_inv (v_cache v) t" "verify_body_and_commit wall inst p h v = (Inl e, v')"
  shows "v' = v"
  using assms(2) seen_evict [OF assms(1), of "p1_nonce p" inst]
  by (auto simp: verify_body_and_commit_def commit_nonce_def nc_contains_def nc_commit_def Let_def
      split: body_binding.splits if_splits sum.splits)

text \<open>
  The commit, on every branch.  A nonce still in the cache is a replay, a timestamp outside the
  commit window is refused with the clock error, and in both cases the verifier is left exactly as
  it was; otherwise the nonce is recorded at the tail of the queue, after the expired batch has been
  dropped.  The cache's own check never fires after the first one, so the two never disagree.
\<close>

lemma commit_nonce_branches:
  assumes "cache_inv (v_cache v) t" "t \<le> inst"
  shows "commit_nonce wall inst p v =
     (let now = unix_now wall; c = evict_expired inst (v_cache v) in
      if p1_nonce p \<in> seen (v_cache v) then (Inl AE_NonceReplay, v)
      else if now - p1_ts p < - 30
        then (Inl (AE_TimestampDrift (min i64_max \<bar>now - p1_ts p\<bar>)), v)
      else if now - p1_ts p > 90 then (Inl (AE_CommitTooLate (min i64_max (now - p1_ts p))), v)
      else (Inr (), v\<lparr>v_cache := \<lparr>seen = insert (p1_nonce p) (seen c),
                                   expiry = expiry c @ [(p1_nonce p, inst)]\<rparr>\<rparr>))"
  using seen_evict [OF assms(1), of "p1_nonce p" inst]
  by (auto simp: commit_nonce_def nc_contains_def check_commit_window_eq nc_commit_def Let_def)

section \<open>Phase 1\<close>

lemma check_plaintext_eq_Inr:
  "check_plaintext i pt = Inr f \<longleftrightarrow>
     split_on 10 pt = [PLAINTEXT_PREFIX, utf8 (in_nonce_b64 i), utf8 (in_ts i), utf8 (in_host i),
       utf8 (in_method i), utf8 (in_path i), f]"
  (is "?L \<longleftrightarrow> split_on 10 pt = ?ps")
proof
  assume ?L
  then have "length (split_on 10 pt) = length ?ps"
    by (simp add: check_plaintext_def Let_def split: if_splits)
  then show "split_on 10 pt = ?ps"
  proof (rule nth_equalityI)
    fix k assume "k < length (split_on 10 pt)"
    moreover have "length (split_on 10 pt) = 7"
      using \<open>?L\<close> by (simp add: check_plaintext_def Let_def split: if_splits)
    ultimately have "k \<in> {0, 1, 2, 3, 4, 5, 6}" by auto
    then show "split_on 10 pt ! k = ?ps ! k"
      using \<open>?L\<close> by (auto simp: check_plaintext_def Let_def split: if_splits)
  qed
qed (simp add: check_plaintext_def)

lemma verify_headers_eq_Inr:
  "verify_headers K wall v i = Inr p \<longleftrightarrow>
     parse_i64 (in_ts i) = Some (p1_ts p) \<and> \<bar>unix_now wall - p1_ts p\<bar> \<le> 30 \<and>
     b64_decode K (in_nonce_b64 i) = Some (p1_nonce p) \<and> length (p1_nonce p) = 16 \<and>
     \<not> nc_contains (v_cache v) (p1_nonce p) \<and>
     (\<exists>pt f. decrypt_token K (private_key v) (in_token_b64 i) = Inr pt \<and>
       split_on 10 pt = [PLAINTEXT_PREFIX, utf8 (in_nonce_b64 i), utf8 (in_ts i), utf8 (in_host i),
         utf8 (in_method i), utf8 (in_path i), f] \<and>
       parse_body_binding f = Inr (p1_body_binding p))"
  by (cases p)
    (auto simp: verify_headers_def decode_nonce_def result_simps check_drift_eq
      check_plaintext_eq_Inr NONCE_LEN_def)

lemma verify_headers_token:
  assumes "verify_headers K w v i = Inr p" "verify_headers K w' v' i' = Inr p'"
    and "in_token_b64 i = in_token_b64 i'" "private_key v = private_key v'"
    and "\<forall>c \<in> set (in_nonce_b64 i). is_ascii c" "\<forall>c \<in> set (in_nonce_b64 i'). is_ascii c"
  shows "p = p'"
proof -
  from assms(1) obtain pt f where 1: "decrypt_token K (private_key v) (in_token_b64 i) = Inr pt"
    "split_on 10 pt = [PLAINTEXT_PREFIX, utf8 (in_nonce_b64 i), utf8 (in_ts i), utf8 (in_host i),
       utf8 (in_method i), utf8 (in_path i), f]" "parse_body_binding f = Inr (p1_body_binding p)"
    by (auto simp: verify_headers_eq_Inr)
  from assms(2) obtain pt' f' where 2:
    "decrypt_token K (private_key v') (in_token_b64 i') = Inr pt'"
    "split_on 10 pt' = [PLAINTEXT_PREFIX, utf8 (in_nonce_b64 i'), utf8 (in_ts i'), utf8 (in_host i'),
       utf8 (in_method i'), utf8 (in_path i'), f']" "parse_body_binding f' = Inr (p1_body_binding p')"
    by (auto simp: verify_headers_eq_Inr)
  from 1 2 assms(3,4) have eqs: "utf8 (in_nonce_b64 i) = utf8 (in_nonce_b64 i')"
    "utf8 (in_ts i) = utf8 (in_ts i')" "p1_body_binding p = p1_body_binding p'"
    by auto
  have ascii: "\<forall>c \<in> set (in_ts i). is_ascii c" "\<forall>c \<in> set (in_ts i'). is_ascii c"
    using assms(1,2) by (auto simp: verify_headers_eq_Inr parse_i64_def dest: parse_int_ascii)
  from eqs(1) assms(5,6) have "in_nonce_b64 i = in_nonce_b64 i'" by (rule utf8_ascii_inj)
  moreover from eqs(2) ascii have "in_ts i = in_ts i'" by (rule utf8_ascii_inj)
  ultimately show ?thesis
    using assms(1,2) eqs(3) by (auto simp: verify_headers_eq_Inr)
qed

section \<open>The commit\<close>

lemma commit_nonce_eq_Inr:
  "commit_nonce wall inst p v = (Inr u, v') \<longleftrightarrow>
     \<not> nc_contains (v_cache v) (p1_nonce p) \<and>
     - 30 \<le> unix_now wall - p1_ts p \<and> unix_now wall - p1_ts p \<le> 90 \<and>
     fst (nc_commit (p1_nonce p) inst (v_cache v)) = Inr () \<and>
     v' = v\<lparr>v_cache := snd (nc_commit (p1_nonce p) inst (v_cache v))\<rparr>"
  by (cases "nc_commit (p1_nonce p) inst (v_cache v)")
    (auto simp: commit_nonce_def check_commit_window_eq)

lemma verify_body_and_commit_eq_Inr:
  "verify_body_and_commit wall inst p h v = (Inr u, v') \<longleftrightarrow>
     (\<forall>expected. p1_body_binding p = Hash expected \<longrightarrow> expected = h) \<and>
     commit_nonce wall inst p v = (Inr u, v')"
  by (auto simp: verify_body_and_commit_def split: body_binding.splits)

lemma commit_nonce_cache:
  "commit_nonce wall inst p v = (r, v') \<Longrightarrow>
   v' = v \<or> v' = v\<lparr>v_cache := snd (nc_commit (p1_nonce p) inst (v_cache v))\<rparr>"
  by (cases "nc_commit (p1_nonce p) inst (v_cache v)")
    (auto simp: commit_nonce_def split: if_splits sum.splits)

lemma verify_body_and_commit_cache:
  "verify_body_and_commit wall inst p h v = (r, v') \<Longrightarrow>
   v' = v \<or> v' = v\<lparr>v_cache := snd (nc_commit (p1_nonce p) inst (v_cache v))\<rparr>"
  by (auto simp: verify_body_and_commit_def split: if_splits body_binding.splits
      dest: commit_nonce_cache)

section \<open>Tokens minted by the client\<close>

definition plain_field :: "ustring \<Rightarrow> bool" where
  "plain_field s \<longleftrightarrow> (\<forall>c \<in> set s. is_scalar c \<and> c \<noteq> 10)"

lemma newline_free_utf8: "plain_field s \<Longrightarrow> 10 \<notin> set (utf8 s)"
  using ascii_in_utf8 [of s 10] by (auto simp: plain_field_def)

lemma utf8_newline: "utf8 [10] = [10]"
  by (simp add: utf8_def utf8_char_def utf8_units_def)

lemma utf8_join: "utf8 (join [10] ps) = join [10] (map utf8 ps)"
  by (induction "[10 :: nat]" ps rule: join.induct) (simp_all add: utf8_newline utf8_Cons utf8_char_def utf8_units_def)

lemma plain_field_prefix: "plain_field (str ''denbrowser-attest:v2'')"
  by (simp add: plain_field_def str_def)

text \<open>A token is the ephemeral point, the IV and the ciphertext; whoever sealed it, it opens like this.\<close>

lemma decrypt_token_sealed:
  assumes "b64_decode K tok = Some (ep @ iv @ ct)" "length ep = 65" "length iv = 12" "17 \<le> length ct"
    and "from_sec1_bytes K ep = Some P" "aes128_gcm_decrypt K (derive_key K sk P) iv ct = Some pt"
  shows "decrypt_token K sk tok = Inr pt"
  using assms by (simp add: decrypt_token_def Let_def TOKEN_MIN_LEN_def)

lemma length_plaintext: "20 \<le> length (utf8 (join [10] (str ''denbrowser-attest:v2'' # f # fs)))"
  by (simp add: utf8_ascii str_def utf8_Cons utf8_char_def utf8_units_def)

lemma decrypt_token_minted:
  assumes "crypto_laws K"
  shows "decrypt_token K sk (make_token_with_body_field K e (public_key K sk) n t h m p f) =
    Inr (utf8 (join [10] [str ''denbrowser-attest:v2'', n, t, h, m, p, f]))"
    (is "_ = Inr ?pt")
proof -
  let ?ep = "to_encoded_point K (public_key K e)"
  let ?ct = "aes128_gcm_encrypt K (derive_key K sk (public_key K e)) (replicate 12 0) ?pt"
  have "derive_key K e (public_key K sk) = derive_key K sk (public_key K e)"
    using assms by (simp add: derive_key_def crypto_laws_def)
  then have tok: "make_token_with_body_field K e (public_key K sk) n t h m p f =
      b64_encode K (?ep @ replicate 12 0 @ ?ct)"
    by (simp add: make_token_with_body_field_def Let_def derive_key_def)
  have len: "length ?ct = length ?pt + 16" using assms by (simp add: crypto_laws_def)
  have "17 \<le> length ?ct" unfolding len using length_plaintext [of n "[t, h, m, p, f]"] by linarith
  moreover have "aes128_gcm_decrypt K (derive_key K sk (public_key K e)) (replicate 12 0) ?ct = Some ?pt"
    "from_sec1_bytes K ?ep = Some (public_key K e)" "length ?ep = 65"
    "b64_decode K (b64_encode K (?ep @ replicate 12 0 @ ?ct)) = Some (?ep @ replicate 12 0 @ ?ct)"
    using assms by (simp_all add: crypto_laws_def derive_key_def)
  ultimately show ?thesis unfolding tok by (intro decrypt_token_sealed) simp_all
qed

section \<open>The body-hash field\<close>

lemma chunks2_concat_pairs: "\<forall>p \<in> set ps. length p = 2 \<Longrightarrow> chunks2 (concat ps) = ps"
proof (induction ps)
  case Nil
  then show ?case by simp
next
  case (Cons p ps)
  then obtain a b where "p = [a, b]" by (auto simp: length_Suc_conv numeral_2_eq_2)
  with Cons show ?case by simp
qed

lemma hex_lower_ascii: "c \<in> set (hex_lower b) \<Longrightarrow> is_ascii c \<and> c \<noteq> 10"
  using unat_byte_less [of b] by (auto simp: hex_lower_def digit_char_def split: if_splits)

lemma utf8_hex_lower: "utf8 (hex_lower b) = map of_nat (hex_lower b)"
  using hex_lower_ascii by (blast intro: utf8_ascii)

lemma parse_hash_pair_hex: "parse_hash_pair (utf8 (hex_lower b)) = Inr b"
  using hex_lower_ascii
  by (simp add: parse_hash_pair_def utf8_hex_lower from_utf8_ascii u8_from_hex_hex_lower)

lemma mapM_hex: "mapM parse_hash_pair (map (\<lambda>b. utf8 (hex_lower b)) bs) = Inr bs"
  by (induction bs) (simp_all add: parse_hash_pair_hex)

lemma length_utf8_hex: "length (utf8 (hex_lower b)) = 2"
  by (subst utf8_hex_lower) (simp add: hex_lower_def)

lemma parse_body_binding_hex:
  assumes "length bs = 32"
  shows "parse_body_binding (utf8 (concat (map hex_lower bs))) = Inr (Hash bs)"
proof -
  let ?ps = "map (\<lambda>b. utf8 (hex_lower b)) bs"
  have field: "utf8 (concat (map hex_lower bs)) = concat ?ps"
    by (simp add: utf8_concat comp_def)
  have "length (concat ?ps) = 64"
    using assms by (simp add: length_concat comp_def length_utf8_hex sum_list_triv)
  moreover have "length UNBOUND_SENTINEL = 7"
    by (simp add: UNBOUND_SENTINEL_def utf8_ascii str_def)
  moreover have "chunks2 (concat ?ps) = ?ps"
    by (rule chunks2_concat_pairs) (simp add: length_utf8_hex)
  ultimately show ?thesis
    by (auto simp: parse_body_binding_def field HEX_HASH_LEN_def mapM_hex)
qed

lemma parse_body_binding_unbound: "parse_body_binding (utf8 (str ''unbound'')) = Inr Unbound"
  by (simp add: parse_body_binding_def UNBOUND_SENTINEL_def)

lemma plain_field_hex: "plain_field (concat (map hex_lower bs))"
  using hex_lower_ascii by (fastforce simp: plain_field_def)

section \<open>Minted tokens\<close>

lemma split_minted:
  assumes "plain_field n" "plain_field t" "plain_field h" "plain_field m" "plain_field p" "plain_field f"
  shows "split_on 10 (utf8 (join [10] [str ''denbrowser-attest:v2'', n, t, h, m, p, f])) =
    [PLAINTEXT_PREFIX, utf8 n, utf8 t, utf8 h, utf8 m, utf8 p, utf8 f]"
  unfolding utf8_join
  using assms plain_field_prefix
  by (subst split_on_join) (auto simp: newline_free_utf8 PLAINTEXT_PREFIX_def)

lemma minted_field_accepted:
  assumes "crypto_laws K" "private_key v = sk"
    and "plain_field n" "plain_field t" "plain_field h" "plain_field m" "plain_field p" "plain_field f"
    and "parse_i64 t = Some ts" "\<bar>unix_now wall - ts\<bar> \<le> 30"
    and "b64_decode K n = Some nonce" "length nonce = 16" "\<not> nc_contains (v_cache v) nonce"
    and "parse_body_binding (utf8 f) = Inr b"
  shows "verify_headers K wall v
     \<lparr>in_ts = t, in_nonce_b64 = n,
      in_token_b64 = make_token_with_body_field K e (public_key K sk) n t h m p f,
      in_host = h, in_method = m, in_path = p\<rparr> =
     Inr \<lparr>p1_nonce = nonce, p1_body_binding = b, p1_ts = ts\<rparr>"
  using assms decrypt_token_minted [OF assms(1), of sk e n t h m p f] split_minted [of n t h m p f]
  by (simp add: verify_headers_eq_Inr)

text \<open>
  A token minted by the client's \<^verbatim>\<open>make_token\<close> for this proxy's key passes phase 1 on the
  request it was minted for, inside the timestamp window and with a fresh nonce: a bound one yields
  the hash of the body, an unbound one the unbound binding.
\<close>

lemma minted_token_accepted:
  assumes "crypto_laws K" "private_key v = sk"
    and "plain_field n" "plain_field t" "plain_field h" "plain_field m" "plain_field p"
    and "parse_i64 t = Some ts" "\<bar>unix_now wall - ts\<bar> \<le> 30"
    and "b64_decode K n = Some nonce" "length nonce = 16" "\<not> nc_contains (v_cache v) nonce"
  shows "verify_headers K wall v
       \<lparr>in_ts = t, in_nonce_b64 = n, in_token_b64 = make_token K e (public_key K sk) n t h m p body,
        in_host = h, in_method = m, in_path = p\<rparr> =
       Inr \<lparr>p1_nonce = nonce, p1_body_binding = Hash (sha256 K body), p1_ts = ts\<rparr> \<and>
     verify_headers K wall v
       \<lparr>in_ts = t, in_nonce_b64 = n, in_token_b64 =
          make_token_with_body_field K e (public_key K sk) n t h m p (str ''unbound''),
        in_host = h, in_method = m, in_path = p\<rparr> =
       Inr \<lparr>p1_nonce = nonce, p1_body_binding = Unbound, p1_ts = ts\<rparr>"
proof -
  have "length (sha256 K body) = 32" using assms(1) by (simp add: crypto_laws_def)
  moreover have "plain_field (str ''unbound'')" by (simp add: plain_field_def str_def)
  ultimately show ?thesis
    using assms unfolding make_token_def sha256_hex_def
    by (intro conjI minted_field_accepted)
      (simp_all add: parse_body_binding_hex parse_body_binding_unbound plain_field_hex)
qed

text \<open>
  C13. Conversely a minted token is tied to the request it was minted for: if it passes phase 1 at
  all, the nonce, timestamp, host, method and path it is presented with are, byte for byte, the ones
  it was minted with, and phase 2 will compare the body with the body it was minted with.
\<close>

theorem minted_token_bound:
  assumes "crypto_laws K" "private_key v = sk"
    and "plain_field n" "plain_field t" "plain_field h" "plain_field m" "plain_field p"
    and "in_token_b64 i = make_token K e (public_key K sk) n t h m p body"
    and "verify_headers K wall v i = Inr p1"
  shows "utf8 (in_nonce_b64 i) = utf8 n \<and> utf8 (in_ts i) = utf8 t \<and> utf8 (in_host i) = utf8 h \<and>
     utf8 (in_method i) = utf8 m \<and> utf8 (in_path i) = utf8 p \<and>
     p1_body_binding p1 = Hash (sha256 K body)"
proof -
  have len: "length (sha256 K body) = 32" using assms(1) by (simp add: crypto_laws_def)
  have "decrypt_token K (private_key v) (in_token_b64 i) =
      Inr (utf8 (join [10] [str ''denbrowser-attest:v2'', n, t, h, m, p, sha256_hex K body]))"
    using assms(1,2,8) by (simp add: make_token_def decrypt_token_minted)
  moreover have "split_on 10
        (utf8 (join [10] [str ''denbrowser-attest:v2'', n, t, h, m, p, sha256_hex K body])) =
      [PLAINTEXT_PREFIX, utf8 n, utf8 t, utf8 h, utf8 m, utf8 p, utf8 (sha256_hex K body)]"
    using assms by (intro split_minted) (simp_all add: sha256_hex_def plain_field_hex)
  ultimately show ?thesis
    using assms(9) parse_body_binding_hex [OF len]
    by (auto simp: verify_headers_eq_Inr sha256_hex_def)
qed

end
