(* ===== verification/Features.thy ===== *)
theory Features
  imports Prelude
begin

text \<open>
  The contract every switchable feature of the proxy has (\<^verbatim>\<open>RateLimiter::from_config\<close>,
  \<^verbatim>\<open>Mtls::from_config\<close>, \<^verbatim>\<open>MachineIdentity::from_config\<close>, \<^verbatim>\<open>passthrough::from_config\<close>): switched off
  it builds nothing, switched on it builds a valid value or stops startup with an error, and it is
  never silently absent.  Each component interprets the locale on its own \<open>from_config\<close>; startup
  uses the facts.
\<close>

locale optional_feature =
  fixes enabled :: "'cfg \<Rightarrow> bool"
    and build :: "'cfg \<Rightarrow> 'err + 'a option"
    and valid :: "'cfg \<Rightarrow> 'a \<Rightarrow> bool"
  assumes off: "\<not> enabled cfg \<Longrightarrow> build cfg = Inr None"
    and on: "enabled cfg \<Longrightarrow> build cfg = Inr r \<Longrightarrow> \<exists>a. r = Some a \<and> valid cfg a"
begin

lemma present_iff_enabled: "build cfg = Inr r \<Longrightarrow> r \<noteq> None \<longleftrightarrow> enabled cfg"
  using off [of cfg] on [of cfg r] by (cases "enabled cfg") auto

lemma built_valid: "build cfg = Inr (Some a) \<Longrightarrow> enabled cfg \<and> valid cfg a"
  using off [of cfg] on [of cfg "Some a"] by (cases "enabled cfg") auto

lemma error_only_if_enabled: "build cfg = Inl e \<Longrightarrow> enabled cfg"
  using off [of cfg] by auto

end

section \<open>Patterns\<close>

text \<open>
  The \<^verbatim>\<open>globset\<close> package: compile a pattern or fail with a message, and match a compiled one.  Rate
  limiting and machine identity both use it.  \<open>literal_globs\<close>, the patterns without wildcards, is the
  instance the examples use.
\<close>

record 'g glob_ops =
  glob_new :: "ustring \<Rightarrow> ustring + 'g"
  glob_is_match :: "'g \<Rightarrow> ustring \<Rightarrow> bool"

definition literal_globs :: "ustring glob_ops" where
  "literal_globs = \<lparr>glob_new = Inr, glob_is_match = (=)\<rparr>"

end
