(* ===== verification/Mtls.thy ===== *)
theory Mtls
  imports Features
begin

text \<open>
  Baseline mutual TLS (\<^verbatim>\<open>src/proxy/src/mtls.rs\<close>): the identity of a verified client certificate
  (\<open>client_cert\<close>), how it is read from a certificate, its match against an allowlist, the RFC 4514
  rendering of a subject name, and the \<^verbatim>\<open>[mtls]\<close> settings.

  OpenSSL's certificate is seen through the accessors the code calls: the subject's entries in
  order (short name unless the type is unknown, dotted OID, whether it is the Common Name, the value
  as OpenSSL's UTF-8 conversion gives it, and the raw value) and the names of the SubjectAltName
  extension, each with its DNS name if it is one.
\<close>

section \<open>Data\<close>

record x509_entry =
  xe_short_name :: "ustring option"
  xe_oid :: ustring
  xe_is_cn :: bool
  xe_utf8 :: "ustring option"
  xe_raw :: "byte list"

record x509_cert =
  xc_subject :: "x509_entry list"
  xc_san :: "(ustring option) list option"

record client_cert =
  cc_subject_dn :: ustring
  cc_common_name :: "ustring option"
  cc_san_dns :: "ustring list"

record mtls_config =
  mtls_enabled :: bool
  mtls_client_ca :: ustring

record 'ca mtls =
  mtls_ca_path :: ustring
  mtls_ca_certs :: "'ca list"

datatype mtls_error =
    MtlsCaNotSet
  | MtlsCaUnreadable ustring ustring
  | MtlsCaUnparseable ustring ustring
  | MtlsCaEmpty ustring

section \<open>Identity of a certificate\<close>

text \<open>\<^verbatim>\<open>ClientCert::matched\<close>.\<close>

definition matched :: "client_cert \<Rightarrow> ustring list \<Rightarrow> ustring option" where
  "matched c allowed =
     (case cc_common_name c of
        Some cn \<Rightarrow> if cn \<in> set allowed then Some cn
                   else find (\<lambda>san. san \<in> set allowed) (cc_san_dns c)
      | None \<Rightarrow> find (\<lambda>san. san \<in> set allowed) (cc_san_dns c))"

text \<open>\<^verbatim>\<open>escape_dn_value\<close>: \<open>i\<close> is the position of the character, \<open>last\<close> the last position.\<close>

definition dn_special :: "uchar \<Rightarrow> bool" where
  "dn_special c \<longleftrightarrow> c \<in> {34, 43, 44, 59, 60, 62, 92}"

definition escape_dn_char :: "nat \<Rightarrow> nat \<Rightarrow> uchar \<Rightarrow> ustring" where
  "escape_dn_char lst i c =
     (if dn_special c then [92, c]
      else if c = 35 \<and> i = 0 then [92, 35]
      else if c = 32 \<and> (i = 0 \<or> i = lst) then [92, 32]
      else if is_control c then concat (map (\<lambda>b. 92 # hex_upper b) (utf8_char c))
      else [c])"

fun escape_dn_from :: "nat \<Rightarrow> nat \<Rightarrow> ustring \<Rightarrow> ustring" where
  "escape_dn_from lst i [] = []"
| "escape_dn_from lst i (c # cs) = escape_dn_char lst i c @ escape_dn_from lst (Suc i) cs"

definition escape_dn_value :: "ustring \<Rightarrow> ustring" where
  "escape_dn_value v = escape_dn_from (length v - 1) 0 v"

definition entry_value :: "x509_entry \<Rightarrow> ustring" where
  "entry_value e = (case xe_utf8 e of Some s \<Rightarrow> s | None \<Rightarrow> from_utf8_lossy (xe_raw e))"

definition entry_type :: "x509_entry \<Rightarrow> ustring" where
  "entry_type e = (case xe_short_name e of Some s \<Rightarrow> s | None \<Rightarrow> xe_oid e)"

definition render_rdn :: "x509_entry \<Rightarrow> ustring" where
  "render_rdn e = entry_type e @ [61] @ escape_dn_value (entry_value e)"

definition distinguished_name :: "x509_entry list \<Rightarrow> ustring" where
  "distinguished_name entries = join [44] (map render_rdn (rev entries))"

definition from_cert :: "x509_cert \<Rightarrow> client_cert" where
  "from_cert cert =
     \<lparr>cc_subject_dn = distinguished_name (xc_subject cert),
      cc_common_name = (case find xe_is_cn (xc_subject cert) of
                          None \<Rightarrow> None | Some e \<Rightarrow> xe_utf8 e),
      cc_san_dns = (case xc_san cert of
                      None \<Rightarrow> []
                    | Some names \<Rightarrow> map the (filter (\<lambda>n. n \<noteq> None) names))\<rparr>"

text \<open>
  \<^verbatim>\<open>Recorder::handshake_complete_callback\<close>: the peer certificate, if any, becomes the identity the
  request path reads.
\<close>

definition handshake_complete :: "x509_cert option \<Rightarrow> client_cert option" where
  "handshake_complete peer = map_option from_cert peer"

section \<open>Settings\<close>

definition mtls_from_config ::
  "(ustring \<Rightarrow> ustring + byte list) \<Rightarrow> (byte list \<Rightarrow> ustring + 'ca list) \<Rightarrow> mtls_config
   \<Rightarrow> mtls_error + 'ca mtls option" where
  "mtls_from_config read_file stack_from_pem cfg =
     (if \<not> mtls_enabled cfg then Inr None
      else
        rbind (ensure (mtls_client_ca cfg \<noteq> []) MtlsCaNotSet) (\<lambda>_.
        rbind (map_err (MtlsCaUnreadable (mtls_client_ca cfg)) (read_file (mtls_client_ca cfg))) (\<lambda>pem.
        rbind (map_err (MtlsCaUnparseable (mtls_client_ca cfg)) (stack_from_pem pem)) (\<lambda>cas.
        rbind (ensure (cas \<noteq> []) (MtlsCaEmpty (mtls_client_ca cfg))) (\<lambda>_.
        Inr (Some \<lparr>mtls_ca_path = mtls_client_ca cfg, mtls_ca_certs = cas\<rparr>))))))"

interpretation mtls_feature: optional_feature mtls_enabled "mtls_from_config rd st"
  "\<lambda>cfg m. mtls_ca_path m = mtls_client_ca cfg \<and> mtls_ca_path m \<noteq> [] \<and> mtls_ca_certs m \<noteq> []"
  for rd :: "ustring \<Rightarrow> ustring + byte list" and st :: "byte list \<Rightarrow> ustring + 'ca list"
  by unfold_locales (auto simp: mtls_from_config_def result_simps)

section \<open>Matching\<close>

lemma find_member_cases:
  "find P xs = None \<longleftrightarrow> (\<forall>x \<in> set xs. \<not> P x)" "find P xs = Some x \<Longrightarrow> x \<in> set xs \<and> P x"
  by (auto simp: find_None_iff find_Some_iff)

text \<open>
  The allowlist match: a name is returned exactly when the Common Name or some SubjectAltName
  DNS entry is listed; what is returned is a listed name of this certificate, and the Common Name
  wins when it is listed.
\<close>

lemma matched_spec:
  "(matched c allowed = None \<longleftrightarrow>
      (\<forall>n \<in> set_option (cc_common_name c) \<union> set (cc_san_dns c). n \<notin> set allowed)) \<and>
   (\<forall>s. matched c allowed = Some s \<longrightarrow>
      s \<in> set allowed \<and> s \<in> set_option (cc_common_name c) \<union> set (cc_san_dns c)) \<and>
   (\<forall>cn. cc_common_name c = Some cn \<and> cn \<in> set allowed \<longrightarrow> matched c allowed = Some cn)"
  by (auto simp: matched_def find_member_cases(1) split: option.splits dest: find_member_cases(2))

section \<open>Reading a rendered name back\<close>

text \<open>
  A reference reader for RFC 4514 strings: split at the commas that no backslash escapes, each part
  at its first equals sign, and undo the escapes, which gives the bytes of the value.
\<close>

fun split_unescaped :: "ustring \<Rightarrow> ustring list" where
  "split_unescaped [] = [[]]"
| "split_unescaped (a # r) =
     (if a = 92 then
        (case r of
           [] \<Rightarrow> [[92]]
         | c # r' \<Rightarrow> (case split_unescaped r' of [] \<Rightarrow> [[92, c]] | p # ps \<Rightarrow> (92 # c # p) # ps))
      else if a = 44 then [] # split_unescaped r
      else (case split_unescaped r of [] \<Rightarrow> [[a]] | p # ps \<Rightarrow> (a # p) # ps))"

fun unescape_dn :: "ustring \<Rightarrow> byte list option" where
  "unescape_dn [] = Some []"
| "unescape_dn (a # r) =
     (if a \<noteq> 92 then map_option ((@) (utf8_char a)) (unescape_dn r)
      else (case r of
              [] \<Rightarrow> None
            | c # r' \<Rightarrow>
                if dn_special c \<or> c = 35 \<or> c = 32 then map_option ((@) (utf8_char c)) (unescape_dn r')
                else (case r' of
                        [] \<Rightarrow> None
                      | d # r'' \<Rightarrow>
                          (case (to_digit 16 c, to_digit 16 d) of
                             (Some x, Some y) \<Rightarrow>
                               map_option ((#) (of_nat (x * 16 + y))) (unescape_dn r'')
                           | _ \<Rightarrow> None))))"

definition parse_rdn :: "ustring \<Rightarrow> (ustring \<times> byte list) option" where
  "parse_rdn s =
     (case dropWhile (\<lambda>c. c \<noteq> 61) s of
        [] \<Rightarrow> None
      | _ # v \<Rightarrow> map_option (Pair (takeWhile (\<lambda>c. c \<noteq> 61) s)) (unescape_dn v))"

definition parse_dn :: "ustring \<Rightarrow> (ustring \<times> byte list) list option" where
  "parse_dn s = those (map parse_rdn (split_unescaped s))"

definition shut :: "ustring \<Rightarrow> bool" where
  "shut s \<longleftrightarrow> (\<forall>r p ps. split_unescaped r = p # ps \<longrightarrow> split_unescaped (s @ r) = (s @ p) # ps)"

lemma shut_Nil: "shut []"
  by (simp add: shut_def)

lemma shut_append: "shut s \<Longrightarrow> shut t \<Longrightarrow> shut (s @ t)"
  by (simp add: shut_def)

lemma shut_char: "c \<noteq> 44 \<Longrightarrow> c \<noteq> 92 \<Longrightarrow> shut [c]"
  by (simp add: shut_def)

lemma shut_escaped: "shut [92, c]"
  by (simp add: shut_def)

lemma shut_plain: "44 \<notin> set s \<Longrightarrow> 92 \<notin> set s \<Longrightarrow> shut s"
proof (induction s)
  case Nil
  show ?case by (rule shut_Nil)
next
  case (Cons c s)
  then show ?case using shut_append [OF shut_char [of c], of s] by simp
qed

lemma digit_char_upper_range:
  "d < 16 \<Longrightarrow> 48 \<le> digit_char_upper d \<and> digit_char_upper d \<le> 57 \<or>
   65 \<le> digit_char_upper d \<and> digit_char_upper d \<le> 70"
  by (simp add: digit_char_upper_def)

lemma to_digit_upper: "d < 16 \<Longrightarrow> to_digit 16 (digit_char_upper d) = Some d"
  by (auto simp: to_digit_def digit_char_upper_def is_digit_def)

lemma shut_hex: "shut (92 # hex_upper b)"
proof -
  have "unat b mod 16 < 16" by simp
  from digit_char_upper_range [OF this] have "shut [digit_char_upper (unat b mod 16)]"
    by (intro shut_char) auto
  from shut_append [OF shut_escaped this] show ?thesis by (simp add: hex_upper_def)
qed

lemma shut_escape_char: "shut (escape_dn_char lst i c)"
proof -
  have hex: "shut (concat (map (\<lambda>b. 92 # hex_upper b) bs))" for bs
    by (induction bs) (simp_all add: shut_Nil shut_append [OF shut_hex, simplified])
  show ?thesis
    using hex shut_escaped shut_char [of c] by (auto simp: escape_dn_char_def dn_special_def)
qed

lemma shut_escape: "shut (escape_dn_value v)"
proof -
  have "shut (escape_dn_from lst i v)" for lst i
    by (induction v arbitrary: i) (simp_all add: shut_Nil shut_append shut_escape_char)
  then show ?thesis by (simp add: escape_dn_value_def)
qed

lemma split_unescaped_join:
  "ps \<noteq> [] \<Longrightarrow> \<forall>p \<in> set ps. shut p \<Longrightarrow> split_unescaped (join [44] ps) = ps"
proof (induction "[44 :: nat]" ps rule: join.induct)
  case (2 p)
  then show ?case unfolding shut_def by (metis append_Nil2 join.simps(2) list.set_intros(1) split_unescaped.simps(1))
next
  case (3 p q ps)
  then have "split_unescaped (44 # join [44] (q # ps)) = [] # q # ps" by simp
  with 3 show ?case by (auto simp: shut_def)
qed simp

lemma unescape_hex: "unescape_dn (92 # hex_upper b @ r) = map_option ((#) b) (unescape_dn r)"
proof -
  have "unat b < 256" by (rule unat_byte_less)
  then have d: "unat b div 16 < 16" "unat b mod 16 < 16" by simp_all
  have "\<not> dn_special (digit_char_upper (unat b div 16))" "digit_char_upper (unat b div 16) \<noteq> 35"
    "digit_char_upper (unat b div 16) \<noteq> 32"
    using digit_char_upper_range [OF d(1)] by (auto simp: dn_special_def)
  moreover have "(of_nat (unat b div 16 * 16 + unat b mod 16) :: byte) = b"
    unfolding div_mult_mod_eq by simp
  ultimately show ?thesis
    by (simp add: hex_upper_def to_digit_upper d del: of_nat_add of_nat_mult)
qed

lemma unescape_hex_bytes:
  "unescape_dn (concat (map (\<lambda>b. 92 # hex_upper b) bs) @ r) = map_option ((@) bs) (unescape_dn r)"
  by (induction bs) (simp_all add: unescape_hex option.map_comp comp_def option.map_ident
      del: unescape_dn.simps(2))

lemma unescape_escape_char:
  "unescape_dn (escape_dn_char lst i c @ r) = map_option ((@) (utf8_char c)) (unescape_dn r)"
  using unescape_hex_bytes [of "utf8_char c" r]
  by (auto simp: escape_dn_char_def dn_special_def)

lemma unescape_escape: "unescape_dn (escape_dn_value v) = Some (utf8 v)"
proof -
  have "unescape_dn (escape_dn_from lst i v) = Some (utf8 v)" for lst i
    by (induction v arbitrary: i) (simp_all add: unescape_escape_char utf8_Cons)
  then show ?thesis by (simp add: escape_dn_value_def)
qed

definition plain_type :: "x509_entry \<Rightarrow> bool" where
  "plain_type e \<longleftrightarrow> (\<forall>c \<in> {44, 61, 92}. c \<notin> set (entry_type e))"

lemma parse_render_rdn:
  assumes "plain_type e"
  shows "parse_rdn (render_rdn e) = Some (entry_type e, utf8 (entry_value e))"
proof -
  have "\<forall>c \<in> set (entry_type e). c \<noteq> 61" using assms by (auto simp: plain_type_def)
  then show ?thesis
    by (simp add: parse_rdn_def render_rdn_def dropWhile_append takeWhile_append unescape_escape)
qed

lemma shut_rdn: "plain_type e \<Longrightarrow> shut (render_rdn e)"
  unfolding render_rdn_def
  by (intro shut_append shut_plain shut_escape) (simp_all add: plain_type_def)

lemma those_map_Some: "\<forall>x \<in> set xs. f x = Some (g x) \<Longrightarrow> those (map f xs) = Some (map g xs)"
  by (induction xs) simp_all

text \<open>
  C19. A subject name cannot be forged by what its values contain: reading the rendered name back
  gives exactly the certificate's entries, most specific first, each with its own attribute type
  and its value byte for byte, whatever commas, equals signs, quotes, control characters or
  non-ASCII text the values hold.
\<close>

theorem distinguished_name_roundtrip:
  assumes "es \<noteq> []" "\<forall>e \<in> set es. plain_type e"
  shows "parse_dn (distinguished_name es) =
    Some (map (\<lambda>e. (entry_type e, utf8 (entry_value e))) (rev es))"
proof -
  have "split_unescaped (distinguished_name es) = map render_rdn (rev es)"
    unfolding distinguished_name_def
    using assms by (intro split_unescaped_join) (auto intro: shut_rdn)
  then show ?thesis
    using assms(2) by (simp add: parse_dn_def parse_render_rdn those_map_Some)
qed

abbreviation demo_entry :: "string \<Rightarrow> string \<Rightarrow> x509_entry" where
  "demo_entry t v \<equiv> \<lparr>xe_short_name = Some (str t), xe_oid = [], xe_is_cn = False,
     xe_utf8 = Some (str v), xe_raw = []\<rparr>"

theorem distinguished_name_roundtrip_witness:
  "parse_dn (distinguished_name [demo_entry ''O'' ''a,CN=root'', demo_entry ''CN'' ''ws'']) =
     Some [(str ''CN'', utf8 (str ''ws'')), (str ''O'', utf8 (str ''a,CN=root''))]"
  using distinguished_name_roundtrip [of "[demo_entry ''O'' ''a,CN=root'', demo_entry ''CN'' ''ws'']"]
  by (simp add: plain_type_def entry_type_def entry_value_def str_def)

lemma escape_char_no_control: "d \<in> set (escape_dn_char lst i c) \<Longrightarrow> \<not> is_control d"
proof -
  have hex: "\<not> is_control d" if "d \<in> set (hex_upper b)" for b d
  proof -
    have "unat b div 16 < 16" "unat b mod 16 < 16" using unat_byte_less [of b] by simp_all
    from this [THEN digit_char_upper_range] that show ?thesis
      by (auto simp: hex_upper_def is_control_def)
  qed
  assume "d \<in> set (escape_dn_char lst i c)"
  then show ?thesis
    by (auto simp: escape_dn_char_def dn_special_def split: if_splits dest: hex)
      (auto simp: is_control_def)
qed

lemma escape_no_control: "d \<in> set (escape_dn_value v) \<Longrightarrow> \<not> is_control d"
proof -
  have "\<not> is_control d" if "d \<in> set (escape_dn_from lst i v)" for lst i
    using that by (induction v arbitrary: i) (auto dest: escape_char_no_control)
  then show "d \<in> set (escape_dn_value v) \<Longrightarrow> \<not> is_control d" by (simp add: escape_dn_value_def)
qed

text \<open>
  No line break can be smuggled through a subject name: the rendering contains no control
  character at all (the attribute types are OpenSSL's short names and dotted numbers).
\<close>

lemma distinguished_name_no_control:
  assumes "\<forall>e \<in> set es. \<forall>c \<in> set (entry_type e). \<not> is_control c" "d \<in> set (distinguished_name es)"
  shows "\<not> is_control d"
proof -
  from assms(2) consider "d = 44" | e where "e \<in> set es" "d \<in> set (render_rdn e)"
    using set_join [of "[44]" "map render_rdn (rev es)"] by (auto simp: distinguished_name_def)
  then show ?thesis
    using assms(1) escape_no_control
    by cases (auto simp: render_rdn_def is_control_def)
qed

end
