(* ===== verification/Machine.thy ===== *)
theory Machine
  imports Mtls Reasons
begin

text \<open>
  Machine identity (\<^verbatim>\<open>src/proxy/src/machine.rs\<close>): the certificate check, the forward-DNS check and the
  cache of resolver answers.

  OpenSSL, base64 and the glob patterns are packages, so they are parameters (\<open>openssl_ops\<close>,
  \<open>glob_ops\<close>).  The resolver's answer to a query is an argument of the step that receives it.  A
  lookup that misses the cache awaits the resolver, and other requests run meanwhile: \<open>dns_fast\<close> is
  what happens before the await, \<open>dns_answered\<close> what happens after it on the cache as it is then, and
  \<open>resolve_cached\<close> composes them with the changes others made in between as an argument.
\<close>

section \<open>Data\<close>

definition X509_V_ERR_CERT_NOT_YET_VALID :: int where "X509_V_ERR_CERT_NOT_YET_VALID = 9"
definition X509_V_ERR_CERT_HAS_EXPIRED :: int where "X509_V_ERR_CERT_HAS_EXPIRED = 10"

record verified_machine =
  vm_hostname :: ustring
  vm_subject_dn :: ustring

datatype machine_error =
    ME_Missing
  | ME_NotBase64
  | ME_NotDer
  | ME_UntrustedChain ustring
  | ME_CertExpired
  | ME_CertNotYetValid
  | ME_NoCommonName
  | ME_UnsafeCommonName
  | ME_HostnameNotAllowed ustring
  | ME_HostnameAddressMismatch ustring ip_addr
  | ME_HostnameUnresolvable ustring
  | ME_NoClientAddress

record cache_entry =
  ce_addrs :: "ip_addr list"
  ce_fetched :: instant

type_synonym dns_cache = "ustring \<rightharpoonup> cache_entry"

record machine_identity_config =
  mic_enabled :: bool
  mic_machine_ca :: ustring
  mic_required :: bool
  mic_allowed_hostnames :: "ustring list"
  mic_dns_ttl_secs :: nat
  mic_dns_negative_ttl_secs :: nat
  mic_dns_stale_grace_secs :: nat
  mic_partial_chain :: bool

definition mic_default :: machine_identity_config where
  "mic_default = \<lparr>mic_enabled = True, mic_machine_ca = [], mic_required = True,
     mic_allowed_hostnames = [], mic_dns_ttl_secs = 14400, mic_dns_negative_ttl_secs = 30,
     mic_dns_stale_grace_secs = 3600, mic_partial_chain = False\<rparr>"

text \<open>The settings of \<^verbatim>\<open>MachineIdentity\<close>; its cache is passed separately, as it changes.\<close>

record ('x, 'g, 's) machine_identity =
  mi_store :: 's
  mi_allowed :: "'g list"
  mi_required :: bool
  mi_ca_certs :: "'x list"
  mi_dns_ttl :: duration
  mi_dns_negative_ttl :: duration
  mi_dns_stale_grace :: duration

record ('x, 'b, 's) openssl_ops =
  os_b64_decode :: "ustring \<Rightarrow> byte list option"
  os_from_der :: "byte list \<Rightarrow> 'x option"
  os_view :: "'x \<Rightarrow> x509_cert"
  os_stack_from_pem :: "byte list \<Rightarrow> ustring + 'x list"
  os_store_new :: "ustring + 'b"
  os_add_cert :: "'b \<Rightarrow> 'x \<Rightarrow> ustring + 'b"
  os_set_partial_chain :: "'b \<Rightarrow> ustring + 'b"
  os_build :: "'b \<Rightarrow> 's"
  os_verify :: "'s \<Rightarrow> 'x \<Rightarrow> ustring + (bool \<times> int \<times> ustring)"

section \<open>Errors\<close>

fun machine_error_display :: "machine_error \<Rightarrow> ustring" where
  "machine_error_display ME_Missing = str ''X-DenBrowser-Machine-Cert is missing''"
| "machine_error_display ME_NotBase64 = str ''X-DenBrowser-Machine-Cert is not valid base64''"
| "machine_error_display ME_NotDer = str ''machine certificate is not parseable DER''"
| "machine_error_display (ME_UntrustedChain r) =
     str ''machine certificate does not chain to machine_ca: '' @ r"
| "machine_error_display ME_CertExpired = str ''machine certificate (or its issuing CA) has expired''"
| "machine_error_display ME_CertNotYetValid = str ''machine certificate (or its issuing CA) is not yet valid''"
| "machine_error_display ME_NoCommonName = str ''machine certificate has no Common Name''"
| "machine_error_display ME_UnsafeCommonName = str ''machine certificate Common Name contains illegal characters''"
| "machine_error_display (ME_HostnameNotAllowed cn) =
     str ''machine hostname '' @ debug_str cn @ str '' matches no allowed_hostnames pattern''"
| "machine_error_display (ME_HostnameAddressMismatch cn ip) =
     str ''machine hostname '' @ debug_str cn @ str '' does not resolve to the connecting address '' @ ip_to_string ip"
| "machine_error_display (ME_HostnameUnresolvable cn) =
     str ''machine hostname '' @ debug_str cn @ str '' could not be resolved''"
| "machine_error_display ME_NoClientAddress =
     str ''connection has no peer address to verify the machine hostname against''"

fun machine_error_reason :: "machine_error \<Rightarrow> reason" where
  "machine_error_reason ME_Missing = R_MachineCertMissing"
| "machine_error_reason ME_NotBase64 = R_MachineCertMalformed"
| "machine_error_reason ME_NotDer = R_MachineCertMalformed"
| "machine_error_reason (ME_UntrustedChain _) = R_MachineCertUntrusted"
| "machine_error_reason ME_CertExpired = R_MachineCertExpired"
| "machine_error_reason ME_CertNotYetValid = R_MachineCertNotYetValid"
| "machine_error_reason ME_NoCommonName = R_MachineCertNoCommonName"
| "machine_error_reason ME_UnsafeCommonName = R_MachineCertUnsafeCommonName"
| "machine_error_reason (ME_HostnameNotAllowed _) = R_MachineHostnameNotAllowed"
| "machine_error_reason (ME_HostnameAddressMismatch _ _) = R_MachineAddressMismatch"
| "machine_error_reason (ME_HostnameUnresolvable _) = R_MachineHostnameUnresolvable"
| "machine_error_reason ME_NoClientAddress = R_MachineNoClientAddress"

fun chain_verified :: "machine_error \<Rightarrow> bool" where
  "chain_verified (ME_HostnameAddressMismatch _ _) = True"
| "chain_verified (ME_HostnameUnresolvable _) = True"
| "chain_verified _ = False"

interpretation machine_err: audited_error machine_error_reason machine_error_display "{St_MachineIdentity}"
proof unfold_locales
  fix e
  show "reason_stage (machine_error_reason e) \<in> {St_MachineIdentity}" by (cases e) simp_all
  show "machine_error_display e \<noteq> []" by (cases e) simp_all
qed simp

section \<open>The certificate\<close>

definition presented_subject_dn :: "('x, 'b, 's) openssl_ops \<Rightarrow> ustring \<Rightarrow> ustring option" where
  "presented_subject_dn os cert_b64 =
     (case os_b64_decode os (trim cert_b64) of
        None \<Rightarrow> None
      | Some der \<Rightarrow>
          map_option (\<lambda>c. distinguished_name (xc_subject (os_view os c))) (os_from_der os der))"

definition unsafe_cn :: "ustring \<Rightarrow> bool" where
  "unsafe_cn cn \<longleftrightarrow> cn = [] \<or> list_ex (\<lambda>c. \<not> is_ascii c \<or> is_ascii_control c \<or> c = 32) cn"

definition chain_error :: "int \<Rightarrow> ustring \<Rightarrow> machine_error" where
  "chain_error code rsn =
     (if code = X509_V_ERR_CERT_HAS_EXPIRED then ME_CertExpired
      else if code = X509_V_ERR_CERT_NOT_YET_VALID then ME_CertNotYetValid
      else ME_UntrustedChain rsn)"

definition verify_cert ::
  "('x, 'b, 's) openssl_ops \<Rightarrow> 'g glob_ops \<Rightarrow> ('x, 'g, 's) machine_identity \<Rightarrow> ustring
   \<Rightarrow> machine_error + verified_machine" where
  "verify_cert os go mi cert_b64 =
     rbind (ok_or (os_b64_decode os (trim cert_b64)) ME_NotBase64) (\<lambda>der.
     rbind (ok_or (os_from_der os der) ME_NotDer) (\<lambda>cert.
     let ident = from_cert (os_view os cert) in
     rbind (ok_or (cc_common_name ident) ME_NoCommonName) (\<lambda>cn0.
     rbind (ensure (\<not> unsafe_cn cn0) ME_UnsafeCommonName) (\<lambda>_.
     let cn = to_ascii_lowercase cn0 in
     rbind (ensure (\<not> (mi_allowed mi \<noteq> [] \<and> \<not> list_ex (\<lambda>m. glob_is_match go m cn) (mi_allowed mi)))
              (ME_HostnameNotAllowed cn)) (\<lambda>_.
     rbind (map_err ME_UntrustedChain (os_verify os (mi_store mi) cert)) (\<lambda>(ok, code, rsn).
     rbind (ensure ok (chain_error code rsn)) (\<lambda>_.
     Inr \<lparr>vm_hostname = cn, vm_subject_dn = cc_subject_dn ident\<rparr>)))))))"

section \<open>The cache of resolver answers\<close>

definition is_negative :: "cache_entry \<Rightarrow> bool" where
  "is_negative e \<longleftrightarrow> ce_addrs e = []"

definition entry_ttl :: "('x, 'g, 's) machine_identity \<Rightarrow> cache_entry \<Rightarrow> duration" where
  "entry_ttl mi e = (if is_negative e then mi_dns_negative_ttl mi else mi_dns_ttl mi)"

text \<open>\<^verbatim>\<open>Instant::elapsed\<close>, which saturates at zero.\<close>

definition elapsed :: "instant \<Rightarrow> cache_entry \<Rightarrow> duration" where
  "elapsed t e = t - ce_fetched e"

definition dns_fast :: "('x, 'g, 's) machine_identity \<Rightarrow> instant \<Rightarrow> dns_cache \<Rightarrow> ustring \<Rightarrow> ip_addr list option" where
  "dns_fast mi t cache host =
     (case cache host of
        Some e \<Rightarrow> if elapsed t e < entry_ttl mi e then Some (ce_addrs e) else None
      | None \<Rightarrow> None)"

definition dns_keep :: "('x, 'g, 's) machine_identity \<Rightarrow> duration" where
  "dns_keep mi = mi_dns_ttl mi + mi_dns_stale_grace mi"

definition dns_retain :: "('x, 'g, 's) machine_identity \<Rightarrow> instant \<Rightarrow> dns_cache \<Rightarrow> dns_cache" where
  "dns_retain mi t cache =
     (\<lambda>h. case cache h of Some e \<Rightarrow> if elapsed t e < dns_keep mi then Some e else None | None \<Rightarrow> None)"

definition dns_store ::
  "('x, 'g, 's) machine_identity \<Rightarrow> instant \<Rightarrow> ustring \<Rightarrow> ip_addr list \<Rightarrow> dns_cache \<Rightarrow> dns_cache" where
  "dns_store mi t host addrs cache =
     (dns_retain mi t cache)(host \<mapsto> \<lparr>ce_addrs = addrs, ce_fetched = t\<rparr>)"

text \<open>
  \<^verbatim>\<open>SystemResolver::resolve\<close>: the system's lookup needs a port, which is dropped again.  The answer is \<open>Inl\<close>
  an I/O error or \<open>Inr\<close> the addresses.
\<close>

definition system_resolve ::
  "(ustring \<Rightarrow> 16 word \<Rightarrow> ustring + socket_addr list) \<Rightarrow> ustring \<Rightarrow> ustring + ip_addr list" where
  "system_resolve lookup_host host = rbind (lookup_host host 0) (\<lambda>addrs. Inr (map sa_ip addrs))"

definition dns_answered ::
  "('x, 'g, 's) machine_identity \<Rightarrow> instant \<Rightarrow> ustring \<Rightarrow> ustring + ip_addr list \<Rightarrow> dns_cache
   \<Rightarrow> ip_addr list option \<times> dns_cache" where
  "dns_answered mi t host answer cache =
     (case answer of
        Inr addrs \<Rightarrow> (Some addrs, dns_store mi t host addrs cache)
      | Inl _ \<Rightarrow>
          ((case cache host of
              Some e \<Rightarrow> if \<not> is_negative e \<and> elapsed t e < dns_keep mi then Some (ce_addrs e) else None
            | None \<Rightarrow> None),
           cache))"

definition resolve_cached ::
  "('x, 'g, 's) machine_identity \<Rightarrow> instant \<Rightarrow> instant \<Rightarrow> (dns_cache \<Rightarrow> dns_cache) \<Rightarrow> ustring
   \<Rightarrow> ustring + ip_addr list \<Rightarrow> dns_cache \<Rightarrow> ip_addr list option \<times> dns_cache" where
  "resolve_cached mi t0 t1 others host answer cache =
     (case dns_fast mi t0 cache host of
        Some addrs \<Rightarrow> (Some addrs, cache)
      | None \<Rightarrow> dns_answered mi t1 host answer (others cache))"

text \<open>\<^verbatim>\<open>MachineIdentity::verify\<close>: the match on the addresses, then the whole check.\<close>

definition check_addrs ::
  "verified_machine \<Rightarrow> ip_addr \<Rightarrow> ip_addr list option \<Rightarrow> machine_error + verified_machine" where
  "check_addrs m ip addrs =
     (case addrs of
        Some as \<Rightarrow>
          if ip \<in> set as then Inr m
          else if as = [] then Inl (ME_HostnameUnresolvable (vm_hostname m))
          else Inl (ME_HostnameAddressMismatch (vm_hostname m) ip)
      | None \<Rightarrow> Inl (ME_HostnameUnresolvable (vm_hostname m)))"

definition machine_verify ::
  "('x, 'b, 's) openssl_ops \<Rightarrow> 'g glob_ops \<Rightarrow> ('x, 'g, 's) machine_identity \<Rightarrow> instant \<Rightarrow> instant
   \<Rightarrow> (dns_cache \<Rightarrow> dns_cache) \<Rightarrow> (ustring \<Rightarrow> ustring + ip_addr list) \<Rightarrow> ustring \<Rightarrow> ip_addr option
   \<Rightarrow> dns_cache \<Rightarrow> (machine_error + verified_machine) \<times> dns_cache" where
  "machine_verify os go mi t0 t1 others resolve cert_b64 client_ip cache =
     (case client_ip of
        None \<Rightarrow> (Inl ME_NoClientAddress, cache)
      | Some ip \<Rightarrow>
          (case verify_cert os go mi cert_b64 of
             Inl e \<Rightarrow> (Inl e, cache)
           | Inr m \<Rightarrow>
               (let (addrs, cache') =
                      resolve_cached mi t0 t1 others (vm_hostname m) (resolve (vm_hostname m)) cache
                in (check_addrs m ip addrs, cache'))))"

section \<open>Settings\<close>

datatype machine_config_error =
    MachineCaNotSet
  | MachineCaUnreadable ustring ustring
  | MachineCaUnparseable ustring ustring
  | MachineCaEmpty ustring
  | MachineStoreCreate ustring
  | MachineStoreAdd ustring
  | MachineStoreFlags ustring
  | MachinePatternNotLower ustring
  | MachineBadPattern ustring ustring

fun add_certs :: "('x, 'b, 's) openssl_ops \<Rightarrow> 'b \<Rightarrow> 'x list \<Rightarrow> machine_config_error + 'b" where
  "add_certs os b [] = Inr b"
| "add_certs os b (ca # cas) =
     rbind (map_err MachineStoreAdd (os_add_cert os b ca)) (\<lambda>b'. add_certs os b' cas)"

definition compile_hostname :: "'g glob_ops \<Rightarrow> ustring \<Rightarrow> machine_config_error + 'g" where
  "compile_hostname go pattern =
     rbind (ensure (pattern = to_ascii_lowercase pattern) (MachinePatternNotLower pattern)) (\<lambda>_.
     map_err (MachineBadPattern pattern) (glob_new go pattern))"

definition machine_from_config ::
  "('x, 'b, 's) openssl_ops \<Rightarrow> 'g glob_ops \<Rightarrow> (ustring \<Rightarrow> ustring + byte list) \<Rightarrow> machine_identity_config
   \<Rightarrow> machine_config_error + ('x, 'g, 's) machine_identity option" where
  "machine_from_config os go read_file cfg =
     (if \<not> mic_enabled cfg then Inr None
      else
        rbind (ensure (mic_machine_ca cfg \<noteq> []) MachineCaNotSet) (\<lambda>_.
        rbind (map_err (MachineCaUnreadable (mic_machine_ca cfg)) (read_file (mic_machine_ca cfg))) (\<lambda>pem.
        rbind (map_err (MachineCaUnparseable (mic_machine_ca cfg)) (os_stack_from_pem os pem)) (\<lambda>cas.
        rbind (ensure (cas \<noteq> []) (MachineCaEmpty (mic_machine_ca cfg))) (\<lambda>_.
        rbind (map_err MachineStoreCreate (os_store_new os)) (\<lambda>b0.
        rbind (add_certs os b0 cas) (\<lambda>b1.
        rbind (if mic_partial_chain cfg then map_err MachineStoreFlags (os_set_partial_chain os b1)
               else Inr b1) (\<lambda>b2.
        rbind (mapM (compile_hostname go) (mic_allowed_hostnames cfg)) (\<lambda>allowed.
        Inr (Some \<lparr>mi_store = os_build os b2, mi_allowed = allowed, mi_required = mic_required cfg,
                   mi_ca_certs = cas, mi_dns_ttl = from_secs (mic_dns_ttl_secs cfg),
                   mi_dns_negative_ttl = from_secs (mic_dns_negative_ttl_secs cfg),
                   mi_dns_stale_grace = from_secs (mic_dns_stale_grace_secs cfg)\<rparr>))))))))))"

definition machine_of :: "'g glob_ops \<Rightarrow> machine_identity_config \<Rightarrow> ('x, 'g, 's) machine_identity \<Rightarrow> bool" where
  "machine_of go cfg mi \<longleftrightarrow>
     mi_ca_certs mi \<noteq> [] \<and> mi_required mi = mic_required cfg \<and>
     list_all2 (\<lambda>p m. to_ascii_lowercase p = p \<and> glob_new go p = Inr m) (mic_allowed_hostnames cfg) (mi_allowed mi) \<and>
     mi_dns_ttl mi = from_secs (mic_dns_ttl_secs cfg) \<and>
     mi_dns_negative_ttl mi = from_secs (mic_dns_negative_ttl_secs cfg) \<and>
     mi_dns_stale_grace mi = from_secs (mic_dns_stale_grace_secs cfg)"

lemma compile_hostnames_eq:
  "mapM (compile_hostname go) ps = Inr ms \<longleftrightarrow>
     list_all2 (\<lambda>p m. to_ascii_lowercase p = p \<and> glob_new go p = Inr m) ps ms"
proof (induction ps arbitrary: ms)
  case (Cons p ps)
  then show ?case by (cases ms) (auto simp: compile_hostname_def result_simps)
qed auto

interpretation machine_feature: optional_feature mic_enabled "machine_from_config os go rd" "machine_of go"
  for os :: "('x, 'b, 's) openssl_ops" and go :: "'g glob_ops" and rd :: "ustring \<Rightarrow> ustring + byte list"
  by unfold_locales
    (auto simp: machine_from_config_def machine_of_def result_simps compile_hostnames_eq)

section \<open>What an accepted certificate is\<close>

lemma not_unsafe_cn: "\<not> unsafe_cn cn \<longleftrightarrow> cn \<noteq> [] \<and> (\<forall>c \<in> set cn. is_ascii c \<and> \<not> is_ascii_control c \<and> c \<noteq> 32)"
  by (auto simp: unsafe_cn_def list_ex_iff)

lemma lower_safe:
  "c \<in> set (to_ascii_lowercase s) \<Longrightarrow> \<forall>c \<in> set s. is_ascii c \<and> \<not> is_ascii_control c \<and> c \<noteq> 32 \<Longrightarrow>
     is_ascii c \<and> \<not> is_ascii_control c \<and> c \<noteq> 32"
  by (auto simp: to_ascii_lowercase_def to_ascii_lower_def is_ascii_control_def)

text \<open>
  A certificate is accepted exactly when it decodes, has a Common Name of printable ASCII
  without spaces, that name in lower case matches a configured pattern (or no pattern is configured)
  and OpenSSL verifies the chain; the identity returned is that lower-case name with the subject of
  this very certificate.
\<close>

lemma verify_cert_iff:
  "verify_cert os go mi b64 = Inr m \<longleftrightarrow>
     (\<exists>der cert cn code rsn.
        os_b64_decode os (trim b64) = Some der \<and> os_from_der os der = Some cert \<and>
        cc_common_name (from_cert (os_view os cert)) = Some cn \<and> cn \<noteq> [] \<and>
        (\<forall>c \<in> set cn. is_ascii c \<and> \<not> is_ascii_control c \<and> c \<noteq> 32) \<and>
        (mi_allowed mi = [] \<or> (\<exists>g \<in> set (mi_allowed mi). glob_is_match go g (to_ascii_lowercase cn))) \<and>
        os_verify os (mi_store mi) cert = Inr (True, code, rsn) \<and>
        m = \<lparr>vm_hostname = to_ascii_lowercase cn,
             vm_subject_dn = distinguished_name (xc_subject (os_view os cert))\<rparr>)"
  by (auto simp: verify_cert_def Let_def result_simps not_unsafe_cn list_ex_iff from_cert_def)

lemma verify_cert_hostname_safe:
  "verify_cert os go mi b64 = Inr m \<Longrightarrow>
     vm_hostname m \<noteq> [] \<and> (\<forall>c \<in> set (vm_hostname m). is_ascii c \<and> \<not> is_ascii_control c \<and> c \<noteq> 32)"
proof -
  assume "verify_cert os go mi b64 = Inr m"
  then obtain cn where "\<not> unsafe_cn cn" "vm_hostname m = to_ascii_lowercase cn"
    by (auto simp: verify_cert_def Let_def result_simps)
  with lower_safe [of _ cn] show ?thesis by (auto simp: not_unsafe_cn to_ascii_lowercase_def)
qed

lemma verify_cert_error_unchained:
  "verify_cert os go mi b64 = Inl e \<Longrightarrow> \<not> chain_verified e"
  by (auto simp: verify_cert_def Let_def result_simps chain_error_def split: if_splits prod.splits)

lemma check_addrs_cases:
  "check_addrs m ip addrs = Inr m' \<longleftrightarrow> m' = m \<and> (\<exists>as. addrs = Some as \<and> ip \<in> set as)"
  "check_addrs m ip addrs = Inl e \<Longrightarrow> chain_verified e"
  by (auto simp: check_addrs_def split: option.splits if_splits)

text \<open>
  The flag the audit record carries is right: a refusal says \<^verbatim>\<open>chain_verified\<close> exactly when the
  certificate passed every check up to and including the chain (and there was an address to check),
  and an acceptance returns what \<open>verify_cert\<close> returned.
\<close>

lemma chain_verified_flag:
  "case fst (machine_verify os go mi t0 t1 others resolve b64 client_ip cache) of
     Inl e \<Rightarrow> chain_verified e \<longleftrightarrow> client_ip \<noteq> None \<and> is_ok (verify_cert os go mi b64)
   | Inr m \<Rightarrow> verify_cert os go mi b64 = Inr m"
proof (cases client_ip)
  case (Some ip)
  show ?thesis
  proof (cases "verify_cert os go mi b64")
    case (Inr m)
    then show ?thesis
      using Some check_addrs_cases
      by (auto simp: machine_verify_def case_prod_beta split: sum.splits)
  qed (auto simp: machine_verify_def Some dest: verify_cert_error_unchained)
qed (simp add: machine_verify_def)

text \<open>
  C27. Nothing an untrusted certificate says reaches the resolver: unless the certificate passed all
  its own checks and the client has an address, the outcome is the same for every resolver, every
  cache and every interleaving, and the cache is untouched.
\<close>

theorem untrusted_name_not_resolved:
  assumes "client_ip = None \<or> \<not> is_ok (verify_cert os go mi b64)"
  shows "fst (machine_verify os go mi t0 t1 others resolve b64 client_ip cache) =
      fst (machine_verify os go mi t0' t1' others' resolve' b64 client_ip cache') \<and>
    snd (machine_verify os go mi t0 t1 others resolve b64 client_ip cache) = cache"
  using assms by (auto simp: machine_verify_def is_ok_iff split: option.splits sum.splits)

section \<open>Where a cached answer comes from\<close>

text \<open>
  The contract the forward check needs of a cache of answers: what it holds for a key was put there
  for that key, with its time.  \<open>provenance\<close> relates a cache to the log of all answers.
\<close>

definition provenance ::
  "('c \<Rightarrow> 'k \<Rightarrow> ('v \<times> instant) option) \<Rightarrow> 'c \<Rightarrow> ('k \<times> instant \<times> 'v) set \<Rightarrow> bool" where
  "provenance lookup c log \<longleftrightarrow> (\<forall>k v t. lookup c k = Some (v, t) \<longrightarrow> (k, t, v) \<in> log)"

locale answer_cache =
  fixes lookup :: "'c \<Rightarrow> 'k \<Rightarrow> ('v \<times> instant) option"
    and put :: "instant \<Rightarrow> 'k \<Rightarrow> 'v \<Rightarrow> 'c \<Rightarrow> 'c"
  assumes lookup_put_same: "lookup (put t k v c) k = Some (v, t)"
    and lookup_put_other: "k' \<noteq> k \<Longrightarrow> lookup (put t k v c) k' = Some p \<Longrightarrow> lookup c k' = Some p"
begin

lemma provenance_put:
  "provenance lookup c log \<Longrightarrow> provenance lookup (put t k v c) (insert (k, t, v) log)"
  unfolding provenance_def
  by (metis insert_iff lookup_put_other lookup_put_same old.prod.inject option.inject)

lemma provenance_le: "provenance lookup c log \<Longrightarrow> log \<subseteq> log' \<Longrightarrow> provenance lookup c log'"
  by (auto simp: provenance_def)

end

definition dns_lookup :: "dns_cache \<Rightarrow> ustring \<Rightarrow> (ip_addr list \<times> instant) option" where
  "dns_lookup c h = map_option (\<lambda>e. (ce_addrs e, ce_fetched e)) (c h)"

lemma dns_retain_Some: "dns_retain mi t c h = Some e \<longleftrightarrow> c h = Some e \<and> elapsed t e < dns_keep mi"
  by (auto simp: dns_retain_def split: option.splits)

interpretation dns: answer_cache dns_lookup "dns_store mi"
  for mi :: "('x, 'g, 's) machine_identity"
  by unfold_locales (auto simp: dns_lookup_def dns_store_def dns_retain_Some)

text \<open>The shared cache as requests change it, with the log of what the resolver ever answered.\<close>

record dns_world =
  dw_now :: instant
  dw_cache :: dns_cache
  dw_log :: "(ustring \<times> instant \<times> ip_addr list) set"

inductive dns_step :: "('x, 'g, 's) machine_identity \<Rightarrow> dns_world \<Rightarrow> dns_world \<Rightarrow> bool"
  for mi :: "('x, 'g, 's) machine_identity" where
  tick: "dw_now w \<le> t \<Longrightarrow> dns_step mi w (w\<lparr>dw_now := t\<rparr>)"
| answer: "dns_answered mi (dw_now w) host (Inr addrs) (dw_cache w) = (r, c) \<Longrightarrow>
    dns_step mi w (w\<lparr>dw_cache := c, dw_log := insert (host, dw_now w, addrs) (dw_log w)\<rparr>)"
| failure: "dns_answered mi (dw_now w) host (Inl err) (dw_cache w) = (r, c) \<Longrightarrow>
    dns_step mi w (w\<lparr>dw_cache := c\<rparr>)"

inductive dns_reach :: "('x, 'g, 's) machine_identity \<Rightarrow> dns_world \<Rightarrow> dns_world \<Rightarrow> bool"
  for mi :: "('x, 'g, 's) machine_identity" where
  here: "dns_reach mi w w"
| more: "dns_reach mi w w' \<Longrightarrow> dns_step mi w' w'' \<Longrightarrow> dns_reach mi w w''"

inductive_cases dns_stepE: "dns_step mi w w'"

definition dns_start :: "instant \<Rightarrow> dns_world" where
  "dns_start t = \<lparr>dw_now = t, dw_cache = Map.empty, dw_log = {}\<rparr>"

definition dns_inv :: "dns_world \<Rightarrow> bool" where
  "dns_inv w \<longleftrightarrow> provenance dns_lookup (dw_cache w) (dw_log w) \<and> (\<forall>(h, t, as) \<in> dw_log w. t \<le> dw_now w)"

lemma dns_step_inv: "dns_step mi w w' \<Longrightarrow> dns_inv w \<Longrightarrow> dns_inv w'"
proof (erule dns_stepE)
  fix t assume "w' = w\<lparr>dw_now := t\<rparr>" "dw_now w \<le> t" "dns_inv w"
  then show "dns_inv w'" by (fastforce simp: dns_inv_def)
next
  fix host addrs r c
  assume "w' = w\<lparr>dw_cache := c, dw_log := insert (host, dw_now w, addrs) (dw_log w)\<rparr>"
    "dns_answered mi (dw_now w) host (Inr addrs) (dw_cache w) = (r, c)" "dns_inv w"
  then show "dns_inv w'" by (auto simp: dns_inv_def dns_answered_def intro: dns.provenance_put)
qed (auto simp: dns_inv_def dns_answered_def)

lemma dns_reach_inv: "dns_reach mi w w' \<Longrightarrow> dns_inv w \<Longrightarrow> dns_inv w'"
  by (induction rule: dns_reach.induct) (auto intro: dns_step_inv)

lemma dns_start_inv: "dns_inv (dns_start t)"
  by (simp add: dns_inv_def dns_start_def provenance_def dns_lookup_def)

lemma dns_reach_trans: "dns_reach mi w' w'' \<Longrightarrow> dns_reach mi w w' \<Longrightarrow> dns_reach mi w w''"
  by (induction rule: dns_reach.induct) (auto intro: dns_reach.more)

lemma dns_reach_log: "dns_reach mi w w' \<Longrightarrow> dw_log w \<subseteq> dw_log w' \<and> dw_now w \<le> dw_now w'"
  by (induction rule: dns_reach.induct) (auto elim!: dns_stepE)

lemma dns_inv_entry:
  assumes "dns_inv w" "dw_cache w h = Some e"
  shows "(h, ce_fetched e, ce_addrs e) \<in> dw_log w \<and> ce_fetched e \<le> dw_now w"
  using assms by (fastforce simp: dns_inv_def provenance_def dns_lookup_def)

lemma dns_fast_Some:
  "dns_fast mi t c h = Some as \<longleftrightarrow> (\<exists>e. c h = Some e \<and> elapsed t e < entry_ttl mi e \<and> as = ce_addrs e)"
  by (auto simp: dns_fast_def split: option.splits)

lemma dns_answered_Some:
  "dns_answered mi t h a c = (Some as, c') \<longleftrightarrow>
     (a = Inr as \<and> c' = dns_store mi t h as c) \<or>
     (\<exists>err e. a = Inl err \<and> c' = c \<and> c h = Some e \<and> as = ce_addrs e \<and> as \<noteq> [] \<and> elapsed t e < dns_keep mi)"
  by (auto simp: dns_answered_def is_negative_def split: sum.splits option.splits)

text \<open>
  C10. The forward check means what it says, under any interleaving of requests: when a machine is
  accepted, the resolver did answer for that very name with a list that holds the client's address,
  and that answer is either this request's own or was obtained less than \<^verbatim>\<open>dns_ttl + dns_stale_grace\<close>
  ago; a stale answer is used only when the resolver failed on this request.
\<close>

theorem accepted_machine_resolved:
  assumes "dns_reach mi (dns_start ts) w0" and "dns_reach mi w0 w1"
    and "fst (machine_verify os go mi (dw_now w0) (dw_now w1) (\<lambda>_. dw_cache w1) resolve b64 (Some ip) (dw_cache w0)) =
      Inr m"
  shows "(\<exists>as. resolve (vm_hostname m) = Inr as \<and> ip \<in> set as) \<or>
    (\<exists>t as. (vm_hostname m, t, as) \<in> dw_log w1 \<and> ip \<in> set as \<and> t \<le> dw_now w1 \<and>
       (dw_now w0 - t < mi_dns_ttl mi \<or>
        (is_ok (resolve (vm_hostname m)) = False \<and> dw_now w1 - t < mi_dns_ttl mi + mi_dns_stale_grace mi)))"
proof -
  have inv: "dns_inv w0" "dns_inv w1"
    using assms(1,2) dns_start_inv dns_reach_inv by blast+
  let ?r = "resolve_cached mi (dw_now w0) (dw_now w1) (\<lambda>_. dw_cache w1) (vm_hostname m)
      (resolve (vm_hostname m)) (dw_cache w0)"
  from assms(3) obtain as c where r: "?r = (Some as, c)" and ip: "ip \<in> set as"
    by (cases "verify_cert os go mi b64")
      (auto simp: machine_verify_def case_prod_beta check_addrs_cases(1) prod_eq_iff)
  show ?thesis
  proof (cases "dns_fast mi (dw_now w0) (dw_cache w0) (vm_hostname m)")
    case None
    with r consider "resolve (vm_hostname m) = Inr as"
      | err e where "resolve (vm_hostname m) = Inl err" "dw_cache w1 (vm_hostname m) = Some e"
          "as = ce_addrs e" "elapsed (dw_now w1) e < dns_keep mi"
      by (auto simp: resolve_cached_def dns_answered_Some)
    then show ?thesis
    proof cases
      case 2
      from dns_inv_entry [OF inv(2) 2(2)] 2 ip show ?thesis
        by (intro disjI2 exI [of _ "ce_fetched e"] exI [of _ as]) (simp add: elapsed_def dns_keep_def)
    qed (use ip in blast)
  next
    case (Some as')
    with r obtain e where e: "dw_cache w0 (vm_hostname m) = Some e" "as = ce_addrs e"
      "elapsed (dw_now w0) e < entry_ttl mi e"
      by (auto simp: resolve_cached_def dns_fast_Some)
    from dns_inv_entry [OF inv(1) e(1)] e ip dns_reach_log [OF assms(2)] show ?thesis
      by (intro disjI2 exI [of _ "ce_fetched e"] exI [of _ as])
        (auto simp: elapsed_def entry_ttl_def is_negative_def split: if_splits)
  qed
qed

section \<open>How often the resolver is asked\<close>

lemma dns_store_fresh:
  assumes "c h = Some e" "h' \<noteq> h" "t \<le> t'" "elapsed t' e < dns_keep mi"
  shows "dns_store mi t h' as c h = Some e"
proof -
  have "elapsed t e \<le> elapsed t' e" using assms(3) by (simp add: elapsed_def)
  then show ?thesis using assms(1,2,4) by (simp add: dns_store_def dns_retain_Some)
qed

lemma answers_keep_entry:
  assumes "d h = Some e" "\<forall>(t, h', _) \<in> set evs. h' \<noteq> h \<and> t \<le> t'" "evs = [] \<or> elapsed t' e < dns_keep mi"
  shows "fold (\<lambda>(t, h', a) c. snd (dns_answered mi t h' a c)) evs d h = Some e"
  using assms
proof (induction evs arbitrary: d)
  case (Cons ev evs)
  obtain t h' a where ev: "ev = (t, h', a)" by (cases ev)
  have "snd (dns_answered mi t h' a d) h = Some e"
    using dns_store_fresh [of d h e h' t t' mi] Cons.prems ev
    by (simp add: dns_answered_def split: sum.splits)
  with Cons ev show ?case by simp
qed simp

text \<open>
  C28. One query per name and TTL.  An answer stored for a name is served from the cache, and the
  resolver is not asked, for as long as its TTL: \<^verbatim>\<open>dns_ttl\<close> for addresses, \<^verbatim>\<open>dns_negative_ttl\<close> for
  a name that does not resolve.  While it lasts, it survives whatever other names are looked up,
  answered or fail, except that a negative answer is dropped by the sweep of another name's answer
  once it is \<^verbatim>\<open>dns_ttl + dns_stale_grace\<close> old (which happens before its TTL only if the
  operator set \<^verbatim>\<open>dns_negative_ttl\<close> longer than that).
\<close>

theorem answer_reused:
  assumes "\<forall>(t, h', _) \<in> set evs. h' \<noteq> h \<and> t \<le> t'"
    and "t' - t0 < (if as = [] then mi_dns_negative_ttl mi else mi_dns_ttl mi)"
    and "as = [] \<longrightarrow> evs = [] \<or> t' - t0 < mi_dns_ttl mi + mi_dns_stale_grace mi"
  shows "resolve_cached mi t' t1 others h answer
      (fold (\<lambda>(t, h', a) c. snd (dns_answered mi t h' a c)) evs (dns_store mi t0 h as c)) =
    (Some as, fold (\<lambda>(t, h', a) c. snd (dns_answered mi t h' a c)) evs (dns_store mi t0 h as c))"
proof -
  let ?e = "\<lparr>ce_addrs = as, ce_fetched = t0\<rparr>"
  have fresh: "elapsed t' ?e < entry_ttl mi ?e"
    using assms(2) by (simp add: elapsed_def entry_ttl_def is_negative_def)
  have keep: "evs = [] \<or> elapsed t' ?e < dns_keep mi"
    using assms(2,3) by (auto simp: elapsed_def dns_keep_def split: if_splits)
  have "dns_store mi t0 h as c h = Some ?e" by (simp add: dns_store_def)
  from answers_keep_entry [where d = "dns_store mi t0 h as c" and h = h and t' = t' and mi = mi, OF this assms(1) keep] fresh show ?thesis
    by (simp add: resolve_cached_def dns_fast_def)
qed

text \<open>
  The exception is real: a negative answer older than \<^verbatim>\<open>dns_ttl + dns_stale_grace\<close> is swept when an
  answer for another name is stored, and the next request for it asks the resolver, however long the
  configured \<^verbatim>\<open>dns_negative_ttl\<close>.
\<close>

lemma old_negative_swept:
  assumes "h' \<noteq> h" "mi_dns_ttl mi + mi_dns_stale_grace mi \<le> t - t0"
  shows "dns_fast mi t' (dns_store mi t h' as' (dns_store mi t0 h [] c)) h = None"
proof -
  have "dns_store mi t h' as' (dns_store mi t0 h [] c) h = None"
    using assms by (auto simp: dns_store_def dns_retain_def elapsed_def dns_keep_def)
  then show ?thesis by (simp add: dns_fast_def)
qed

text \<open>
  A resolver failure is never remembered: it leaves the cache as it is, so the next request for
  the name asks again; with nothing cached it rejects, and with a positive answer cached it falls
  back on it only within the grace period.
\<close>

lemma resolver_failure:
  "snd (dns_answered mi t h (Inl err) c) = c \<and>
   (fst (dns_answered mi t h (Inl err) c) =
      (case c h of
         None \<Rightarrow> None
       | Some e \<Rightarrow>
           if ce_addrs e \<noteq> [] \<and> t - ce_fetched e < mi_dns_ttl mi + mi_dns_stale_grace mi
           then Some (ce_addrs e) else None)) \<and>
   (c h = None \<longrightarrow>
      check_addrs m ip (fst (dns_answered mi t h (Inl err) c)) = Inl (ME_HostnameUnresolvable (vm_hostname m)) \<and>
      dns_fast mi t' (snd (dns_answered mi t h (Inl err) c)) h = None)"
  by (auto simp: dns_answered_def is_negative_def elapsed_def dns_keep_def check_addrs_def dns_fast_def
      split: option.splits)

section \<open>An example\<close>

definition demo_machine_cert :: x509_cert where
  "demo_machine_cert = \<lparr>xc_subject = [\<lparr>xe_short_name = Some (str ''CN''), xe_oid = [], xe_is_cn = True,
     xe_utf8 = Some (str ''WS1''), xe_raw = []\<rparr>], xc_san = None\<rparr>"

definition demo_openssl :: "(unit, unit, unit) openssl_ops" where
  "demo_openssl = \<lparr>os_b64_decode = (\<lambda>s. if s = [] then None else Some (map of_nat s)), os_from_der = (\<lambda>_. Some ()),
     os_view = (\<lambda>_. demo_machine_cert), os_stack_from_pem = (\<lambda>_. Inr [()]), os_store_new = Inr (),
     os_add_cert = (\<lambda>_ _. Inr ()), os_set_partial_chain = Inr, os_build = id,
     os_verify = (\<lambda>_ _. Inr (True, 0, []))\<rparr>"

definition demo_mi :: "(unit, ustring, unit) machine_identity" where
  "demo_mi = \<lparr>mi_store = (), mi_allowed = [str ''ws1''], mi_required = True, mi_ca_certs = [()],
     mi_dns_ttl = 100, mi_dns_negative_ttl = 10, mi_dns_stale_grace = 50\<rparr>"

definition demo_vm :: verified_machine where
  "demo_vm = \<lparr>vm_hostname = str ''ws1'', vm_subject_dn = str ''CN=WS1''\<rparr>"

lemma demo_verify_cert: "verify_cert demo_openssl literal_globs demo_mi (str ''x'') = Inr demo_vm"
  by (simp add: verify_cert_def demo_openssl_def demo_mi_def demo_vm_def literal_globs_def demo_machine_cert_def
      from_cert_def unsafe_cn_def trim_def trim_start_def trim_end_def is_whitespace_def str_def
      is_ascii_control_def to_ascii_lowercase_def to_ascii_lower_def distinguished_name_def render_rdn_def
      entry_type_def entry_value_def escape_dn_value_def escape_dn_char_def dn_special_def is_control_def)

lemma demo_verify_cert_empty: "verify_cert demo_openssl literal_globs demo_mi [] = Inl ME_NotBase64"
  by (simp add: verify_cert_def demo_openssl_def trim_def trim_start_def trim_end_def)

abbreviation demo_resolve :: "ustring \<Rightarrow> ustring + ip_addr list" where
  "demo_resolve \<equiv> (\<lambda>_. Inr [V4 7])"

theorem accepted_machine_resolved_witness:
  "fst (machine_verify demo_openssl literal_globs demo_mi 0 0 (\<lambda>_. Map.empty) demo_resolve
     (str ''x'') (Some (V4 7)) Map.empty) = Inr demo_vm \<and> V4 7 \<in> set [V4 7]"
proof -
  let ?w = "dns_start 0"
  have a: "fst (machine_verify demo_openssl literal_globs demo_mi (dw_now ?w) (dw_now ?w) (\<lambda>_. dw_cache ?w)
      demo_resolve (str ''x'') (Some (V4 7)) (dw_cache ?w)) = Inr demo_vm"
    by (simp add: machine_verify_def demo_verify_cert resolve_cached_def dns_fast_def dns_answered_def
        check_addrs_def dns_start_def)
  from accepted_machine_resolved [OF dns_reach.here dns_reach.here a] a show ?thesis
    by (simp add: dns_start_def)
qed

theorem untrusted_name_not_resolved_witness:
  "\<not> is_ok (verify_cert demo_openssl literal_globs demo_mi []) \<and>
   snd (machine_verify demo_openssl literal_globs demo_mi 0 0 id demo_resolve [] (Some (V4 7)) Map.empty) = Map.empty"
  using untrusted_name_not_resolved [of "Some (V4 7)" demo_openssl literal_globs demo_mi "[]" 0 0 id demo_resolve
      Map.empty 0 0 id demo_resolve Map.empty]
  by (simp add: demo_verify_cert_empty)

theorem answer_reused_witness:
  "fst (resolve_cached demo_mi 60 60 id (str ''ws1'') (Inl [])
      (snd (dns_answered demo_mi 30 (str ''ws2'') (Inr []) (dns_store demo_mi 0 (str ''ws1'') [V4 7] Map.empty)))) =
    Some [V4 7] \<and>
   fst (resolve_cached demo_mi 9 9 id (str ''ws1'') (Inr [V4 7])
      (snd (dns_answered demo_mi 8 (str ''ws2'') (Inr []) (dns_store demo_mi 0 (str ''ws1'') [] Map.empty)))) =
    Some []"
  using answer_reused [of "[(30, str ''ws2'', Inr [])]" "str ''ws1''" 60 0 "[V4 7]" demo_mi 60 id "Inl []" Map.empty]
    answer_reused [of "[(8, str ''ws2'', Inr [])]" "str ''ws1''" 9 0 "[]" demo_mi 9 id "Inr [V4 7]" Map.empty]
  by (simp add: demo_mi_def)

end
