(* ===== verification/Audit_Trail.thy ===== *)
theory Audit_Trail
  imports Attest Machine
begin

text \<open>
  The audit trail (\<^verbatim>\<open>src/proxy/src/audit.rs\<close>): the state one request accumulates (\<open>request_audit\<close>, the
  per-request context of the proxy), the operations that record what was seen and decided, and the
  record written when the exchange ends.  The reason table is in \<open>Reasons\<close>.

  Calendar arithmetic is the \<^verbatim>\<open>time\<close> package's, so the conversion of an instant to its UTC fields is a
  parameter (\<open>time_ops\<close>); the logging macros' filter and serde's JSON writer are parameters too.
\<close>

section \<open>Data\<close>

definition SCHEMA_VERSION :: ustring where "SCHEMA_VERSION = str ''1.0''"
definition AUDIT_TARGET :: ustring where "AUDIT_TARGET = str ''denbrowser_proxy::audit''"
definition RECORD_FIELD :: ustring where "RECORD_FIELD = str ''audit_record''"
definition MAX_DN_CHARS :: nat where "MAX_DN_CHARS = 1024"
definition MAX_HOST_CHARS :: nat where "MAX_HOST_CHARS = 256"
definition MAX_METHOD_CHARS :: nat where "MAX_METHOD_CHARS = 32"
definition MAX_NONCE_CHARS :: nat where "MAX_NONCE_CHARS = 64"

lemmas audit_caps = MAX_DN_CHARS_def MAX_HOST_CHARS_def MAX_METHOD_CHARS_def MAX_NONCE_CHARS_def

datatype action = Act_Forward | Act_Bypass | Act_Reject | Act_RateLimit | Act_Error

datatype outcome = Success | Failure

datatype attestation_status = AS_Verified | AS_Failed | AS_Bypassed | AS_Incomplete | AS_NotEvaluated

datatype machine_status = MS_Verified | MS_Failed | MS_Absent | MS_NotEvaluated | MS_Disabled

datatype binding = Binding_Bound | Binding_Unbound

datatype log_level = L_Error | L_Warn | L_Info | L_Debug | L_Trace

fun level_str :: "log_level \<Rightarrow> ustring" where
  "level_str L_Error = str ''ERROR''"
| "level_str L_Warn = str ''WARN''"
| "level_str L_Info = str ''INFO''"
| "level_str L_Debug = str ''DEBUG''"
| "level_str L_Trace = str ''TRACE''"

fun binding_of :: "body_binding \<Rightarrow> binding" where
  "binding_of (Hash _) = Binding_Bound"
| "binding_of Unbound = Binding_Unbound"

record audit_event =
  ev_kind :: ustring
  ev_action :: action
  ev_outcome :: outcome
  ev_stage :: "stage option"
  ev_reason :: "reason option"
  ev_risk :: risk
  ev_duration_ms :: nat

record endpoint =
  ep_ip :: "ip_addr option"
  ep_port :: "16 word option"

record client_fields =
  cf_address :: "ustring option"
  cf_ip :: "ip_addr option"
  cf_port :: "16 word option"

record machine_fields =
  mf_status :: machine_status
  mf_subject_dn :: "ustring option"
  mf_hostname :: "ustring option"
  mf_chain_verified :: bool

record attestation_fields =
  af_status :: attestation_status
  af_nonce :: "ustring option"
  af_client_timestamp :: "ustring option"
  af_body_binding :: "binding option"

text \<open>
  \<^verbatim>\<open>AuditRecord\<close>; the structs with a single field (\<^verbatim>\<open>ServerFields\<close>, \<^verbatim>\<open>TlsFields\<close>, the two of \<^verbatim>\<open>HttpFields\<close>)
  and \<^verbatim>\<open>TransferFields\<close> are inlined.
\<close>

record audit_record =
  ar_timestamp :: ustring
  ar_schema_version :: ustring
  ar_level :: ustring
  ar_logger :: ustring
  ar_event :: audit_event
  ar_message :: ustring
  ar_proxy :: endpoint
  ar_client :: client_fields
  ar_server_address :: "ustring option"
  ar_tls_client_subject :: "ustring option"
  ar_machine :: machine_fields
  ar_attestation :: attestation_fields
  ar_http_method :: "ustring option"
  ar_http_status_code :: "nat option"
  ar_request_body_bytes :: nat
  ar_response_body_bytes :: nat

definition endpoint_of :: "socket_addr option \<Rightarrow> endpoint" where
  "endpoint_of addr = \<lparr>ep_ip = map_option sa_ip addr, ep_port = map_option sa_port addr\<rparr>"

definition client_fields_of :: "socket_addr option \<Rightarrow> client_fields" where
  "client_fields_of addr =
     \<lparr>cf_address = map_option (\<lambda>a. ip_to_string (sa_ip a)) addr, cf_ip = map_option sa_ip addr,
      cf_port = map_option sa_port addr\<rparr>"

record connection =
  co_proxy :: "socket_addr option"
  co_client :: "socket_addr option"
  co_tls_client_subject :: "ustring option"
  co_status_code :: "nat option"
  co_request_body_bytes :: nat
  co_response_body_bytes :: nat

record request_audit =
  ra_started :: instant
  ra_action :: "action option"
  ra_reason :: "reason option"
  ra_message :: "ustring option"
  ra_method :: "ustring option"
  ra_host :: "ustring option"
  ra_attestation :: attestation_fields
  ra_token_verified :: bool
  ra_machine :: machine_fields
  ra_presented_machine_cert :: "ustring option"
  ra_response_body_bytes :: nat

section \<open>Timestamps and cuts\<close>

record utc_time =
  ut_year :: int
  ut_month :: nat
  ut_day :: nat
  ut_hour :: nat
  ut_minute :: nat
  ut_second :: nat
  ut_milli :: nat

text \<open>\<open>from_system\<close> takes the system time in nanoseconds since the epoch.\<close>

record time_ops =
  from_unix_timestamp :: "int \<Rightarrow> utc_time option"
  from_system :: "int \<Rightarrow> utc_time"

text \<open>\<^verbatim>\<open>{:04}\<close> of a signed year: the sign counts towards the width.\<close>

definition pad_year :: "int \<Rightarrow> ustring" where
  "pad_year y = (if y < 0 then 45 # zero_pad 3 (dec_nat (nat (- y))) else zero_pad 4 (dec_nat (nat y)))"

definition format_utc :: "utc_time \<Rightarrow> ustring" where
  "format_utc t =
     pad_year (ut_year t) @ [45] @ zero_pad 2 (dec_nat (ut_month t)) @ [45] @ zero_pad 2 (dec_nat (ut_day t)) @ [84] @
     zero_pad 2 (dec_nat (ut_hour t)) @ [58] @ zero_pad 2 (dec_nat (ut_minute t)) @ [58] @
     zero_pad 2 (dec_nat (ut_second t)) @ [46] @ zero_pad 3 (dec_nat (ut_milli t)) @ [90]"

definition audit_timestamp :: "time_ops \<Rightarrow> int \<Rightarrow> ustring" where
  "audit_timestamp tm now = format_utc (from_system tm now)"

definition MAX_ISO_UNIX_SECS :: int where "MAX_ISO_UNIX_SECS = 253402300799"

definition unix_timestamp :: "time_ops \<Rightarrow> int \<Rightarrow> ustring option" where
  "unix_timestamp tm secs =
     (if \<not> (0 \<le> secs \<and> secs \<le> MAX_ISO_UNIX_SECS) then None
      else map_option format_utc (from_unix_timestamp tm secs))"

text \<open>\<^verbatim>\<open>bounded\<close>: the ellipsis is U+2026.\<close>

definition bounded :: "ustring \<Rightarrow> nat \<Rightarrow> ustring" where
  "bounded s max_chars = (if length s \<le> max_chars then s else take max_chars s @ [8230])"

section \<open>Recording\<close>

definition ra_new :: "instant \<Rightarrow> bool \<Rightarrow> request_audit" where
  "ra_new now machine_identity_enabled =
     \<lparr>ra_started = now, ra_action = None, ra_reason = None, ra_message = None, ra_method = None, ra_host = None,
      ra_attestation = \<lparr>af_status = AS_NotEvaluated, af_nonce = None, af_client_timestamp = None, af_body_binding = None\<rparr>,
      ra_token_verified = False,
      ra_machine = \<lparr>mf_status = (if machine_identity_enabled then MS_NotEvaluated else MS_Disabled),
                    mf_subject_dn = None, mf_hostname = None, mf_chain_verified = False\<rparr>,
      ra_presented_machine_cert = None, ra_response_body_bytes = 0\<rparr>"

definition ra_request :: "ustring \<Rightarrow> ustring option \<Rightarrow> request_audit \<Rightarrow> request_audit" where
  "ra_request meth host ra =
     ra\<lparr>ra_method := Some (bounded meth MAX_METHOD_CHARS),
        ra_host := map_option (\<lambda>h. bounded h MAX_HOST_CHARS) host\<rparr>"

definition ra_attestation_headers ::
  "time_ops \<Rightarrow> ustring option \<Rightarrow> ustring option \<Rightarrow> request_audit \<Rightarrow> request_audit" where
  "ra_attestation_headers tm ts nonce ra =
     ra\<lparr>ra_attestation := (ra_attestation ra)
          \<lparr>af_nonce := map_option (\<lambda>n. bounded n MAX_NONCE_CHARS) nonce,
           af_client_timestamp :=
             Option.bind (Option.bind ts (\<lambda>t. parse_i64 (trim t))) (unix_timestamp tm)\<rparr>\<rparr>"

definition ra_machine_cert_presented :: "ustring \<Rightarrow> request_audit \<Rightarrow> request_audit" where
  "ra_machine_cert_presented cert_b64 ra = ra\<lparr>ra_presented_machine_cert := Some cert_b64\<rparr>"

definition ra_machine_absent :: "request_audit \<Rightarrow> request_audit" where
  "ra_machine_absent ra = ra\<lparr>ra_machine := (ra_machine ra)\<lparr>mf_status := MS_Absent\<rparr>\<rparr>"

definition ra_machine_verified :: "verified_machine \<Rightarrow> request_audit \<Rightarrow> request_audit" where
  "ra_machine_verified m ra =
     ra\<lparr>ra_machine := \<lparr>mf_status = MS_Verified, mf_subject_dn = Some (bounded (vm_subject_dn m) MAX_DN_CHARS),
                       mf_hostname = Some (vm_hostname m), mf_chain_verified = True\<rparr>,
        ra_presented_machine_cert := None\<rparr>"

definition ra_reject :: "reason \<Rightarrow> ustring \<Rightarrow> request_audit \<Rightarrow> request_audit" where
  "ra_reject r msg ra =
     ra\<lparr>ra_action := Some (if r = R_RateLimited then Act_RateLimit else Act_Reject),
        ra_reason := Some r,
        ra_message := Some msg,
        ra_attestation := (ra_attestation ra)
          \<lparr>af_status := (if is_attestation (reason_stage r) then AS_Failed
                         else if ra_token_verified ra then AS_Incomplete else AS_NotEvaluated)\<rparr>\<rparr>"

definition ra_machine_rejected :: "machine_error \<Rightarrow> request_audit \<Rightarrow> request_audit" where
  "ra_machine_rejected e ra =
     ra_reject (machine_error_reason e) (machine_error_display e)
       (ra\<lparr>ra_machine := (ra_machine ra)\<lparr>mf_status := MS_Failed, mf_chain_verified := chain_verified e\<rparr>\<rparr>)"

definition ra_token_passed :: "binding \<Rightarrow> request_audit \<Rightarrow> request_audit" where
  "ra_token_passed b ra =
     ra\<lparr>ra_token_verified := True,
        ra_attestation := (ra_attestation ra)\<lparr>af_body_binding := Some b\<rparr>\<rparr>"

definition ra_forward :: "request_audit \<Rightarrow> request_audit" where
  "ra_forward ra =
     ra\<lparr>ra_action := Some Act_Forward,
        ra_attestation := (ra_attestation ra)\<lparr>af_status := AS_Verified\<rparr>,
        ra_message := Some
          (if af_body_binding (ra_attestation ra) = Some Binding_Unbound
           then str ''attested upload forwarded; body streamed unbound (not hash-verified)''
           else str ''attested request forwarded'')\<rparr>"

definition ra_bypass :: "ustring \<Rightarrow> request_audit \<Rightarrow> request_audit" where
  "ra_bypass subject ra =
     ra\<lparr>ra_action := Some Act_Bypass,
        ra_attestation := (ra_attestation ra)\<lparr>af_status := AS_Bypassed\<rparr>,
        ra_message := Some
          (str ''attestation bypassed for allowlisted client certificate subject '' @ bounded subject MAX_DN_CHARS)\<rparr>"

definition ra_response_body :: "nat \<Rightarrow> request_audit \<Rightarrow> request_audit" where
  "ra_response_body len ra =
     ra\<lparr>ra_response_body_bytes := min u64_max (ra_response_body_bytes ra + len)\<rparr>"

section \<open>The record\<close>

definition ra_outcome :: "request_audit \<Rightarrow> bool \<Rightarrow> outcome" where
  "ra_outcome ra failed =
     (if (ra_action ra = Some Act_Forward \<or> ra_action ra = Some Act_Bypass) \<and> \<not> failed then Success else Failure)"

definition ra_level :: "request_audit \<Rightarrow> bool \<Rightarrow> log_level" where
  "ra_level ra failed = (case ra_outcome ra failed of Success \<Rightarrow> L_Info | Failure \<Rightarrow> L_Warn)"

text \<open>
  \<^verbatim>\<open>RequestAudit::record\<close>: the error it works with, the state after the error and the certificate's
  name are filled in, and the record.
\<close>

definition terminal_error :: "request_audit \<Rightarrow> (reason \<times> ustring) option \<Rightarrow> (reason \<times> ustring) option" where
  "terminal_error ra err =
     (if ra_action ra = None \<and> err = None
      then Some (R_InternalError, str ''request ended before an access decision was recorded'')
      else err)"

definition apply_error :: "(reason \<times> ustring) option \<Rightarrow> request_audit \<Rightarrow> request_audit" where
  "apply_error err ra =
     (case err of
        Some (r, msg) \<Rightarrow>
          if ra_action ra = None \<or> ra_action ra = Some Act_Forward \<or> ra_action ra = Some Act_Bypass
          then ra\<lparr>ra_action := (case ra_action ra of None \<Rightarrow> Some Act_Error | Some a \<Rightarrow> Some a),
                  ra_reason := Some r, ra_message := Some msg\<rparr>
          else ra
      | None \<Rightarrow> ra)"

definition fill_machine_dn :: "('x, 'b, 's) openssl_ops \<Rightarrow> request_audit \<Rightarrow> request_audit" where
  "fill_machine_dn os ra =
     (if mf_subject_dn (ra_machine ra) = None then
        (case ra_presented_machine_cert ra of
           Some cert \<Rightarrow>
             ra\<lparr>ra_presented_machine_cert := None,
                ra_machine := (ra_machine ra)
                  \<lparr>mf_subject_dn := map_option (\<lambda>dn. bounded dn MAX_DN_CHARS) (presented_subject_dn os cert)\<rparr>\<rparr>
         | None \<Rightarrow> ra)
      else ra)"

definition ra_record ::
  "('x, 'b, 's) openssl_ops \<Rightarrow> connection \<Rightarrow> (reason \<times> ustring) option \<Rightarrow> ustring \<Rightarrow> nat \<Rightarrow> request_audit
   \<Rightarrow> audit_record" where
  "ra_record os conn err0 ts duration_ms ra0 =
     (let err = terminal_error ra0 err0; failed = (err \<noteq> None);
          level = ra_level ra0 failed; out = ra_outcome ra0 failed;
          ra = fill_machine_dn os (apply_error err ra0) in
      \<lparr>ar_timestamp = ts, ar_schema_version = SCHEMA_VERSION, ar_level = level_str level, ar_logger = AUDIT_TARGET,
       ar_event = \<lparr>ev_kind = str ''audit'',
                   ev_action = (case ra_action ra of Some a \<Rightarrow> a | None \<Rightarrow> Act_Error),
                   ev_outcome = out,
                   ev_stage = map_option reason_stage (ra_reason ra),
                   ev_reason = ra_reason ra,
                   ev_risk = (case ra_reason ra of None \<Rightarrow> Risk_Info | Some r \<Rightarrow> reason_risk r),
                   ev_duration_ms = duration_ms\<rparr>,
       ar_message = (case ra_message ra of Some m \<Rightarrow> m | None \<Rightarrow> []),
       ar_proxy = endpoint_of (co_proxy conn),
       ar_client = client_fields_of (co_client conn),
       ar_server_address = ra_host ra,
       ar_tls_client_subject = map_option (\<lambda>dn. bounded dn MAX_DN_CHARS) (co_tls_client_subject conn),
       ar_machine = ra_machine ra,
       ar_attestation = ra_attestation ra,
       ar_http_method = ra_method ra,
       ar_http_status_code = co_status_code conn,
       ar_request_body_bytes = co_request_body_bytes conn,
       ar_response_body_bytes = co_response_body_bytes conn\<rparr>)"

text \<open>\<^verbatim>\<open>finish\<close> and \<^verbatim>\<open>emit\<close>: what reaches the log as an audit event, if its level passes the filter.\<close>

datatype log_event = Audit_Line log_level ustring | Serialize_Failed ustring

definition emit :: "(audit_record \<Rightarrow> ustring + ustring) \<Rightarrow> log_level \<Rightarrow> audit_record \<Rightarrow> log_event" where
  "emit to_json level rec =
     (case to_json rec of
        Inr line \<Rightarrow> Audit_Line (if level = L_Info then L_Info else L_Warn) line
      | Inl e \<Rightarrow> Serialize_Failed e)"

definition duration_millis :: "instant \<Rightarrow> instant \<Rightarrow> nat" where
  "duration_millis now started = min u64_max ((now - started) div 1000000)"

definition ra_finish ::
  "('x, 'b, 's) openssl_ops \<Rightarrow> time_ops \<Rightarrow> (log_level \<Rightarrow> bool) \<Rightarrow> (audit_record \<Rightarrow> ustring + ustring)
   \<Rightarrow> instant \<Rightarrow> int \<Rightarrow> connection \<Rightarrow> (reason \<times> ustring) option \<Rightarrow> request_audit \<Rightarrow> log_event option" where
  "ra_finish os tm enabled to_json now wall conn err ra =
     (let level = ra_level ra (err \<noteq> None) in
      if \<not> enabled (if level = L_Info then L_Info else L_Warn) then None
      else Some (emit to_json level
             (ra_record os conn err (audit_timestamp tm wall) (duration_millis now (ra_started ra)) ra)))"

text \<open>\<^verbatim>\<open>classify_proxy_error\<close>, on the parts of pingora's error it reads.\<close>

datatype error_source = Upstream | Downstream | Internal | Unset

datatype error_type = InvalidHTTPHeader | OtherErrorType ustring

record proxy_error =
  pe_source :: error_source
  pe_type :: error_type

fun error_type_str :: "error_type \<Rightarrow> ustring" where
  "error_type_str InvalidHTTPHeader = str ''InvalidHTTPHeader''"
| "error_type_str (OtherErrorType s) = s"

definition classify_proxy_error :: "proxy_error \<Rightarrow> reason \<times> ustring" where
  "classify_proxy_error e =
     (let (r, side) =
        (case pe_source e of
           Upstream \<Rightarrow> (R_UpstreamError, str ''upstream'')
         | Downstream \<Rightarrow>
             if pe_type e = InvalidHTTPHeader then (R_RequestMalformed, str ''malformed request'')
             else (R_DownstreamError, str ''client connection'')
         | Internal \<Rightarrow> (R_InternalError, str ''internal'')
         | Unset \<Rightarrow> (R_InternalError, str ''internal''))
      in (r, side @ str '' error: '' @ error_type_str (pe_type e)))"

section \<open>Timestamps sort in time order\<close>

text \<open>The range the UTC fields of an instant have, and the pattern the log's schema gives timestamps.\<close>

definition utc_ok :: "utc_time \<Rightarrow> bool" where
  "utc_ok t \<longleftrightarrow> 0 \<le> ut_year t \<and> ut_year t \<le> 9999 \<and> ut_month t \<le> 12 \<and> ut_day t \<le> 31 \<and>
     ut_hour t \<le> 23 \<and> ut_minute t \<le> 59 \<and> ut_second t \<le> 59 \<and> ut_milli t \<le> 999"

definition utc_key :: "utc_time \<Rightarrow> nat list" where
  "utc_key t = [nat (ut_year t), ut_month t, ut_day t, ut_hour t, ut_minute t, ut_second t, ut_milli t]"

definition iso_pattern :: "ustring \<Rightarrow> bool" where
  "iso_pattern s \<longleftrightarrow>
     list_all2 (\<lambda>p c. if p = 48 then is_digit c else c = p) (str ''0000-00-00T00:00:00.000Z'') s"

definition calendar_range :: "time_ops \<Rightarrow> bool" where
  "calendar_range tm \<longleftrightarrow>
     (\<forall>secs t. 0 \<le> secs \<and> secs \<le> MAX_ISO_UNIX_SECS \<and> from_unix_timestamp tm secs = Some t \<longrightarrow> utc_ok t)"

text \<open>Byte order of strings, as log tools compare them.\<close>

fun lex_less :: "nat list \<Rightarrow> nat list \<Rightarrow> bool" where
  "lex_less [] ys \<longleftrightarrow> ys \<noteq> []"
| "lex_less (x # xs) [] \<longleftrightarrow> False"
| "lex_less (x # xs) (y # ys) \<longleftrightarrow> x < y \<or> x = y \<and> lex_less xs ys"

lemma lex_less_append:
  "length a = length b \<Longrightarrow> lex_less (a @ x) (b @ y) \<longleftrightarrow> lex_less a b \<or> a = b \<and> lex_less x y"
  by (induction a b rule: list_induct2) auto

lemma lex_less_irrefl [simp]: "\<not> lex_less a a"
  by (induction a) auto

text \<open>The \<open>w\<close> last decimal digits, the closed form of zero padding.\<close>

fun pad_digits :: "nat \<Rightarrow> nat \<Rightarrow> ustring" where
  "pad_digits 0 n = []"
| "pad_digits (Suc w) n = pad_digits w (n div 10) @ [48 + n mod 10]"

lemma length_pad_digits [simp]: "length (pad_digits w n) = w"
  by (induction w arbitrary: n) auto

lemma pad_digits_digit: "c \<in> set (pad_digits w n) \<Longrightarrow> is_digit c"
  by (induction w arbitrary: n) (auto simp: is_digit_def)

lemma pad_digits_zero: "pad_digits w 0 = replicate w 48"
  by (induction w) (auto simp: replicate_append_same)

lemma digit_char_small: "d < 10 \<Longrightarrow> digit_char d = 48 + d"
  by (simp add: digit_char_def)

lemma zero_pad_digits: "n < 10 ^ w \<Longrightarrow> 0 < w \<Longrightarrow> zero_pad w (dec_nat n) = pad_digits w n"
proof (induction w arbitrary: n)
  case (Suc w)
  show ?case
  proof (cases "n < 10")
    case True
    then show ?thesis
      by (simp add: zero_pad_def dec_nat_def print_radix.simps [of 10 n] digit_char_small pad_digits_zero)
  next
    case False
    then have w: "0 < w" using Suc.prems(1) by (cases w) auto
    have "n div 10 < 10 ^ w" using Suc.prems(1) by (simp add: less_mult_imp_div_less)
    from Suc.IH [OF this w] show ?thesis
      using False by (simp add: zero_pad_def dec_nat_def print_radix.simps [of 10 n] digit_char_small)
  qed
qed simp

lemma less_by_digit: "b < 10 \<Longrightarrow> d < 10 \<Longrightarrow> a * 10 + b < c * 10 + d \<longleftrightarrow> a < c \<or> a = c \<and> b < (d :: nat)"
  by (cases a c rule: linorder_cases) auto

lemma pad_digits_less:
  "m < 10 ^ w \<Longrightarrow> n < 10 ^ w \<Longrightarrow> (lex_less (pad_digits w m) (pad_digits w n) \<longleftrightarrow> m < n) \<and>
     (pad_digits w m = pad_digits w n \<longleftrightarrow> m = n)"
proof (induction w arbitrary: m n)
  case (Suc w)
  then have "m div 10 < 10 ^ w" "n div 10 < 10 ^ w" by (simp_all add: less_mult_imp_div_less)
  note IH = Suc.IH [OF this]
  have "m = n \<longleftrightarrow> m div 10 = n div 10 \<and> m mod 10 = n mod 10" by (metis div_mult_mod_eq)
  moreover have "m < n \<longleftrightarrow> m div 10 < n div 10 \<or> m div 10 = n div 10 \<and> m mod 10 < n mod 10"
    using less_by_digit [of "m mod 10" "n mod 10" "m div 10" "n div 10"] by (simp add: div_mult_mod_eq)
  ultimately show ?case using IH by (auto simp: lex_less_append)
qed simp

lemma format_utc_digits:
  assumes "utc_ok t"
  shows "format_utc t =
    pad_digits 4 (nat (ut_year t)) @ [45] @ pad_digits 2 (ut_month t) @ [45] @ pad_digits 2 (ut_day t) @ [84] @
    pad_digits 2 (ut_hour t) @ [58] @ pad_digits 2 (ut_minute t) @ [58] @ pad_digits 2 (ut_second t) @ [46] @
    pad_digits 3 (ut_milli t) @ [90]"
proof -
  have "nat (ut_year t) < 10 ^ 4" "ut_month t < 10 ^ 2" "ut_day t < 10 ^ 2" "ut_hour t < 10 ^ 2"
    "ut_minute t < 10 ^ 2" "ut_second t < 10 ^ 2" "ut_milli t < 10 ^ 3" "\<not> ut_year t < 0"
    using assms by (auto simp: utc_ok_def)
  then show ?thesis by (simp add: format_utc_def pad_year_def zero_pad_digits)
qed

lemma pad_digits_pattern:
  "list_all2 (\<lambda>p c. if p = 48 then is_digit c else c = p) (replicate w 48) (pad_digits w n)"
  by (auto simp: list_all2_conv_all_nth intro!: pad_digits_digit [of _ w n] nth_mem)

lemma format_utc_pattern: "utc_ok t \<Longrightarrow> iso_pattern (format_utc t)"
proof -
  assume "utc_ok t"
  have p: "str ''0000-00-00T00:00:00.000Z'' =
      replicate 4 48 @ [45] @ replicate 2 48 @ [45] @ replicate 2 48 @ [84] @ replicate 2 48 @ [58] @
      replicate 2 48 @ [58] @ replicate 2 48 @ [46] @ replicate 3 48 @ [90]"
    by (simp add: str_def numeral_eq_Suc)
  show ?thesis
    unfolding iso_pattern_def format_utc_digits [OF \<open>utc_ok t\<close>] p
    by (intro list_all2_appendI pad_digits_pattern) simp_all
qed

text \<open>
  C38. The timestamps of the log are fixed width and sort as text in time order: for instants in the
  range of a four-digit year, the byte order of the two strings is the order of their UTC fields from
  the year down to the millisecond, equal strings mean equal fields, and each matches the pattern of
  the log's schema.
\<close>

theorem format_utc_order:
  assumes "utc_ok a" "utc_ok b"
  shows "(lex_less (format_utc a) (format_utc b) \<longleftrightarrow> lex_less (utc_key a) (utc_key b)) \<and>
    (format_utc a = format_utc b \<longleftrightarrow> utc_key a = utc_key b) \<and> iso_pattern (format_utc a)"
proof -
  note d = pad_digits_less [THEN conjunct1] pad_digits_less [THEN conjunct2]
  have 1: "nat (ut_year a) < 10 ^ 4" "ut_month a < 10 ^ 2" "ut_day a < 10 ^ 2" "ut_hour a < 10 ^ 2"
    "ut_minute a < 10 ^ 2" "ut_second a < 10 ^ 2" "ut_milli a < 10 ^ 3"
    "nat (ut_year b) < 10 ^ 4" "ut_month b < 10 ^ 2" "ut_day b < 10 ^ 2" "ut_hour b < 10 ^ 2"
    "ut_minute b < 10 ^ 2" "ut_second b < 10 ^ 2" "ut_milli b < 10 ^ 3"
    using assms by (auto simp: utc_ok_def)
  show ?thesis
    unfolding format_utc_digits [OF assms(1)] format_utc_digits [OF assms(2)] utc_key_def
    using format_utc_pattern [OF assms(1), unfolded format_utc_digits [OF assms(1)]] 1
    by (simp add: lex_less_append d)
qed

definition epoch :: utc_time where
  "epoch = \<lparr>ut_year = 1970, ut_month = 1, ut_day = 1, ut_hour = 0, ut_minute = 0, ut_second = 0, ut_milli = 0\<rparr>"

theorem format_utc_order_witness:
  "lex_less (format_utc epoch) (format_utc (epoch\<lparr>ut_milli := 10\<rparr>)) \<and>
   lex_less (format_utc (epoch\<lparr>ut_milli := 10\<rparr>)) (format_utc (epoch\<lparr>ut_year := 2026\<rparr>))"
  using format_utc_order [of epoch "epoch\<lparr>ut_milli := 10\<rparr>"]
    format_utc_order [of "epoch\<lparr>ut_milli := 10\<rparr>" "epoch\<lparr>ut_year := 2026\<rparr>"]
  by (simp add: epoch_def utc_ok_def utc_key_def)

section \<open>The life of a request's audit state\<close>

context audited_error
begin

lemma reject_decision:
  "ra_action (ra_reject (err_reason e) (err_message e) ra) = Some Act_Reject \<and>
   ra_reason (ra_reject (err_reason e) (err_message e) ra) = Some (err_reason e)"
  by (simp add: ra_reject_def not_rate_limited)

end

text \<open>
  The operations in the order the pipeline may use them: every decision is taken at most once, and a
  request counts as forwarded only after its token passed and its nonce was recorded.
\<close>

inductive audit_step :: "request_audit \<Rightarrow> request_audit \<Rightarrow> bool" where
  request: "ra_action ra = None \<Longrightarrow> audit_step ra (ra_request meth host ra)"
| headers: "ra_action ra = None \<Longrightarrow> calendar_range tm \<Longrightarrow> audit_step ra (ra_attestation_headers tm ts nonce ra)"
| cert: "ra_action ra = None \<Longrightarrow> audit_step ra (ra_machine_cert_presented c ra)"
| absent: "ra_action ra = None \<Longrightarrow> mf_status (ra_machine ra) \<noteq> MS_Verified \<Longrightarrow> audit_step ra (ra_machine_absent ra)"
| machine_ok: "ra_action ra = None \<Longrightarrow> audit_step ra (ra_machine_verified m ra)"
| machine_no: "ra_action ra = None \<Longrightarrow> mf_status (ra_machine ra) \<noteq> MS_Verified \<Longrightarrow>
    audit_step ra (ra_machine_rejected e ra)"
| token: "ra_action ra = None \<Longrightarrow> audit_step ra (ra_token_passed b ra)"
| reject: "ra_action ra = None \<Longrightarrow> audit_step ra (ra_reject r msg ra)"
| forward: "ra_action ra = None \<Longrightarrow> ra_token_verified ra \<Longrightarrow> af_nonce (ra_attestation ra) \<noteq> None \<Longrightarrow>
    audit_step ra (ra_forward ra)"
| bypass: "ra_action ra = None \<Longrightarrow> audit_step ra (ra_bypass subject ra)"
| body: "audit_step ra (ra_response_body n ra)"

inductive audit_reachable :: "request_audit \<Rightarrow> bool" where
  fresh: "audit_reachable (ra_new now enabled)"
| step: "audit_reachable ra \<Longrightarrow> audit_step ra ra' \<Longrightarrow> audit_reachable ra'"

lemmas audit_op_defs = ra_request_def ra_attestation_headers_def ra_machine_cert_presented_def
  ra_machine_absent_def ra_machine_verified_def ra_machine_rejected_def ra_token_passed_def ra_reject_def
  ra_forward_def ra_bypass_def ra_response_body_def

text \<open>What every state of a request satisfies, in four parts.\<close>

definition decision_inv :: "request_audit \<Rightarrow> bool" where
  "decision_inv ra \<longleftrightarrow>
     (case ra_action ra of
        None \<Rightarrow> ra_reason ra = None \<and> af_status (ra_attestation ra) = AS_NotEvaluated
      | Some Act_Forward \<Rightarrow> ra_reason ra = None \<and> af_status (ra_attestation ra) = AS_Verified \<and>
          ra_token_verified ra \<and> af_nonce (ra_attestation ra) \<noteq> None
      | Some Act_Bypass \<Rightarrow> ra_reason ra = None \<and> af_status (ra_attestation ra) = AS_Bypassed
      | Some Act_Reject \<Rightarrow> (\<exists>r. ra_reason ra = Some r \<and> r \<noteq> R_RateLimited \<and>
          af_status (ra_attestation ra) = (if is_attestation (reason_stage r) then AS_Failed
            else if ra_token_verified ra then AS_Incomplete else AS_NotEvaluated))
      | Some Act_RateLimit \<Rightarrow> ra_reason ra = Some R_RateLimited \<and>
          af_status (ra_attestation ra) = (if ra_token_verified ra then AS_Incomplete else AS_NotEvaluated)
      | Some Act_Error \<Rightarrow> False)"

definition token_inv :: "request_audit \<Rightarrow> bool" where
  "token_inv ra \<longleftrightarrow> (ra_token_verified ra \<longleftrightarrow> af_body_binding (ra_attestation ra) \<noteq> None)"

definition machine_inv :: "request_audit \<Rightarrow> bool" where
  "machine_inv ra \<longleftrightarrow>
     (let m = ra_machine ra in
      if mf_status m = MS_Verified then mf_subject_dn m \<noteq> None \<and> mf_hostname m \<noteq> None \<and> mf_chain_verified m
      else mf_subject_dn m = None \<and> mf_hostname m = None \<and>
        (if mf_status m = MS_Failed
         then \<exists>e. ra_reason ra = Some (machine_error_reason e) \<and> ra_action ra = Some Act_Reject \<and>
                 (mf_chain_verified m \<longleftrightarrow> chain_verified e)
         else \<not> mf_chain_verified m))"

definition short :: "nat \<Rightarrow> ustring option \<Rightarrow> bool" where
  "short n s \<longleftrightarrow> (case s of None \<Rightarrow> True | Some t \<Rightarrow> length t \<le> Suc n)"

definition iso_or_null :: "ustring option \<Rightarrow> bool" where
  "iso_or_null s \<longleftrightarrow> (case s of None \<Rightarrow> True | Some t \<Rightarrow> iso_pattern t)"

definition bounds_inv :: "request_audit \<Rightarrow> bool" where
  "bounds_inv ra \<longleftrightarrow>
     short MAX_METHOD_CHARS (ra_method ra) \<and> short MAX_HOST_CHARS (ra_host ra) \<and>
     short MAX_NONCE_CHARS (af_nonce (ra_attestation ra)) \<and>
     short MAX_DN_CHARS (mf_subject_dn (ra_machine ra)) \<and>
     iso_or_null (af_client_timestamp (ra_attestation ra)) \<and> ra_response_body_bytes ra \<le> u64_max"

definition audit_inv :: "request_audit \<Rightarrow> bool" where
  "audit_inv ra \<longleftrightarrow> decision_inv ra \<and> token_inv ra \<and> machine_inv ra \<and> bounds_inv ra"

lemma bounded_length [simp]: "length (bounded s n) \<le> Suc n"
  by (simp add: bounded_def)

lemma short_bounded [simp]: "short n (map_option (\<lambda>s. bounded s n) s)" "short n (Some (bounded t n))" "short n None"
  by (simp_all add: short_def split: option.splits)

lemma iso_client_timestamp:
  "calendar_range tm \<Longrightarrow> iso_or_null (Option.bind s (unix_timestamp tm))"
  by (auto simp: iso_or_null_def unix_timestamp_def calendar_range_def bind_eq_Some_conv format_utc_pattern
      split: option.splits if_splits)

lemma decision_inv_step: "audit_step ra ra' \<Longrightarrow> decision_inv ra \<Longrightarrow> decision_inv ra'"
  by (induction rule: audit_step.induct)
    (auto simp: decision_inv_def audit_op_defs is_attestation_def machine_err.not_rate_limited
      split: option.splits action.splits)

lemma token_inv_step: "audit_step ra ra' \<Longrightarrow> token_inv ra \<Longrightarrow> token_inv ra'"
  by (induction rule: audit_step.induct) (auto simp: token_inv_def audit_op_defs)

lemma machine_inv_step: "audit_step ra ra' \<Longrightarrow> machine_inv ra \<Longrightarrow> machine_inv ra'"
  by (induction rule: audit_step.induct)
    (auto simp: machine_inv_def audit_op_defs Let_def machine_err.not_rate_limited split: if_splits)

lemma bounds_inv_step: "audit_step ra ra' \<Longrightarrow> bounds_inv ra \<Longrightarrow> bounds_inv ra'"
  by (induction rule: audit_step.induct) (auto simp: bounds_inv_def audit_op_defs iso_client_timestamp simp del: bind_assoc)

lemma audit_inv_step: "audit_step ra ra' \<Longrightarrow> audit_inv ra \<Longrightarrow> audit_inv ra'"
  by (simp add: audit_inv_def decision_inv_step token_inv_step machine_inv_step bounds_inv_step)

lemma audit_inv_new: "audit_inv (ra_new now enabled)"
  by (simp add: audit_inv_def decision_inv_def token_inv_def machine_inv_def bounds_inv_def ra_new_def Let_def
      iso_or_null_def)

lemma audit_reachable_inv: "audit_reachable ra \<Longrightarrow> audit_inv ra"
  by (induction rule: audit_reachable.induct) (auto intro: audit_inv_new audit_inv_step)

section \<open>The record fits the published schema\<close>

text \<open>
  The conditions of \<^verbatim>\<open>src/proxy/audit/audit-log.schema.json\<close> on an audit record: the constants, the
  timestamp pattern, the conditional rules on outcome, machine and attestation, and the sentences its
  descriptions promise (stage and risk are the reason's own, \<^verbatim>\<open>chain_verified\<close> is set for a verified
  machine and the two forward-DNS failures, an attestation failure is one whose stage is an
  attestation stage, \<^verbatim>\<open>client.address\<close> and \<^verbatim>\<open>client.ip\<close> agree, the length cuts).
\<close>

definition schema_ok :: "audit_record \<Rightarrow> bool" where
  "schema_ok r \<longleftrightarrow>
     (let ev = ar_event r; m = ar_machine r; a = ar_attestation r in
      ar_schema_version r = str ''1.0'' \<and> ar_logger r = str ''denbrowser_proxy::audit'' \<and> ev_kind ev = str ''audit'' \<and>
      iso_pattern (ar_timestamp r) \<and> iso_or_null (af_client_timestamp a) \<and>
      (if ev_outcome ev = Success
       then ar_level r = str ''INFO'' \<and> ev_action ev \<in> {Act_Forward, Act_Bypass} \<and> ev_stage ev = None \<and>
         ev_reason ev = None \<and> ev_risk ev = Risk_Info
       else ar_level r = str ''WARN'' \<and> ev_reason ev \<noteq> None \<and> ev_risk ev \<noteq> Risk_Info) \<and>
      ev_stage ev = map_option reason_stage (ev_reason ev) \<and>
      (\<forall>rs. ev_reason ev = Some rs \<longrightarrow> ev_risk ev = reason_risk rs) \<and>
      (if mf_status m = MS_Verified then mf_subject_dn m \<noteq> None \<and> mf_hostname m \<noteq> None \<and> mf_chain_verified m
       else mf_hostname m = None) \<and>
      (mf_chain_verified m \<longleftrightarrow> mf_status m = MS_Verified \<or>
         mf_status m = MS_Failed \<and> ev_reason ev \<in> {Some R_MachineHostnameUnresolvable, Some R_MachineAddressMismatch}) \<and>
      (af_status a = AS_Verified \<longrightarrow> af_nonce a \<noteq> None \<and> af_body_binding a \<noteq> None) \<and>
      (af_status a = AS_Failed \<longleftrightarrow> (\<exists>st. ev_stage ev = Some st \<and> is_attestation st)) \<and>
      cf_address (ar_client r) = map_option ip_to_string (cf_ip (ar_client r)) \<and>
      short 1024 (mf_subject_dn m) \<and> short 1024 (ar_tls_client_subject r) \<and> short 256 (ar_server_address r) \<and>
      short 64 (af_nonce a))"

lemma classify_not_attestation: "\<not> is_attestation (reason_stage (fst (classify_proxy_error e)))"
  by (cases "pe_source e") (auto simp: classify_proxy_error_def is_attestation_def)

lemma chain_verified_reason:
  "chain_verified e \<longleftrightarrow> machine_error_reason e \<in> {R_MachineHostnameUnresolvable, R_MachineAddressMismatch}"
  by (cases e) simp_all

lemma fill_machine_dn_frame [simp]:
  "ra_action (fill_machine_dn os ra) = ra_action ra" "ra_reason (fill_machine_dn os ra) = ra_reason ra"
  "ra_attestation (fill_machine_dn os ra) = ra_attestation ra" "ra_host (fill_machine_dn os ra) = ra_host ra"
  "ra_method (fill_machine_dn os ra) = ra_method ra" "ra_message (fill_machine_dn os ra) = ra_message ra"
  "mf_status (ra_machine (fill_machine_dn os ra)) = mf_status (ra_machine ra)"
  "mf_hostname (ra_machine (fill_machine_dn os ra)) = mf_hostname (ra_machine ra)"
  "mf_chain_verified (ra_machine (fill_machine_dn os ra)) = mf_chain_verified (ra_machine ra)"
  by (simp_all add: fill_machine_dn_def split: option.splits)

lemma fill_machine_dn_kept:
  "mf_subject_dn (ra_machine ra) \<noteq> None \<Longrightarrow> mf_subject_dn (ra_machine (fill_machine_dn os ra)) \<noteq> None"
  "short MAX_DN_CHARS (mf_subject_dn (ra_machine ra)) \<Longrightarrow>
     short MAX_DN_CHARS (mf_subject_dn (ra_machine (fill_machine_dn os ra)))"
  by (auto simp: fill_machine_dn_def split: option.splits)

lemma apply_error_frame [simp]:
  "ra_attestation (apply_error e ra) = ra_attestation ra" "ra_machine (apply_error e ra) = ra_machine ra"
  "ra_host (apply_error e ra) = ra_host ra" "ra_method (apply_error e ra) = ra_method ra"
  by (simp_all add: apply_error_def split: option.splits)

lemma no_Some_pair: "(\<forall>a b. x \<noteq> Some (a, b)) \<longleftrightarrow> x = None"
  by (cases x) auto

text \<open>The event part of a record, by the decision taken.\<close>

lemma record_event:
  assumes "decision_inv ra"
  shows "ev_reason (ar_event (ra_record os conn err ts ms ra)) =
      (case ra_reason ra of
         Some r \<Rightarrow> Some r
       | None \<Rightarrow> map_option fst (terminal_error ra err))"
    and "ev_outcome (ar_event (ra_record os conn err ts ms ra)) = Success \<longleftrightarrow>
      ra_reason ra = None \<and> terminal_error ra err = None"
    and "ar_level (ra_record os conn err ts ms ra) =
      (if ra_reason ra = None \<and> terminal_error ra err = None then str ''INFO'' else str ''WARN'')"
    and "ra_reason ra = None \<and> terminal_error ra err = None \<Longrightarrow>
      ev_action (ar_event (ra_record os conn err ts ms ra)) \<in> {Act_Forward, Act_Bypass}"
  using assms
  by (auto simp: no_Some_pair decision_inv_def ra_record_def Let_def terminal_error_def apply_error_def ra_outcome_def ra_level_def
      split: option.splits action.splits if_splits)

lemma record_parts:
  "ar_machine (ra_record os conn err ts ms ra) = ra_machine (fill_machine_dn os (apply_error (terminal_error ra err) ra))"
  "ar_attestation (ra_record os conn err ts ms ra) = ra_attestation ra"
  "ar_timestamp (ra_record os conn err ts ms ra) = ts"
  "ar_schema_version (ra_record os conn err ts ms ra) = SCHEMA_VERSION"
  "ar_logger (ra_record os conn err ts ms ra) = AUDIT_TARGET"
  "ev_kind (ar_event (ra_record os conn err ts ms ra)) = str ''audit''"
  "ev_stage (ar_event (ra_record os conn err ts ms ra)) =
     map_option reason_stage (ev_reason (ar_event (ra_record os conn err ts ms ra)))"
  "ev_risk (ar_event (ra_record os conn err ts ms ra)) =
     (case ev_reason (ar_event (ra_record os conn err ts ms ra)) of None \<Rightarrow> Risk_Info | Some r \<Rightarrow> reason_risk r)"
  "ar_client (ra_record os conn err ts ms ra) = client_fields_of (co_client conn)"
  "ar_server_address (ra_record os conn err ts ms ra) = ra_host ra"
  "ar_http_method (ra_record os conn err ts ms ra) = ra_method ra"
  "ar_tls_client_subject (ra_record os conn err ts ms ra) =
     map_option (\<lambda>dn. bounded dn MAX_DN_CHARS) (co_tls_client_subject conn)"
  by (simp_all add: ra_record_def Let_def)

lemma record_machine:
  fixes os :: "('x, 'b, 's) openssl_ops" and err :: "(reason \<times> ustring) option"
  assumes "audit_inv ra"
  defines "m \<equiv> ra_machine (fill_machine_dn os (apply_error err ra))"
  shows "if mf_status m = MS_Verified then mf_subject_dn m \<noteq> None \<and> mf_hostname m \<noteq> None \<and> mf_chain_verified m
       else mf_hostname m = None"
    and "mf_chain_verified m \<longleftrightarrow> mf_status m = MS_Verified \<or> mf_status m = MS_Failed \<and>
       ra_reason ra \<in> {Some R_MachineHostnameUnresolvable, Some R_MachineAddressMismatch}"
    and "mf_status m = MS_Failed \<Longrightarrow> ra_reason ra \<noteq> None"
    and "short MAX_DN_CHARS (mf_subject_dn m)"
proof -
  have mi: "machine_inv ra" and b: "bounds_inv ra" using assms(1) by (simp_all add: audit_inv_def)
  show "if mf_status m = MS_Verified then mf_subject_dn m \<noteq> None \<and> mf_hostname m \<noteq> None \<and> mf_chain_verified m
       else mf_hostname m = None"
    using mi by (auto simp: m_def machine_inv_def Let_def fill_machine_dn_kept split: if_splits)
  show "mf_chain_verified m \<longleftrightarrow> mf_status m = MS_Verified \<or> mf_status m = MS_Failed \<and>
       ra_reason ra \<in> {Some R_MachineHostnameUnresolvable, Some R_MachineAddressMismatch}"
    using mi by (auto simp: m_def machine_inv_def Let_def chain_verified_reason split: if_splits)
  show "mf_status m = MS_Failed \<Longrightarrow> ra_reason ra \<noteq> None"
    using mi by (auto simp: m_def machine_inv_def Let_def)
  show "short MAX_DN_CHARS (mf_subject_dn m)"
    using b by (simp add: m_def fill_machine_dn_kept bounds_inv_def)
qed

lemma audit_record_schema_helper:
  assumes "audit_reachable ra" "iso_pattern ts"
  shows "schema_ok (ra_record os conn (map_option classify_proxy_error perr) ts ms ra)"
proof -
  let ?err = "map_option classify_proxy_error perr"
  have inv: "audit_inv ra" using assms(1) by (rule audit_reachable_inv)
  then have d: "decision_inv ra" and t: "token_inv ra" and b: "bounds_inv ra" by (simp_all add: audit_inv_def)
  note ev = record_event [OF d, where os = os and conn = conn and err = ?err and ts = ts and ms = ms] and m = record_machine [OF inv, where os = os and err = "terminal_error ra ?err"]
  have na: "terminal_error ra ?err = Some (r, msg) \<Longrightarrow> \<not> is_attestation (reason_stage r)" for r msg
    using classify_not_attestation by (auto simp: terminal_error_def is_attestation_def split: if_splits) (metis fst_conv)+
  have att: "af_status (ra_attestation ra) = AS_Failed \<longleftrightarrow>
      (\<exists>r. ev_reason (ar_event (ra_record os conn ?err ts ms ra)) = Some r \<and> is_attestation (reason_stage r))"
    using d na unfolding ev(1)
    by (auto simp: decision_inv_def is_attestation_def split: option.splits action.splits if_splits)
  have ver: "af_status (ra_attestation ra) = AS_Verified \<Longrightarrow>
      af_nonce (ra_attestation ra) \<noteq> None \<and> af_body_binding (ra_attestation ra) \<noteq> None"
    using d t by (auto simp: decision_inv_def token_inv_def split: option.splits action.splits if_splits)
  have reason: "mf_status (ra_machine ra) = MS_Failed \<Longrightarrow>
      ev_reason (ar_event (ra_record os conn ?err ts ms ra)) = ra_reason ra"
    using m(3) unfolding ev(1) by (auto split: option.splits)
  have out: "ev_outcome (ar_event (ra_record os conn ?err ts ms ra)) = Success \<longleftrightarrow>
      ev_reason (ar_event (ra_record os conn ?err ts ms ra)) = None"
    unfolding ev(1,2) by (auto split: option.splits)
  show ?thesis
    unfolding schema_ok_def Let_def record_parts
  proof (intro conjI)
    show "if ev_outcome (ar_event (ra_record os conn ?err ts ms ra)) = Success
      then ar_level (ra_record os conn ?err ts ms ra) = str ''INFO'' \<and>
        ev_action (ar_event (ra_record os conn ?err ts ms ra)) \<in> {Act_Forward, Act_Bypass} \<and>
        map_option reason_stage (ev_reason (ar_event (ra_record os conn ?err ts ms ra))) = None \<and>
        ev_reason (ar_event (ra_record os conn ?err ts ms ra)) = None \<and>
        (case ev_reason (ar_event (ra_record os conn ?err ts ms ra)) of None \<Rightarrow> Risk_Info | Some r \<Rightarrow> reason_risk r) = Risk_Info
      else ar_level (ra_record os conn ?err ts ms ra) = str ''WARN'' \<and>
        ev_reason (ar_event (ra_record os conn ?err ts ms ra)) \<noteq> None \<and>
        (case ev_reason (ar_event (ra_record os conn ?err ts ms ra)) of None \<Rightarrow> Risk_Info | Some r \<Rightarrow> reason_risk r) \<noteq> Risk_Info"
      using ev(2-4) out by auto
    show "af_status (ra_attestation ra) = AS_Verified \<longrightarrow>
        af_nonce (ra_attestation ra) \<noteq> None \<and> af_body_binding (ra_attestation ra) \<noteq> None"
      using ver by simp
  qed (use m b att reason assms(2) in
      \<open>auto simp: SCHEMA_VERSION_def AUDIT_TARGET_def bounds_inv_def audit_caps client_fields_of_def
        option.map_comp comp_def\<close>)
qed


text \<open>
  C22. A refusal is final: once a request is refused, the record names that refusal's own reason, with
  its stage and risk, whatever transport error ends the exchange afterwards; a request that was let
  through and then failed names the transport error, keeps the decision taken as its action, and is
  recorded as a failure.
\<close>

theorem refusal_reason_kept:
  assumes "audit_reachable ra"
  shows "(ra_reason ra = Some r \<longrightarrow>
      ev_reason (ar_event (ra_record os conn err ts ms ra)) = Some r \<and>
      ev_stage (ar_event (ra_record os conn err ts ms ra)) = Some (reason_stage r) \<and>
      ev_risk (ar_event (ra_record os conn err ts ms ra)) = reason_risk r \<and>
      ev_action (ar_event (ra_record os conn err ts ms ra)) \<in> {Act_Reject, Act_RateLimit} \<and>
      ev_outcome (ar_event (ra_record os conn err ts ms ra)) = Failure) \<and>
    (ra_action ra \<in> {Some Act_Forward, Some Act_Bypass} \<and> err = Some (r', msg) \<longrightarrow>
      ev_reason (ar_event (ra_record os conn err ts ms ra)) = Some r' \<and>
      Some (ev_action (ar_event (ra_record os conn err ts ms ra))) = ra_action ra \<and>
      ev_outcome (ar_event (ra_record os conn err ts ms ra)) = Failure \<and>
      ar_message (ra_record os conn err ts ms ra) = msg)"
  using audit_reachable_inv [OF assms]
  by (auto simp: audit_inv_def decision_inv_def ra_record_def Let_def terminal_error_def apply_error_def ra_outcome_def
      split: option.splits action.splits if_splits)

text \<open>
  C37. Filtering the log at \<^verbatim>\<open>warn\<close> keeps exactly the refusals and failures: with only warnings enabled
  a request leaves a line exactly when the outcome its record states is failure, and with both levels
  enabled every request leaves exactly one line, serialized from its record, at the level the record states.
\<close>

theorem warn_keeps_failures:
  assumes "\<And>r. \<exists>l. to_json r = Inr l"
  shows "(ra_finish os tm (\<lambda>l. l = L_Warn) to_json now wall conn err ra \<noteq> None \<longleftrightarrow>
      ev_outcome (ar_event (ra_record os conn err (audit_timestamp tm wall) (duration_millis now (ra_started ra)) ra)) =
        Failure) \<and>
    (\<exists>line lvl. ra_finish os tm (\<lambda>_. True) to_json now wall conn err ra = Some (Audit_Line lvl line) \<and>
      to_json (ra_record os conn err (audit_timestamp tm wall) (duration_millis now (ra_started ra)) ra) = Inr line \<and>
      ar_level (ra_record os conn err (audit_timestamp tm wall) (duration_millis now (ra_started ra)) ra) = level_str lvl)"
proof -
  let ?rec = "ra_record os conn err (audit_timestamp tm wall) (duration_millis now (ra_started ra)) ra"
  obtain line where line: "to_json ?rec = Inr line" using assms by blast
  have same: "ra_outcome ra (err \<noteq> None) = ra_outcome ra (terminal_error ra err \<noteq> None)"
    by (simp add: ra_outcome_def terminal_error_def)
  have out: "ev_outcome (ar_event ?rec) = ra_outcome ra (err \<noteq> None)"
    and level: "ar_level ?rec = level_str (ra_level ra (err \<noteq> None))"
    unfolding same ra_level_def by (simp_all add: ra_record_def Let_def ra_level_def)
  have "ra_level ra (err \<noteq> None) = (if ra_outcome ra (err \<noteq> None) = Success then L_Info else L_Warn)"
    by (cases "ra_outcome ra (err \<noteq> None)") (simp_all add: ra_level_def)
  then show ?thesis
    using line out level by (cases "ra_outcome ra (err \<noteq> None)") (simp_all add: ra_finish_def Let_def emit_def)
qed

section \<open>Examples\<close>

definition demo_conn :: connection where
  "demo_conn = \<lparr>co_proxy = None, co_client = Some \<lparr>sa_ip = V4 1, sa_port = 5\<rparr>, co_tls_client_subject = None,
     co_status_code = Some 403, co_request_body_bytes = 0, co_response_body_bytes = 0\<rparr>"

definition demo_time :: time_ops where
  "demo_time = \<lparr>from_unix_timestamp = (\<lambda>_. Some epoch), from_system = (\<lambda>_. epoch)\<rparr>"

lemma demo_calendar: "calendar_range demo_time"
  by (simp add: calendar_range_def demo_time_def utc_ok_def epoch_def)

lemma demo_refused: "audit_reachable (ra_reject R_NonceReplay (str ''nonce was already used'') (ra_new 0 True))"
  by (rule audit_reachable.step [OF audit_reachable.fresh audit_step.reject]) (simp add: ra_new_def)


theorem refusal_reason_kept_witness:
  "ev_reason (ar_event (ra_record demo_openssl demo_conn (Some (R_DownstreamError, [])) [] 0
     (ra_reject R_NonceReplay (str ''nonce was already used'') (ra_new 0 True)))) = Some R_NonceReplay"
  using refusal_reason_kept [OF demo_refused, of R_NonceReplay demo_openssl demo_conn "Some (R_DownstreamError, [])" "[]" 0]
  by (simp add: ra_reject_def)

theorem warn_keeps_failures_witness:
  "ra_finish demo_openssl demo_time (\<lambda>l. l = L_Warn) (\<lambda>_. Inr []) 0 0 demo_conn None (ra_new 0 True) \<noteq> None"
proof -
  have "\<exists>l. (\<lambda>_ :: audit_record. (Inr [] :: ustring + ustring)) r = Inr l" for r by simp
  from warn_keeps_failures [OF this, of demo_openssl demo_time 0 0 demo_conn None "ra_new 0 True"] show ?thesis
    by (simp add: ra_record_def ra_outcome_def ra_new_def Let_def)
qed

end
