(* ===== verification/Attest_Replay.thy ===== *)
theory Attest_Replay
  imports Attest
begin

text \<open>
  The verifier shared by concurrent requests: its transition system (\<open>verifier_step\<close>), the
  invariant every reachable state has (\<open>shared_inv\<close>, by rule induction, with the cache used only
  through the facts of the interpretation \<open>nc\<close> of \<open>replay_cache\<close>), and what follows from it: no
  token is honoured twice, the cache holds accepted nonces only, and fresh tokens are honoured.
  \<open>demo_crypto\<close> is a concrete instance of the cryptographic interface for the witnesses.
\<close>

section \<open>The transition system of a shared verifier\<close>

text \<open>
  Any number of requests share one verifier.  A request passes phase 1 (\<open>Head\<close>) against whatever
  the cache holds then, waits for its body, and commits (\<open>Commit\<close>); other requests' steps may come
  in between, in any order.  The monotonic clock never goes back, the wall clock is free.  The log
  holds the commits that succeeded, latest first, with what the request presented (token, nonce and
  timestamp headers, host, method and path), what phase 1 took from it and the clock readings used.
  The headers are read by \<^verbatim>\<open>header_str\<close>, which returns visible ASCII only; \<open>Head\<close> records that for
  the nonce header.
\<close>

record commit_event =
  ce_inputs :: attest_inputs
  ce_p1 :: phase_one
  ce_wall :: int
  ce_mono :: instant

abbreviation ce_token :: "commit_event \<Rightarrow> ustring" where
  "ce_token e \<equiv> in_token_b64 (ce_inputs e)"

record 'sk shared =
  sh_verifier :: "'sk verifier"
  sh_mono :: instant
  sh_pending :: "(attest_inputs \<times> phase_one) list"
  sh_log :: "commit_event list"

definition shared_init :: "'sk \<Rightarrow> 'sk shared" where
  "shared_init sk =
     \<lparr>sh_verifier = \<lparr>private_key = sk, v_cache = nc_default\<rparr>, sh_mono = 0, sh_pending = [],
      sh_log = []\<rparr>"

inductive verifier_step :: "('sk, 'pk, 'x) crypto_scheme \<Rightarrow> 'sk shared \<Rightarrow> 'sk shared \<Rightarrow> bool"
  for K :: "('sk, 'pk, 'x) crypto_scheme" where
  Tick: "sh_mono s \<le> t \<Longrightarrow> verifier_step K s (s\<lparr>sh_mono := t\<rparr>)"
| Head: "\<forall>c \<in> set (in_nonce_b64 i). is_ascii c \<Longrightarrow>
     verify_headers K wall (sh_verifier s) i = Inr p1 \<Longrightarrow>
     verifier_step K s (s\<lparr>sh_pending := (i, p1) # sh_pending s\<rparr>)"
| Commit_ok: "(i, p1) \<in> set (sh_pending s) \<Longrightarrow>
     verify_body_and_commit wall (sh_mono s) p1 h (sh_verifier s) = (Inr (), v) \<Longrightarrow>
     verifier_step K s (s\<lparr>sh_verifier := v, sh_pending := remove1 (i, p1) (sh_pending s),
       sh_log := \<lparr>ce_inputs = i, ce_p1 = p1, ce_wall = wall, ce_mono = sh_mono s\<rparr> # sh_log s\<rparr>)"
| Commit_err: "(i, p1) \<in> set (sh_pending s) \<Longrightarrow>
     verify_body_and_commit wall (sh_mono s) p1 h (sh_verifier s) = (Inl e, v) \<Longrightarrow>
     verifier_step K s (s\<lparr>sh_verifier := v, sh_pending := remove1 (i, p1) (sh_pending s)\<rparr>)"

inductive verifier_reachable :: "('sk, 'pk, 'x) crypto_scheme \<Rightarrow> 'sk \<Rightarrow> 'sk shared \<Rightarrow> bool"
  for K :: "('sk, 'pk, 'x) crypto_scheme" and sk :: 'sk where
  start: "verifier_reachable K sk (shared_init sk)"
| step: "verifier_reachable K sk s \<Longrightarrow> verifier_step K s t \<Longrightarrow> verifier_reachable K sk t"

inductive_cases verifier_stepE: "verifier_step K s t"

text \<open>
  The clock assumption of the replay argument: between two commits the wall clock may lose at most
  59 s against the monotonic clock (any gain is harmless).
\<close>

definition WALL_SLACK :: int where "WALL_SLACK = 59000000000"

definition clocks_agree :: "commit_event \<Rightarrow> commit_event \<Rightarrow> bool" where
  "clocks_agree early late \<longleftrightarrow>
     (int (ce_mono late) - int (ce_mono early)) - (ce_wall late - ce_wall early) \<le> WALL_SLACK"

section \<open>Every token is honoured at most once\<close>

definition honest :: "('sk, 'pk, 'x) crypto_scheme \<Rightarrow> 'sk \<Rightarrow> attest_inputs \<Rightarrow> phase_one \<Rightarrow> bool" where
  "honest K sk i p \<longleftrightarrow>
     (\<exists>wall v. private_key v = sk \<and> (\<forall>c \<in> set (in_nonce_b64 i). is_ascii c) \<and> verify_headers K wall v i = Inr p)"

abbreviation stamps :: "commit_event list \<Rightarrow> (nonce \<times> instant) list" where
  "stamps log \<equiv> map (\<lambda>e. (p1_nonce (ce_p1 e), ce_mono e)) log"

definition shared_inv :: "('sk, 'pk, 'x) crypto_scheme \<Rightarrow> 'sk \<Rightarrow> 'sk shared \<Rightarrow> bool" where
  "shared_inv K sk s \<longleftrightarrow>
     private_key (sh_verifier s) = sk \<and>
     cache_inv (v_cache (sh_verifier s)) (sh_mono s) \<and>
     remembers nc_stamp NONCE_TTL (v_cache (sh_verifier s)) (sh_mono s) (stamps (sh_log s)) \<and>
     spaced NONCE_TTL (stamps (sh_log s)) \<and>
     (\<forall>(i, p) \<in> set (sh_pending s). honest K sk i p) \<and>
     (\<forall>e \<in> set (sh_log s). honest K sk (ce_inputs e) (ce_p1 e) \<and>
        - 30 \<le> unix_now (ce_wall e) - p1_ts (ce_p1 e) \<and>
        unix_now (ce_wall e) - p1_ts (ce_p1 e) \<le> 90)"

lemma shared_inv_init: "shared_inv K sk (shared_init sk)"
  by (simp add: shared_inv_def shared_init_def nc.inv_empty remembers_def spaced_def)

lemma shared_inv_cache_put:
  assumes "shared_inv K sk s" "verify_body_and_commit wall (sh_mono s) p h (sh_verifier s) = (r, v)"
  shows "private_key v = sk \<and> cache_inv (v_cache v) (sh_mono s) \<and>
    remembers nc_stamp NONCE_TTL (v_cache v) (sh_mono s) (stamps (sh_log s))"
  using assms verify_body_and_commit_cache [OF assms(2)]
  by (auto simp: shared_inv_def intro: nc.inv_put nc.remembers_put)

lemma shared_inv_step:
  assumes "verifier_step K s t" "shared_inv K sk s"
  shows "shared_inv K sk t"
  using assms
proof (induction rule: verifier_step.induct)
  case (Tick s t)
  then show ?case
    by (auto simp: shared_inv_def intro: nc.inv_later nc.remembers_later)
next
  case (Head i wall s p1)
  then show ?case by (auto simp: shared_inv_def honest_def)
next
  case (Commit_ok i p1 s wall h v)
  note put = shared_inv_cache_put [OF Commit_ok.prems Commit_ok.hyps(2)]
  have "commit_nonce wall (sh_mono s) p1 (sh_verifier s) = (Inr (), v)"
    using Commit_ok.hyps(2) by (simp add: verify_body_and_commit_eq_Inr)
  then have ok: "fst (nc_commit (p1_nonce p1) (sh_mono s) (v_cache (sh_verifier s))) = Inr ()"
    and v: "v_cache v = snd (nc_commit (p1_nonce p1) (sh_mono s) (v_cache (sh_verifier s)))"
    and win: "- 30 \<le> unix_now wall - p1_ts p1" "unix_now wall - p1_ts p1 \<le> 90"
    by (auto simp: commit_nonce_eq_Inr)
  have inv: "cache_inv (v_cache (sh_verifier s)) (sh_mono s)"
    "remembers nc_stamp NONCE_TTL (v_cache (sh_verifier s)) (sh_mono s) (stamps (sh_log s))"
    "spaced NONCE_TTL (stamps (sh_log s))"
    using Commit_ok.prems by (auto simp: shared_inv_def)
  show ?case
    using put Commit_ok.prems Commit_ok.hyps(1) win
      nc.remembers_put_ok [OF inv(1,2) ok] nc.spaced_put_ok [OF inv ok]
    by (auto simp: shared_inv_def v dest: notin_set_remove1)
next
  case (Commit_err i p1 s wall h e v)
  then show ?case
    using shared_inv_cache_put [OF Commit_err.prems Commit_err.hyps(2)]
    by (auto simp: shared_inv_def dest: notin_set_remove1)
qed

lemma shared_inv_reachable: "verifier_reachable K sk s \<Longrightarrow> shared_inv K sk s"
  by (induction rule: verifier_reachable.induct) (auto intro: shared_inv_init shared_inv_step)

lemma honest_token_same:
  assumes "honest K sk i p" "honest K sk i' p'" "in_token_b64 i = in_token_b64 i'"
  shows "p = p'"
  using assms unfolding honest_def by (metis verify_headers_token)

lemma clocks_agree_young:
  assumes "clocks_agree early late" "0 \<le> ce_wall early"
    and "- 30 \<le> unix_now (ce_wall early) - ts" "unix_now (ce_wall late) - ts \<le> 90"
  shows "ce_mono late - ce_mono early < NONCE_TTL"
proof -
  have "unix_now (ce_wall late) - unix_now (ce_wall early) \<le> 120" using assms(3,4) by simp
  from unix_now_diff [OF this assms(2)] have "ce_wall late - ce_wall early < 121000000000" by simp
  with assms(1) have "int (ce_mono late) - int (ce_mono early) < 180000000000"
    by (simp add: clocks_agree_def WALL_SLACK_def)
  then have "ce_mono late - ce_mono early < 180000000000" by linarith
  then show ?thesis by (simp add: NONCE_TTL_def from_secs_def)
qed

lemma log_pair_distinct:
  assumes "verifier_reachable K sk s" "i < j" "j < length (sh_log s)"
    and clocks: "clocks_agree (sh_log s ! j) (sh_log s ! i)" "0 \<le> ce_wall (sh_log s ! j)"
  shows "ce_token (sh_log s ! i) \<noteq> ce_token (sh_log s ! j)"
proof
  let ?late = "sh_log s ! i" and ?early = "sh_log s ! j"
  assume same: "ce_token ?late = ce_token ?early"
  have inv: "shared_inv K sk s" using assms(1) by (rule shared_inv_reachable)
  have mem: "?late \<in> set (sh_log s)" "?early \<in> set (sh_log s)" using assms(2,3) by simp_all
  with inv have "honest K sk (ce_inputs ?late) (ce_p1 ?late)" "honest K sk (ce_inputs ?early) (ce_p1 ?early)"
    by (auto simp: shared_inv_def)
  then have p1: "ce_p1 ?late = ce_p1 ?early" using same by (rule honest_token_same)
  have "ce_mono ?late - ce_mono ?early < NONCE_TTL"
    using inv mem p1 by (intro clocks_agree_young [OF clocks]) (auto simp: shared_inv_def)
  moreover have "NONCE_TTL \<le> ce_mono ?late - ce_mono ?early"
  proof -
    have "spaced NONCE_TTL (stamps (sh_log s))" using inv by (simp add: shared_inv_def)
    from sorted_wrt_nth_less [OF this [unfolded spaced_def], of i j] assms(2,3) p1 show ?thesis by simp
  qed
  ultimately show False by simp
qed

text \<open>
  C1. No replay.  Take any number of requests sharing one verifier, with phase 1 and commit of
  different requests interleaved in any order.  If the wall clock is past 1970 and never loses more
  than 59 s against the monotonic clock between two commits, then no token is honoured twice: the
  tokens of the successful commits are pairwise distinct.
\<close>

theorem token_honoured_once:
  assumes "verifier_reachable K sk s"
    and "sorted_wrt (\<lambda>late early. clocks_agree early late) (sh_log s)"
    and "\<forall>e \<in> set (sh_log s). 0 \<le> ce_wall e"
  shows "distinct (map ce_token (sh_log s))"
proof -
  have "ce_token (sh_log s ! i) \<noteq> ce_token (sh_log s ! j)" if "i < j" "j < length (sh_log s)" for i j
    using that assms(3) sorted_wrt_nth_less [OF assms(2) that] by (intro log_pair_distinct [OF assms(1)]) simp_all
  then show ?thesis
    by (auto simp: distinct_conv_nth) (metis linorder_neqE_nat)
qed

section \<open>The cache holds accepted nonces only\<close>

lemma expiry_nc_commit:
  "cache_inv c t \<Longrightarrow> set (expiry (snd (nc_commit n now c))) \<subseteq>
     set (expiry c) \<union> (if fst (nc_commit n now c) = Inr () then {(n, now)} else {})"
  by (auto simp: nc_commit_def Let_def evict_expired_eq dest: in_set_dropD)

lemma cache_subset_log:
  assumes "verifier_reachable K sk s"
  shows "set (expiry (v_cache (sh_verifier s))) \<subseteq> set (stamps (sh_log s))"
  using assms
proof (induction rule: verifier_reachable.induct)
  case start
  show ?case by (simp add: shared_init_def nc_default_def)
next
  case (step s t)
  have inv: "cache_inv (v_cache (sh_verifier s)) (sh_mono s)"
    using shared_inv_reachable [OF step.hyps(1)] by (simp add: shared_inv_def)
  from step.hyps(2) show ?case
  proof cases
    case (Commit_ok i p1 wall h v)
    then have "v_cache v = snd (nc_commit (p1_nonce p1) (sh_mono s) (v_cache (sh_verifier s)))"
      by (auto simp: verify_body_and_commit_eq_Inr commit_nonce_eq_Inr)
    with Commit_ok(1) step.IH expiry_nc_commit [OF inv, of "p1_nonce p1" "sh_mono s"]
    show ?thesis by (auto split: if_splits)
  next
    case (Commit_err i p1 wall h e v)
    have "v = sh_verifier s"
      using inv Commit_err(3) by (rule commit_err_unchanged)
    with Commit_err(1) step.IH show ?thesis by simp
  qed (use step.IH in auto)
qed

text \<open>
  C30. A token that fails authentication costs no memory: in every reachable state each nonce in the
  cache belongs to a commit that succeeded, and the request behind that commit presented the nonce and
  a token that decrypts, with the proxy's key, to a plaintext matching it line by line: the version
  prefix, then exactly the nonce and timestamp headers, the host, the method and the path of that
  request, then a body binding that parsed.
\<close>

theorem cache_holds_accepted_only:
  assumes "verifier_reachable K sk s" "n \<in> seen (v_cache (sh_verifier s))"
  shows "\<exists>e \<in> set (sh_log s). \<exists>i pt binding.
     ce_inputs e = i \<and> p1_nonce (ce_p1 e) = n \<and> b64_decode K (in_nonce_b64 i) = Some n \<and> length n = 16 \<and>
     parse_i64 (in_ts i) = Some (p1_ts (ce_p1 e)) \<and>
     decrypt_token K sk (in_token_b64 i) = Inr pt \<and>
     split_on 10 pt = [utf8 (str ''denbrowser-attest:v2''), utf8 (in_nonce_b64 i), utf8 (in_ts i), utf8 (in_host i),
       utf8 (in_method i), utf8 (in_path i), binding] \<and>
     parse_body_binding binding = Inr (p1_body_binding (ce_p1 e))"
proof -
  have inv: "shared_inv K sk s" using assms(1) by (rule shared_inv_reachable)
  then obtain t where "(n, t) \<in> set (expiry (v_cache (sh_verifier s)))"
    using assms(2) by (auto simp: shared_inv_def cache_inv_def)
  with cache_subset_log [OF assms(1)] obtain e
    where e: "e \<in> set (sh_log s)" "p1_nonce (ce_p1 e) = n" by auto
  with inv have "honest K sk (ce_inputs e) (ce_p1 e)" by (auto simp: shared_inv_def)
  with e(2) show ?thesis by (intro bexI [OF _ e(1)]) (auto simp: honest_def verify_headers_eq_Inr PLAINTEXT_PREFIX_def)
qed

lemma fresh_not_contained:
  assumes "verifier_reachable K sk s" "nonce \<notin> (\<lambda>e. p1_nonce (ce_p1 e)) ` set (sh_log s)"
  shows "\<not> nc_contains (v_cache (sh_verifier s)) nonce"
proof
  assume "nc_contains (v_cache (sh_verifier s)) nonce"
  moreover have "cache_inv (v_cache (sh_verifier s)) (sh_mono s)"
    using shared_inv_reachable [OF assms(1)] by (simp add: shared_inv_def)
  ultimately obtain t where "(nonce, t) \<in> set (expiry (v_cache (sh_verifier s)))"
    by (auto simp: nc_contains_def cache_inv_def)
  with cache_subset_log [OF assms(1)] assms(2) show False by auto
qed

lemma reachable_private_key: "verifier_reachable K sk s \<Longrightarrow> private_key (sh_verifier s) = sk"
  using shared_inv_reachable [of K sk s] unfolding shared_inv_def by blast

lemma minted_head:
  assumes "crypto_laws K" "verifier_reachable K sk s"
    and "plain_field t" "plain_field h" "plain_field m" "plain_field p"
    and "\<forall>c \<in> set n. is_ascii c \<and> c \<noteq> 10"
    and "parse_i64 t = Some ts" "\<bar>unix_now wall - ts\<bar> \<le> 30"
    and "b64_decode K n = Some nonce" "length nonce = 16"
    and "nonce \<notin> (\<lambda>e. p1_nonce (ce_p1 e)) ` set (sh_log s)"
  shows "verify_headers K wall (sh_verifier s)
      \<lparr>in_ts = t, in_nonce_b64 = n, in_token_b64 = make_token K e (public_key K sk) n t h m p body,
       in_host = h, in_method = m, in_path = p\<rparr> =
     Inr \<lparr>p1_nonce = nonce, p1_body_binding = Hash (sha256 K body), p1_ts = ts\<rparr>"
proof -
  have "length (sha256 K body) = 32" using assms(1) by (simp add: crypto_laws_def)
  moreover have "plain_field n" using assms(7) by (auto simp: plain_field_def)
  ultimately show ?thesis
    unfolding make_token_def sha256_hex_def
    using assms fresh_not_contained [OF assms(2,12)] reachable_private_key [OF assms(2)]
    by (intro minted_field_accepted) (simp_all add: parse_body_binding_hex plain_field_hex)
qed

lemma honour_step:
  assumes "verifier_reachable K sk s" "\<forall>c \<in> set (in_nonce_b64 i). is_ascii c"
    and "verify_headers K wall (sh_verifier s) i = Inr p1" "p1_body_binding p1 = Hash h"
    and "- 30 \<le> unix_now wall' - p1_ts p1" "unix_now wall' - p1_ts p1 \<le> 90" "sh_mono s \<le> later"
  shows "\<exists>s'. verifier_reachable K sk s' \<and> sh_mono s' = later \<and>
    sh_log s' = \<lparr>ce_inputs = i, ce_p1 = p1, ce_wall = wall', ce_mono = later\<rparr> # sh_log s"
proof -
  let ?s1 = "s\<lparr>sh_pending := (i, p1) # sh_pending s\<rparr>"
  let ?s2 = "?s1\<lparr>sh_mono := later\<rparr>"
  have "verifier_step K s ?s1" using assms(2,3) by (rule verifier_step.Head)
  with assms(1) have r1: "verifier_reachable K sk ?s1" by (rule verifier_reachable.step)
  have "verifier_step K ?s1 ?s2" using assms(7) by (intro verifier_step.Tick) simp
  with r1 have r2: "verifier_reachable K sk ?s2" by (rule verifier_reachable.step)
  have inv: "cache_inv (v_cache (sh_verifier s)) (sh_mono s)"
    using shared_inv_reachable [OF assms(1)] by (simp add: shared_inv_def)
  have "p1_nonce p1 \<notin> seen (v_cache (sh_verifier s))"
    using assms(3) by (simp add: verify_headers_eq_Inr nc_contains_def)
  from commit_nonce_ok [OF inv this assms(5,6), of later] assms(4)
  obtain v where "verify_body_and_commit wall' (sh_mono ?s2) p1 h (sh_verifier ?s2) = (Inr (), v)"
    by (auto simp: verify_body_and_commit_def)
  from verifier_step.Commit_ok [OF _ this, of i K] verifier_reachable.step [OF r2]
  show ?thesis by fastforce
qed

text \<open>
  A fresh token is honoured.  In every reachable state, a token the client mints with a nonce no
  earlier commit used can go through phase 1 within 30 s of its timestamp and then commit its body
  up to 90 s after it, whatever else is in the cache; the run that does so ends with exactly this
  commit added to the log.
\<close>

lemma minted_token_honoured:
  assumes "crypto_laws K" "verifier_reachable K sk s"
    and "plain_field t" "plain_field h" "plain_field m" "plain_field p"
    and "\<forall>c \<in> set n. is_ascii c \<and> c \<noteq> 10"
    and "parse_i64 t = Some ts" "\<bar>unix_now wall - ts\<bar> \<le> 30"
    and "b64_decode K n = Some nonce" "length nonce = 16"
    and "nonce \<notin> (\<lambda>e. p1_nonce (ce_p1 e)) ` set (sh_log s)"
    and "- 30 \<le> unix_now wall' - ts" "unix_now wall' - ts \<le> 90" "sh_mono s \<le> later"
  shows "\<exists>s'. verifier_reachable K sk s' \<and> sh_mono s' = later \<and>
    sh_log s' = \<lparr>ce_inputs = \<lparr>in_ts = t, in_nonce_b64 = n,
         in_token_b64 = make_token K e (public_key K sk) n t h m p body, in_host = h, in_method = m, in_path = p\<rparr>,
       ce_p1 = \<lparr>p1_nonce = nonce, p1_body_binding = Hash (sha256 K body), p1_ts = ts\<rparr>,
       ce_wall = wall', ce_mono = later\<rparr> # sh_log s"
  using honour_step [OF assms(2) _ minted_head [OF assms(1-12), of e body], of "sha256 K body" wall' later]
    assms(7,13-15)
  by simp

section \<open>The backlog of expired entries\<close>

text \<open>
  A sequence of commits, each with its nonce and clock reading: how many entries they popped, how many
  of them recorded a nonce, and the cache they leave.
\<close>

fun nc_run :: "(nonce \<times> instant) list \<Rightarrow> nonce_cache \<Rightarrow> nat \<times> nat \<times> nonce_cache" where
  "nc_run [] c = (0, 0, c)"
| "nc_run ((n, now) # ops) c =
     (let popped = length (expiry c) - length (expiry (evict_expired now c));
          (r, c1) = nc_commit n now c;
          (popped', recorded, c2) = nc_run ops c1
      in (popped + popped', (if r = Inr () then Suc recorded else recorded), c2))"

abbreviation backlog :: "instant \<Rightarrow> nonce_cache \<Rightarrow> nat" where
  "backlog t c \<equiv> length (filter (aged t) (expiry c))"

lemma length_evict:
  "cache_inv c t0 \<Longrightarrow> length (expiry (evict_expired now c)) = length (expiry c) - min MAX_EVICTIONS_PER_COMMIT (backlog now c)"
  by (simp add: evict_expired_eq evict_count_filter)

lemma backlog_le: "backlog t c \<le> length (expiry c)"
  by simp

lemma filter_drop_prefix:
  "takeWhile P xs = filter P xs \<Longrightarrow> length (filter P (drop k xs)) = length (filter P xs) - k"
proof (induction xs arbitrary: k)
  case (Cons x xs)
  show ?case
  proof (cases "P x")
    case True
    with Cons show ?thesis by (cases k) simp_all
  next
    case False
    then have "filter P xs = []" using Cons.prems by simp
    then have "filter P (drop k (x # xs)) = []"
      using False set_drop_subset [of k "x # xs"] by (fastforce simp: filter_empty_conv)
    with False \<open>filter P xs = []\<close> show ?thesis by simp
  qed
qed simp

lemma backlog_evict:
  assumes "cache_inv c t0" "t \<le> now"
  shows "backlog t (evict_expired now c) = backlog t c - MAX_EVICTIONS_PER_COMMIT"
proof -
  have "backlog t c \<le> backlog now c"
    using assms(2) by (induction "expiry c" rule: rev_induct) (auto simp: length_filter_conv_card intro!: card_mono)
  moreover have "backlog t (evict_expired now c) = backlog t c - min MAX_EVICTIONS_PER_COMMIT (backlog now c)"
    unfolding evict_expired_eq [OF assms(1)] evict_count_filter [OF assms(1), symmetric]
    using assms(1) by (simp add: filter_drop_prefix takeWhile_aged_filter cache_inv_def)
  ultimately show ?thesis by linarith
qed

lemma backlog_commit:
  assumes "cache_inv c t0" "t \<le> now"
  shows "backlog t (snd (nc_commit n now c)) = backlog t c - MAX_EVICTIONS_PER_COMMIT"
    and "length (expiry (snd (nc_commit n now c))) =
      length (expiry (evict_expired now c)) + (if fst (nc_commit n now c) = Inr () then 1 else 0)"
proof -
  have "\<not> aged t (n, now)" using assms(2) by (simp add: NONCE_TTL_def from_secs_def)
  then show "backlog t (snd (nc_commit n now c)) = backlog t c - MAX_EVICTIONS_PER_COMMIT"
    using backlog_evict [OF assms] by (auto simp: nc_commit_def Let_def)
qed (auto simp: nc_commit_def Let_def)

text \<open>
  C17. The backlog drains as promised and eviction is paid for by insertion.  Whatever a run of commits
  carries, with clock readings that do not go back, the entries that had outlived the TTL when it
  began are reduced by exactly 256 per commit until none is left; every commit pops at most 256
  entries, and what the whole run popped plus what is left in the queue is what was there before plus
  one entry for each commit that recorded its nonce.
\<close>

theorem backlog_drains:
  assumes "cache_inv c t" "sorted (t # map snd ops)" "nc_run ops c = (popped, recorded, c')"
  shows "length (filter (\<lambda>e. from_secs 180 \<le> t - snd e) (expiry c')) =
       length (filter (\<lambda>e. from_secs 180 \<le> t - snd e) (expiry c)) - 256 * length ops \<and>
     popped + length (expiry c') = length (expiry c) + recorded \<and>
     popped \<le> 256 * length ops \<and> recorded \<le> length ops"
proof -
  have "backlog t c' = backlog t c - MAX_EVICTIONS_PER_COMMIT * length ops \<and>
     popped + length (expiry c') = length (expiry c) + recorded \<and>
     popped \<le> MAX_EVICTIONS_PER_COMMIT * length ops \<and> recorded \<le> length ops"
    if "cache_inv c u" "\<forall>op \<in> set ops. t \<le> snd op \<and> u \<le> snd op" "sorted (map snd ops)" for u
    using that assms(3)
  proof (induction ops arbitrary: c u popped recorded)
    case (Cons op ops)
    obtain n now where op: "op = (n, now)" by (cases op)
    obtain r c1 where c1: "nc_commit n now c = (r, c1)" by (cases "nc_commit n now c")
    obtain p k where rest: "nc_run ops c1 = (p, k, c')"
      "popped = length (expiry c) - length (expiry (evict_expired now c)) + p"
      "recorded = (if r = Inr () then Suc k else k)"
      using Cons.prems(4) by (auto simp: op c1 Let_def split: prod.splits)
    have "cache_inv c1 now" using nc.inv_put [OF Cons.prems(1), of now n] Cons.prems(2) by (simp add: op c1)
    then have ih: "backlog t c' = backlog t c1 - MAX_EVICTIONS_PER_COMMIT * length ops \<and>
        p + length (expiry c') = length (expiry c1) + k \<and> p \<le> MAX_EVICTIONS_PER_COMMIT * length ops \<and> k \<le> length ops"
      using Cons.IH [OF _ _ _ rest(1)] Cons.prems(2,3) by (auto simp: op)
    have "t \<le> now" using Cons.prems(2) by (simp add: op)
    note step = backlog_commit [OF Cons.prems(1) this, of n, unfolded c1 fst_conv snd_conv]
    define m where "m = min MAX_EVICTIONS_PER_COMMIT (backlog now c)"
    have m: "m \<le> MAX_EVICTIONS_PER_COMMIT" "m \<le> length (expiry c)" "length (expiry (evict_expired now c)) = length (expiry c) - m"
      using length_evict [OF Cons.prems(1), of now] backlog_le [of now c] unfolding m_def by linarith+
    have "backlog t c' = backlog t c - MAX_EVICTIONS_PER_COMMIT * length (op # ops)" using ih step(1) by simp
    moreover have "popped = m + p" "length (expiry c1) = length (expiry c) - m + (if r = Inr () then 1 else 0)"
      using m rest(2) step(2) by simp_all
    moreover from this have "popped + length (expiry c') = length (expiry c) + recorded"
      using ih m(2) rest(3) by (cases "r = Inr ()") auto
    ultimately show ?case using ih m(1) rest(3) by (cases "r = Inr ()") simp_all
  qed simp
  from this [OF assms(1)] assms(2) show ?thesis
    by (auto simp: NONCE_TTL_def MAX_EVICTIONS_PER_COMMIT_def)
qed

section \<open>A concrete instance\<close>

definition demo_crypto :: "(unit, unit) client_crypto" where
  "demo_crypto =
     \<lparr>b64_decode = (\<lambda>s. Some (map of_nat s)), from_sec1_bytes = (\<lambda>_. Some ()),
      diffie_hellman = (\<lambda>_ _. []), sha256 = (\<lambda>_. replicate 32 0),
      aes128_gcm_decrypt = (\<lambda>_ _ c. Some (take (length c - 16) c)),
      b64_encode = map unat, public_key = (\<lambda>_. ()), to_encoded_point = (\<lambda>_. replicate 65 0),
      aes128_gcm_encrypt = (\<lambda>_ _ m. m @ replicate 16 0)\<rparr>"

lemma crypto_laws_demo: "crypto_laws demo_crypto"
  by (simp add: crypto_laws_def demo_crypto_def comp_def)

lemma parse_i64_1000: "parse_i64 (str ''1000'') = Some 1000"
  by (simp add: parse_i64_def parse_int_def str_def to_digit_def is_digit_def i64_defs)

lemma plain_demo: "plain_field (str ''1000'')" "plain_field (str ''host'')" "plain_field (str ''GET'')"
  "plain_field (str ''/'')" "plain_field (replicate 16 65)"
  by (simp_all add: plain_field_def str_def)

abbreviation demo_wall :: int where "demo_wall \<equiv> 1000000000000"

lemma unix_now_demo: "unix_now demo_wall = 1000"
  by (simp add: unix_now_def)

abbreviation demo_token :: "nat \<Rightarrow> ustring" where
  "demo_token k \<equiv> make_token demo_crypto () () (replicate 16 k) (str ''1000'') (str ''host'')
     (str ''GET'') (str ''/'') []"

lemma demo_sha: "sha256 demo_crypto b = replicate 32 0"
  by (simp add: demo_crypto_def)

lemma demo_pub: "public_key demo_crypto x = ()"
  by simp

lemma demo_b64: "b64_decode demo_crypto n = Some (map of_nat n)"
  by (simp add: demo_crypto_def)

abbreviation demo_inputs_for :: "nat \<Rightarrow> attest_inputs" where
  "demo_inputs_for k \<equiv> \<lparr>in_ts = str ''1000'', in_nonce_b64 = replicate 16 k, in_token_b64 = demo_token k,
     in_host = str ''host'', in_method = str ''GET'', in_path = str ''/''\<rparr>"

abbreviation demo_inputs :: attest_inputs where
  "demo_inputs \<equiv> demo_inputs_for 65"

abbreviation demo_p1 :: "nat \<Rightarrow> phase_one" where
  "demo_p1 k \<equiv> \<lparr>p1_nonce = replicate 16 (of_nat k), p1_body_binding = Hash (replicate 32 0), p1_ts = 1000\<rparr>"

abbreviation demo_verifier :: "unit verifier" where
  "demo_verifier \<equiv> \<lparr>private_key = (), v_cache = nc_default\<rparr>"


theorem minted_token_bound_witness:
  "verify_headers demo_crypto demo_wall demo_verifier demo_inputs = Inr (demo_p1 65) \<and>
   utf8 (in_path demo_inputs) = utf8 (str ''/'') \<and>
   p1_body_binding (demo_p1 65) = Hash (sha256 demo_crypto [])"
proof -
  have v: "verify_headers demo_crypto demo_wall demo_verifier demo_inputs = Inr (demo_p1 65)"
    using minted_head [OF crypto_laws_demo verifier_reachable.start, of "str ''1000''" "str ''host''"
        "str ''GET''" "str ''/''" "replicate 16 65" 1000 demo_wall "replicate 16 65" "()" "()" "[]"]
    by (simp add: plain_demo parse_i64_1000 unix_now_demo demo_sha demo_pub demo_b64 shared_init_def)
  then show ?thesis
    using minted_token_bound [OF crypto_laws_demo refl, of "replicate 16 65" "str ''1000''" "str ''host''"
        "str ''GET''" "str ''/''" demo_inputs "()" demo_verifier "[]" demo_wall "demo_p1 65"]
    by (simp add: plain_demo demo_sha)
qed
lemma demo_run:
  assumes "verifier_reachable demo_crypto () s" "k < 128" "k \<noteq> 10"
    and "replicate 16 (of_nat k) \<notin> (\<lambda>e. p1_nonce (ce_p1 e)) ` set (sh_log s)"
  shows "\<exists>s'. verifier_reachable demo_crypto () s' \<and> sh_mono s' = sh_mono s \<and>
    sh_log s' = \<lparr>ce_inputs = demo_inputs_for k, ce_p1 = demo_p1 k, ce_wall = demo_wall,
      ce_mono = sh_mono s\<rparr> # sh_log s"
proof -
  let ?t = "str ''1000''" and ?n = "replicate 16 k" and ?h = "str ''host''" and ?m = "str ''GET''"
    and ?p = "str ''/''"
  have head: "verify_headers demo_crypto demo_wall (sh_verifier s)
      \<lparr>in_ts = ?t, in_nonce_b64 = ?n, in_token_b64 = demo_token k, in_host = ?h, in_method = ?m,
       in_path = ?p\<rparr> = Inr (demo_p1 k)"
    using minted_head [OF crypto_laws_demo assms(1), of ?t ?h ?m ?p ?n 1000 demo_wall
        "replicate 16 (of_nat k)" "()" "[]"] assms
    by (simp add: plain_demo parse_i64_1000 unix_now_demo demo_sha demo_pub demo_b64)
  show ?thesis
    using honour_step [OF assms(1) _ head, of "replicate 32 0" demo_wall "sh_mono s"] assms(2)
    by (simp add: unix_now_demo)
qed

theorem token_honoured_once_witness:
  "\<exists>s. verifier_reachable demo_crypto () s \<and> length (sh_log s) = 2 \<and>
     sorted_wrt (\<lambda>late early. clocks_agree early late) (sh_log s) \<and>
     (\<forall>e \<in> set (sh_log s). 0 \<le> ce_wall e) \<and> distinct (map ce_token (sh_log s))"
proof -
  let ?e = "\<lambda>k. \<lparr>ce_inputs = demo_inputs_for k, ce_p1 = demo_p1 k, ce_wall = demo_wall, ce_mono = 0\<rparr>"
  obtain s1 where s1: "verifier_reachable demo_crypto () s1" "sh_mono s1 = 0" "sh_log s1 = [?e 65]"
    using demo_run [OF verifier_reachable.start, of 65] by (auto simp: shared_init_def)
  obtain s2 where s2: "verifier_reachable demo_crypto () s2" "sh_log s2 = [?e 66, ?e 65]"
    using demo_run [OF s1(1), of 66] s1(2,3) by auto
  have c: "sorted_wrt (\<lambda>late early. clocks_agree early late) (sh_log s2)"
    "\<forall>e \<in> set (sh_log s2). 0 \<le> ce_wall e"
    using s2(2) by (simp_all add: clocks_agree_def WALL_SLACK_def)
  from token_honoured_once [OF s2(1) c] s2 c show ?thesis by (intro exI [of _ s2]) simp
qed


theorem cache_holds_accepted_only_witness:
  "\<exists>s. verifier_reachable demo_crypto () s \<and> replicate 16 65 \<in> seen (v_cache (sh_verifier s)) \<and>
     (\<exists>e \<in> set (sh_log s). \<exists>pt binding. p1_nonce (ce_p1 e) = replicate 16 65 \<and>
        decrypt_token demo_crypto () (in_token_b64 (ce_inputs e)) = Inr pt \<and>
        split_on 10 pt = [utf8 (str ''denbrowser-attest:v2''), utf8 (in_nonce_b64 (ce_inputs e)), utf8 (in_ts (ce_inputs e)),
          utf8 (in_host (ce_inputs e)), utf8 (in_method (ce_inputs e)), utf8 (in_path (ce_inputs e)), binding])"
proof -
  obtain s where s: "verifier_reachable demo_crypto () s" "sh_mono s = 0"
    "sh_log s = [\<lparr>ce_inputs = demo_inputs_for 65, ce_p1 = demo_p1 65, ce_wall = demo_wall, ce_mono = 0\<rparr>]"
    using demo_run [OF verifier_reachable.start, of 65] by (auto simp: shared_init_def)
  have "shared_inv demo_crypto () s" using s(1) by (rule shared_inv_reachable)
  then have "nc_stamp (v_cache (sh_verifier s)) (replicate 16 65) = Some 0"
    using s(2,3) by (simp add: shared_inv_def remembers_def NONCE_TTL_def from_secs_def)
  then have n: "replicate 16 65 \<in> seen (v_cache (sh_verifier s))"
    using \<open>shared_inv demo_crypto () s\<close> nc_stamp_seen by (auto simp: shared_inv_def)
  from cache_holds_accepted_only [OF s(1) n] s(1) n show ?thesis by blast
qed

lemma demo_cache_inv: "cache_inv \<lparr>seen = {[1]}, expiry = [([1], 7)]\<rparr> 8"
  by (simp add: cache_inv_def)


theorem backlog_drains_witness:
  "length (filter (\<lambda>e. from_secs 180 \<le> (7 + from_secs 180) - snd e)
     (expiry (snd (snd (nc_run [([2], 7 + from_secs 180)] \<lparr>seen = {[1]}, expiry = [([1], 7)]\<rparr>))))) = 0"
proof -
  have inv: "cache_inv \<lparr>seen = {[1]}, expiry = [([1], 7)]\<rparr> (7 + from_secs 180)"
    by (rule nc.inv_later [OF demo_cache_inv]) (simp add: from_secs_def)
  show ?thesis
    using backlog_drains [OF inv, of "[([2], 7 + from_secs 180)]" _ _
        "snd (snd (nc_run [([2], 7 + from_secs 180)] \<lparr>seen = {[1]}, expiry = [([1], 7)]\<rparr>))"]
    by (simp add: prod_eq_iff)
qed

end
