(* ===== verification/Config_Env.thy ===== *)
theory Config_Env
  imports Prelude
begin

text \<open>
  Environment references in configuration strings (\<^verbatim>\<open>src/proxy/src/config/env.rs\<close>).  The parsed TOML tree
  is \<open>toml_value\<close> (a table keeps its entries in iteration order; floats and datetimes are opaque, as
  expansion never looks at them), the process environment is the argument \<open>lookup\<close>.
\<close>

section \<open>Data\<close>

datatype var_error = NotPresent | NotUnicode

type_synonym env_lookup = "ustring \<Rightarrow> var_error + ustring"

datatype toml_value =
    TString ustring
  | TInteger int
  | TFloat "64 word"
  | TBoolean bool
  | TDatetime ustring
  | TArray "toml_value list"
  | TTable "(ustring \<times> toml_value) list"

datatype expand_error =
    EE_Unterminated
  | EE_InvalidReference
  | EE_Blank ustring
  | EE_Padded ustring
  | EE_NotSet ustring
  | EE_NotUnicode ustring

section \<open>One string\<close>

definition is_padding :: "uchar \<Rightarrow> bool" where
  "is_padding c \<longleftrightarrow> is_whitespace c \<or> c \<in> {65279, 8203, 8204, 8205, 8288, 6158}"

definition is_ascii_alphanumeric :: "uchar \<Rightarrow> bool" where
  "is_ascii_alphanumeric c \<longleftrightarrow> is_ascii_alphabetic c \<or> is_digit c"

fun is_valid_name :: "ustring \<Rightarrow> bool" where
  "is_valid_name [] \<longleftrightarrow> False"
| "is_valid_name (c # cs) \<longleftrightarrow>
     (is_ascii_alphabetic c \<or> c = 95) \<and> list_all (\<lambda>d. is_ascii_alphanumeric d \<or> d = 95) cs"

definition expand_error_var :: "bool \<Rightarrow> ustring \<Rightarrow> ustring" where
  "expand_error_var secret name =
     (if secret then str ''a referenced environment variable''
      else str ''environment variable `'' @ name @ str ''`'')"

fun expand_error_display :: "bool \<Rightarrow> expand_error \<Rightarrow> ustring" where
  "expand_error_display secret EE_Unterminated = str ''unterminated `${` (write `$${` for a literal `${`)''"
| "expand_error_display secret EE_InvalidReference =
     str ''invalid `${...}` reference: a variable name is ASCII letters, digits and `_`, not starting with a digit, and `${NAME:-default}` forms are not supported (write `$${` for a literal `${`)''"
| "expand_error_display secret (EE_Blank name) =
     expand_error_var secret name @ str '' is empty or only whitespace or invisible characters''"
| "expand_error_display secret (EE_Padded name) =
     expand_error_var secret name @ str '' begins or ends with whitespace or an invisible character, such as the trailing newline or byte-order mark of a file it was read from''"
| "expand_error_display secret (EE_NotSet name) = expand_error_var secret name @ str '' is not set''"
| "expand_error_display secret (EE_NotUnicode name) = expand_error_var secret name @ str '' is not valid Unicode''"

text \<open>The checks on a variable's value.\<close>

definition resolve_var :: "env_lookup \<Rightarrow> ustring \<Rightarrow> expand_error + ustring" where
  "resolve_var lookup name =
     (case lookup name of
        Inr v \<Rightarrow>
          if list_all is_padding v then Inl (EE_Blank name)
          else if is_padding (hd v) \<or> is_padding (last v) then Inl (EE_Padded name)
          else Inr v
      | Inl NotPresent \<Rightarrow> Inl (EE_NotSet name)
      | Inl NotUnicode \<Rightarrow> Inl (EE_NotUnicode name))"

text \<open>
  Where the scan stops next: the text before the first dollar sign (36), the length of the run of
  dollars there, and what follows the run.
\<close>

definition split_dollars :: "ustring \<Rightarrow> ustring \<times> nat \<times> ustring" where
  "split_dollars rest =
     (let tail = dropWhile (\<lambda>c. c \<noteq> 36) rest; run = length (takeWhile (\<lambda>c. c = 36) tail)
      in (takeWhile (\<lambda>c. c \<noteq> 36) rest, run, drop run tail))"

lemma split_dollars_append:
  assumes "36 \<notin> set b" "0 < n" "a = [] \<or> hd a \<noteq> 36"
  shows "split_dollars (b @ replicate n 36 @ a) = (b, n, a)"
proof -
  have 1: "takeWhile (\<lambda>c. c \<noteq> 36) (b @ replicate n 36 @ a) = b"
    "dropWhile (\<lambda>c. c \<noteq> 36) (b @ replicate n 36 @ a) = replicate n 36 @ a"
    using assms(1,2) by (cases n; auto simp: takeWhile_append dropWhile_append)+
  have "takeWhile (\<lambda>c. c = 36) (replicate n 36 @ a) = replicate n 36"
    using assms(3) by (cases a) (auto simp: takeWhile_append)
  with 1 show ?thesis by (simp add: split_dollars_def)
qed

lemma split_dollars_parts:
  assumes "36 \<in> set rest"
  obtains b n a where "rest = b @ replicate n 36 @ a" "36 \<notin> set b" "0 < n" "a = [] \<or> hd a \<noteq> 36"
    "split_dollars rest = (b, n, a)"
proof -
  let ?b = "takeWhile (\<lambda>c. c \<noteq> 36) rest" and ?t = "dropWhile (\<lambda>c. c \<noteq> 36) rest"
  let ?d = "takeWhile (\<lambda>c. c = 36) ?t" and ?a = "dropWhile (\<lambda>c. c = 36) ?t"
  have t: "?t \<noteq> []" "hd ?t = 36"
    using assms hd_dropWhile [of "\<lambda>c. c \<noteq> 36" rest] by (auto simp: dropWhile_eq_Nil_conv)
  have "\<forall>x \<in> set ?d. x = 36" by (auto dest: set_takeWhileD)
  then have d: "replicate (length ?d) 36 = ?d" by (rule replicate_length_same)
  have 1: "rest = ?b @ replicate (length ?d) 36 @ ?a"
    unfolding d by simp
  have 2: "36 \<notin> set ?b" by (auto dest: set_takeWhileD)
  have 3: "0 < length ?d" using t by (cases ?t) auto
  have 4: "?a = [] \<or> hd ?a \<noteq> 36" using hd_dropWhile [of "\<lambda>c. c = 36" ?t] by auto
  from split_dollars_append [OF 2 3 4] have "split_dollars rest = (?b, length ?d, ?a)"
    unfolding 1 [symmetric] .
  from that [OF 1 2 3 4 this] show thesis .
qed

lemma split_dollars_less:
  "36 \<in> set rest \<Longrightarrow> split_dollars rest = (b, n, a) \<Longrightarrow> length a < length rest"
  by (elim split_dollars_parts) auto

text \<open>
  The loop of \<^verbatim>\<open>expand_str\<close>: \<open>rest\<close> is what is left to scan, \<open>out\<close> what was written.  The braces are 123
  and 125.
\<close>

function expand_loop :: "env_lookup \<Rightarrow> ustring \<Rightarrow> ustring \<Rightarrow> expand_error + ustring" where
  "expand_loop lookup out rest =
     (if 36 \<notin> set rest then Inr (out @ rest)
      else
        case split_dollars rest of (before, run, after) \<Rightarrow>
          (case after of
             [] \<Rightarrow> expand_loop lookup (out @ before @ replicate run 36) after
           | c # body \<Rightarrow>
               if c \<noteq> 123 then expand_loop lookup (out @ before @ replicate run 36) after
               else if even run then expand_loop lookup (out @ before @ replicate (run div 2) 36) after
               else if 125 \<notin> set body then Inl EE_Unterminated
               else if \<not> is_valid_name (takeWhile (\<lambda>d. d \<noteq> 125) body) then Inl EE_InvalidReference
               else (case resolve_var lookup (takeWhile (\<lambda>d. d \<noteq> 125) body) of
                       Inl e \<Rightarrow> Inl e
                     | Inr v \<Rightarrow>
                         expand_loop lookup (out @ before @ replicate (run div 2) 36 @ v)
                           (drop (Suc (length (takeWhile (\<lambda>d. d \<noteq> 125) body))) body))))"
  by pat_completeness auto
termination
  by (relation "measure (\<lambda>(l, out, rest). length rest)") (auto dest: split_dollars_less [OF _ sym])

declare expand_loop.simps [simp del]

definition expand_str :: "env_lookup \<Rightarrow> bool \<Rightarrow> ustring \<Rightarrow> ustring + ustring" where
  "expand_str lookup secret s = map_err (expand_error_display secret) (expand_loop lookup [] s)"

section \<open>The whole tree\<close>

text \<open>
  \<^verbatim>\<open>expand_value\<close> and its two loops: the expanded value and the errors pushed, in order.  A string that
  fails keeps its text, as the assignment is skipped.
\<close>

fun expand_value :: "env_lookup \<Rightarrow> ustring list \<Rightarrow> ustring \<Rightarrow> toml_value \<Rightarrow> toml_value \<times> ustring list"
  and expand_items :: "env_lookup \<Rightarrow> ustring list \<Rightarrow> ustring \<Rightarrow> nat \<Rightarrow> toml_value list \<Rightarrow> toml_value list \<times> ustring list"
  and expand_entries :: "env_lookup \<Rightarrow> ustring list \<Rightarrow> ustring \<Rightarrow> (ustring \<times> toml_value) list
    \<Rightarrow> (ustring \<times> toml_value) list \<times> ustring list" where
  "expand_value lookup secrets path (TString s) =
     (case expand_str lookup (path \<in> set secrets) s of
        Inr expanded \<Rightarrow> (TString expanded, [])
      | Inl e \<Rightarrow> (TString s, [path @ str '': '' @ e]))"
| "expand_value lookup secrets path (TArray items) =
     (let (vs, es) = expand_items lookup secrets path 0 items in (TArray vs, es))"
| "expand_value lookup secrets path (TTable entries) =
     (let (vs, es) = expand_entries lookup secrets (path @ str ''.'') entries in (TTable vs, es))"
| "expand_value lookup secrets path (TInteger i) = (TInteger i, [])"
| "expand_value lookup secrets path (TFloat f) = (TFloat f, [])"
| "expand_value lookup secrets path (TBoolean b) = (TBoolean b, [])"
| "expand_value lookup secrets path (TDatetime d) = (TDatetime d, [])"
| "expand_items lookup secrets path i [] = ([], [])"
| "expand_items lookup secrets path i (v # vs) =
     (let (v', es) = expand_value lookup secrets (path @ str ''['' @ dec_nat i @ str '']'') v;
          (vs', es') = expand_items lookup secrets path (Suc i) vs in (v' # vs', es @ es'))"
| "expand_entries lookup secrets prefix [] = ([], [])"
| "expand_entries lookup secrets prefix ((k, v) # vs) =
     (let (v', es) = expand_value lookup secrets (prefix @ k) v;
          (vs', es') = expand_entries lookup secrets prefix vs in ((k, v') # vs', es @ es'))"

text \<open>\<^verbatim>\<open>expand\<close>: the sections of the file are the keys of the root table, written \<^verbatim>\<open>[key]\<close>.\<close>

fun expand_sections :: "env_lookup \<Rightarrow> ustring list \<Rightarrow> (ustring \<times> toml_value) list
    \<Rightarrow> (ustring \<times> toml_value) list \<times> ustring list" where
  "expand_sections lookup secrets [] = ([], [])"
| "expand_sections lookup secrets ((k, v) # vs) =
     (let (v', es) = expand_value lookup secrets (str ''['' @ k @ str '']'') v;
          (vs', es') = expand_sections lookup secrets vs in ((k, v') # vs', es @ es'))"

definition expand :: "env_lookup \<Rightarrow> ustring list \<Rightarrow> (ustring \<times> toml_value) list
    \<Rightarrow> ustring + (ustring \<times> toml_value) list" where
  "expand lookup secrets table =
     (case expand_sections lookup secrets table of
        (t, []) \<Rightarrow> Inr t
      | (t, errors) \<Rightarrow> Inl (join (str ''; '') errors))"

section \<open>How a string expands\<close>

text \<open>One turn of the loop: what it writes and what is left, or the error.\<close>

definition turn :: "env_lookup \<Rightarrow> ustring \<Rightarrow> expand_error + ustring \<times> ustring" where
  "turn lookup rest =
     (case split_dollars rest of (before, run, after) \<Rightarrow>
        if after = [] \<or> hd after \<noteq> 123 then Inr (before @ replicate run 36, after)
        else if even run then Inr (before @ replicate (run div 2) 36, after)
        else if 125 \<notin> set (tl after) then Inl EE_Unterminated
        else let name = takeWhile (\<lambda>d. d \<noteq> 125) (tl after) in
          if \<not> is_valid_name name then Inl EE_InvalidReference
          else map_sum id (\<lambda>v. (before @ replicate (run div 2) 36 @ v, drop (Suc (length name)) (tl after)))
                 (resolve_var lookup name))"

lemma expand_loop_turn:
  "expand_loop lookup out rest =
     (if 36 \<notin> set rest then Inr (out @ rest)
      else case turn lookup rest of Inl e \<Rightarrow> Inl e | Inr (w, r) \<Rightarrow> expand_loop lookup (out @ w) r)"
proof -
  obtain b n a where s: "split_dollars rest = (b, n, a)" by (cases "split_dollars rest")
  show ?thesis
    unfolding expand_loop.simps [of lookup out rest] turn_def s
    by (cases a) (auto simp: Let_def split: sum.splits)
qed

lemma turn_shorter:
  assumes "36 \<in> set rest" "turn lookup rest = Inr (w, r)"
  shows "length r < length rest"
proof -
  obtain b n a where s: "split_dollars rest = (b, n, a)" by (cases "split_dollars rest")
  from split_dollars_less [OF assms(1) s] assms(2) s show ?thesis
    by (auto simp: turn_def Let_def split: if_splits sum.splits)
      (cases "resolve_var lookup (takeWhile (\<lambda>d. d \<noteq> 125) (tl a))"; auto)
qed

lemma expand_loop_plain: "36 \<notin> set rest \<Longrightarrow> expand_loop lookup out rest = Inr (out @ rest)"
  by (simp add: expand_loop_turn)

lemma expand_loop_out:
  "expand_loop lookup out rest = map_sum id ((@) out) (expand_loop lookup [] rest)"
proof (induction "length rest" arbitrary: out rest rule: less_induct)
  case less
  show ?case
  proof (cases "36 \<in> set rest")
    case True
    show ?thesis
    proof (cases "turn lookup rest")
      case (Inr p)
      obtain w r where p: "p = (w, r)" by (cases p)
      have "length r < length rest" using turn_shorter [OF True] Inr p by simp
      note IH = less [OF this, of "out @ w"] less [OF this, of w]
      have "expand_loop lookup out rest = expand_loop lookup (out @ w) r"
        "expand_loop lookup [] rest = expand_loop lookup w r"
        using True Inr p by (subst expand_loop_turn, simp)+
      then show ?thesis using IH by (cases "expand_loop lookup [] r") simp_all
    qed (use True in \<open>subst (1 2) expand_loop_turn, simp\<close>)
  qed (simp add: expand_loop_plain)
qed

section \<open>The loop ends\<close>

text \<open>The loop with its iterations counted: \<open>None\<close> when the budget does not suffice.\<close>

fun expand_within :: "env_lookup \<Rightarrow> nat \<Rightarrow> ustring \<Rightarrow> ustring \<Rightarrow> (expand_error + ustring) option" where
  "expand_within lookup n out rest =
     (if 36 \<notin> set rest then Some (Inr (out @ rest))
      else case n of
        0 \<Rightarrow> None
      | Suc k \<Rightarrow> (case turn lookup rest of Inl e \<Rightarrow> Some (Inl e) | Inr (w, r) \<Rightarrow> expand_within lookup k (out @ w) r))"

declare expand_within.simps [simp del]

lemma count_list_drop: "count_list (drop k xs) x \<le> count_list xs x"
  by (metis append_take_drop_id count_list_append le_add2)

lemma turn_spends_dollar:
  assumes "36 \<in> set rest" "turn lookup rest = Inr (w, r)"
  shows "count_list r 36 < count_list rest 36"
proof -
  obtain b n a where s: "rest = b @ replicate n 36 @ a" "0 < n" "split_dollars rest = (b, n, a)"
    using split_dollars_parts [OF assms(1)] by metis
  have "r = a \<or> r = drop (Suc (length (takeWhile (\<lambda>d. d \<noteq> 125) (tl a)))) (tl a)"
    using assms(2) s(3)
    by (cases "resolve_var lookup (takeWhile (\<lambda>d. d \<noteq> 125) (tl a))") (auto simp: turn_def Let_def split: if_splits)
  moreover have "count_list (drop k (tl a)) 36 \<le> count_list a 36" for k
    using count_list_drop [of k "tl a" 36] count_list_drop [of 1 a 36] by (simp add: drop_Suc)
  ultimately have "count_list r 36 \<le> count_list a 36" by auto
  then show ?thesis using s(1,2) by (cases n) (simp_all add: count_list_append)
qed

text \<open>
  C40. Expansion ends, whatever the text and the environment: the loop runs at most once per dollar sign of
  the text as written (values put in are never scanned, so they cannot keep it going), and with that
  many turns it delivers its result, an expanded string or an error.
\<close>

theorem expand_terminates:
  "expand_within lookup (count_list s 36) out s = Some (expand_loop lookup out s)"
proof -
  have "expand_within lookup n out s = Some (expand_loop lookup out s)" if "count_list s 36 \<le> n" for n
    using that
  proof (induction n arbitrary: out s)
    case 0
    then show ?case by (simp add: expand_within.simps expand_loop_plain count_list_0_iff)
  next
    case (Suc n)
    show ?case
    proof (cases "36 \<in> set s")
      case True
      show ?thesis
        using True Suc.IH Suc.prems turn_spends_dollar [OF True]
        by (subst expand_within.simps, subst expand_loop_turn) (fastforce split: sum.splits)
    qed (simp add: expand_within.simps expand_loop_plain)
  qed
  then show ?thesis by simp
qed

lemma expand_loop_run:
  assumes "36 \<notin> set b" "0 < n" "a = [] \<or> hd a \<noteq> 36"
  shows "a = [] \<or> hd a \<noteq> 123 \<Longrightarrow>
      expand_loop lookup out (b @ replicate n 36 @ a) = expand_loop lookup (out @ b @ replicate n 36) a"
    and "a = 123 # body \<Longrightarrow> even n \<Longrightarrow>
      expand_loop lookup out (b @ replicate n 36 @ a) = expand_loop lookup (out @ b @ replicate (n div 2) 36) a"
    and "a = 123 # name @ 125 # q \<Longrightarrow> odd n \<Longrightarrow> 125 \<notin> set name \<Longrightarrow> is_valid_name name \<Longrightarrow>
      resolve_var lookup name = Inr v \<Longrightarrow>
      expand_loop lookup out (b @ replicate n 36 @ a) = expand_loop lookup (out @ b @ replicate (n div 2) 36 @ v) q"
proof -
  note s = split_dollars_append [OF assms]
  have m: "36 \<in> set (b @ replicate n 36 @ a)" using assms(2) by simp
  note e = expand_loop_turn [of lookup out "b @ replicate n 36 @ a", unfolded turn_def s]
  show "a = [] \<or> hd a \<noteq> 123 \<Longrightarrow>
      expand_loop lookup out (b @ replicate n 36 @ a) = expand_loop lookup (out @ b @ replicate n 36) a"
    using m e by auto
  show "a = 123 # body \<Longrightarrow> even n \<Longrightarrow>
      expand_loop lookup out (b @ replicate n 36 @ a) = expand_loop lookup (out @ b @ replicate (n div 2) 36) a"
    using m e by simp
  show "expand_loop lookup out (b @ replicate n 36 @ a) = expand_loop lookup (out @ b @ replicate (n div 2) 36 @ v) q"
    if "a = 123 # name @ 125 # q" "odd n" "125 \<notin> set name" "is_valid_name name" "resolve_var lookup name = Inr v"
  proof -
    have "takeWhile (\<lambda>d. d \<noteq> 125) (name @ 125 # q) = name"
      using that(3) by (auto simp: takeWhile_append)
    then show ?thesis using m e that by simp
  qed
qed

text \<open>The escaped form of a literal text: a run of dollars before a brace is doubled.\<close>

function escape_refs :: "ustring \<Rightarrow> ustring" where
  "escape_refs s =
     (if 36 \<notin> set s then s
      else case split_dollars s of (b, n, a) \<Rightarrow>
        b @ replicate (if a \<noteq> [] \<and> hd a = 123 then 2 * n else n) 36 @ escape_refs a)"
  by pat_completeness auto
termination
  by (relation "measure length") (auto dest: split_dollars_less [OF _ sym])

declare escape_refs.simps [simp del]

lemma escape_refs_hd: "a \<noteq> [] \<Longrightarrow> hd a \<noteq> 36 \<Longrightarrow> escape_refs a \<noteq> [] \<and> hd (escape_refs a) = hd a"
proof (cases "36 \<in> set a")
  case True
  assume "a \<noteq> []" "hd a \<noteq> 36"
  moreover obtain b n r where p: "a = b @ replicate n 36 @ r" "36 \<notin> set b" "0 < n" "r = [] \<or> hd r \<noteq> 36"
    "split_dollars a = (b, n, r)" using True by (rule split_dollars_parts)
  ultimately have "b \<noteq> []" by (cases n) auto
  then show ?thesis using True p(5) by (subst (1 2) escape_refs.simps) (simp, simp add: p(1))
qed (simp add: escape_refs.simps)

lemma escape_refs_plain:
  "\<nexists>p q. s = p @ [36, 123] @ q \<Longrightarrow> escape_refs s = s"
proof (induction "length s" arbitrary: s rule: less_induct)
  case less
  show ?case
  proof (cases "36 \<in> set s")
    case True
    then obtain b n a where p: "s = b @ replicate n 36 @ a" "0 < n" "split_dollars s = (b, n, a)"
      by (rule split_dollars_parts)
    have no: "\<not> (a \<noteq> [] \<and> hd a = 123)"
    proof
      assume "a \<noteq> [] \<and> hd a = 123"
      then obtain q where "a = 123 # q" by (cases a) auto
      moreover obtain m where "n = Suc m" using p(2) by (cases n) auto
      ultimately have "s = (b @ replicate m 36) @ [36, 123] @ q"
        using p(1) by (simp add: replicate_append_same [symmetric])
      with less.prems show False by blast
    qed
    have "\<nexists>p q. a = p @ [36, 123] @ q"
      using less.prems p(1) by (metis append.assoc)
    with less.hyps [of a] p(1,2) have "escape_refs a = a" by simp
    with True no p show ?thesis by (subst escape_refs.simps) simp
  qed (simp add: escape_refs.simps)
qed

lemma expand_escaped: "expand_loop lookup [] (escape_refs s) = Inr s"
proof (induction "length s" arbitrary: s rule: less_induct)
  case less
  show ?case
  proof (cases "36 \<in> set s")
    case True
    then obtain b n a where p: "s = b @ replicate n 36 @ a" "36 \<notin> set b" "0 < n" "a = [] \<or> hd a \<noteq> 36"
      "split_dollars s = (b, n, a)" by (rule split_dollars_parts)
    have IH: "expand_loop lookup o' (escape_refs a) = Inr (o' @ a)" for o'
      using less [of a] p(1,3) by (subst expand_loop_out) simp
    let ?m = "if a \<noteq> [] \<and> hd a = 123 then 2 * n else n"
    have esc: "escape_refs s = b @ replicate ?m 36 @ escape_refs a"
      using True p(5) by (subst escape_refs.simps) simp
    have e: "escape_refs a = [] \<or> hd (escape_refs a) \<noteq> 36" and m: "0 < ?m"
      using p(3,4) escape_refs_hd [of a] by (cases a; auto simp: escape_refs.simps [of "[]"])+
    show ?thesis
    proof (cases "a \<noteq> [] \<and> hd a = 123")
      case True
      then have "escape_refs a = 123 # tl (escape_refs a)"
        using escape_refs_hd [of a] by (cases "escape_refs a") auto
      from expand_loop_run(2) [OF p(2) m e this] True IH show ?thesis unfolding esc by (simp add: p(1))
    next
      case False
      then have "escape_refs a = [] \<or> hd (escape_refs a) \<noteq> 123"
        using escape_refs_hd [of a] p(4) by (cases a) (auto simp: escape_refs.simps [of "[]"])
      from expand_loop_run(1) [OF p(2) m e this] False IH show ?thesis unfolding esc by (auto simp: p(1))
    qed
  qed (simp add: expand_loop_plain escape_refs.simps)
qed

text \<open>
  C24. Any text can be written: doubling the dollars before each brace and expanding gives the text
  back, in every setting and whatever the environment holds; and a text in which no \<^verbatim>\<open>${\<close> occurs is its own
  escaped form, so it keeps the meaning it had before expansion existed.
\<close>

theorem expand_escape_roundtrip:
  "expand_str lookup secret (escape_refs s) = Inr s \<and>
   ((\<nexists>p q. s = p @ [36, 123] @ q) \<longrightarrow> expand_str lookup secret s = Inr s)"
  using expand_escaped [of lookup s] escape_refs_plain [of s] by (auto simp: expand_str_def result_simps)

theorem expand_escape_roundtrip_witness:
  "expand_str (\<lambda>_. Inl NotPresent) False (str ''pa$$word'') = Inr (str ''pa$$word'')"
proof -
  have "\<nexists>p q. str ''pa$$word'' = p @ [36, 123] @ q"
  proof
    assume "\<exists>p q. str ''pa$$word'' = p @ [36, 123] @ q"
    then have "123 \<in> set (str ''pa$$word'')" by auto
    then show False by (simp add: str_def)
  qed
  with expand_escape_roundtrip [of "\<lambda>_. Inl NotPresent" False "str ''pa$$word''"] show ?thesis by blast
qed

lemma valid_name_chars: "is_valid_name name \<Longrightarrow> c \<in> set name \<Longrightarrow> is_ascii_alphanumeric c \<or> c = 95"
  by (cases name) (auto simp: list_all_iff is_ascii_alphanumeric_def)

lemma valid_name_plain: "is_valid_name name \<Longrightarrow> 36 \<notin> set name \<and> 125 \<notin> set name"
  using valid_name_chars [of name 36] valid_name_chars [of name 125]
  by (auto simp: is_ascii_alphanumeric_def is_ascii_alphabetic_def is_digit_def)

lemma resolve_var_ok:
  "resolve_var lookup name = Inr v \<longleftrightarrow>
     lookup name = Inr v \<and> v \<noteq> [] \<and> \<not> is_padding (hd v) \<and> \<not> is_padding (last v)"
  by (cases v) (auto simp: resolve_var_def list_all_iff split: sum.splits var_error.splits if_splits)

text \<open>
  A reference is replaced by the variable's value and nothing else changes: the value is inserted
  as it is, not scanned again, and the rest of the text expands on its own.
\<close>

lemma reference_replaced:
  assumes "36 \<notin> set p" "is_valid_name name"
    and "lookup name = Inr v" "v \<noteq> []" "\<not> is_padding (hd v)" "\<not> is_padding (last v)"
  shows "expand_str lookup secret (p @ [36, 123] @ name @ [125] @ q) =
    map_sum id (\<lambda>r. p @ v @ r) (expand_str lookup secret q)"
proof -
  have "expand_loop lookup [] (p @ replicate 1 36 @ (123 # name @ 125 # q)) = expand_loop lookup (p @ v) q"
    using expand_loop_run(3) [OF assms(1), of 1 "123 # name @ 125 # q" name q lookup v "[]"] assms(2-) valid_name_plain [OF assms(2)]
    by (simp add: resolve_var_ok)
  then show ?thesis
    by (simp add: expand_str_def expand_loop_out [of lookup "p @ v"])
      (cases "expand_loop lookup [] q"; simp)
qed


section \<open>What an error says\<close>

lemma resolve_var_error:
  "resolve_var lookup name = Inl e \<Longrightarrow> e \<in> {EE_Blank name, EE_Padded name, EE_NotSet name, EE_NotUnicode name}"
  by (auto simp: resolve_var_def split: sum.splits var_error.splits if_splits)

lemma turn_error:
  assumes "36 \<in> set s" "turn lookup s = Inl e"
  shows "e \<in> {EE_Unterminated, EE_InvalidReference} \<or>
    (\<exists>p name q. s = p @ [36, 123] @ name @ [125] @ q \<and> is_valid_name name \<and> resolve_var lookup name = Inl e)"
proof -
  obtain b n a where p: "s = b @ replicate n 36 @ a" "0 < n" "split_dollars s = (b, n, a)"
    using assms(1) by (rule split_dollars_parts)
  show ?thesis
  proof (cases "e \<in> {EE_Unterminated, EE_InvalidReference}")
    case False
    let ?name = "takeWhile (\<lambda>d. d \<noteq> 125) (tl a)"
    from False assms(2) p(3) have a: "a = 123 # tl a" "125 \<in> set (tl a)" "is_valid_name ?name"
      "resolve_var lookup ?name = Inl e"
      by (cases a; cases "resolve_var lookup ?name"; auto simp: turn_def Let_def split: if_splits)+
    obtain m where m: "n = Suc m" using p(2) by (cases n) auto
    obtain q where q: "tl a = ?name @ [125] @ q"
      using split_list_first [OF a(2)] by (auto simp: takeWhile_append)
    have "s = (b @ replicate m 36) @ [36, 123] @ ?name @ [125] @ q"
      unfolding p(1) m by (subst a(1), subst q) (simp add: replicate_append_same [symmetric])
    with a show ?thesis by blast
  qed simp
qed

lemma turn_suffix: "36 \<in> set s \<Longrightarrow> turn lookup s = Inr (w, r) \<Longrightarrow> \<exists>p. s = p @ r"
proof -
  assume "36 \<in> set s" and t: "turn lookup s = Inr (w, r)"
  obtain b n a where p: "s = b @ replicate n 36 @ a" "split_dollars s = (b, n, a)"
    using \<open>36 \<in> set s\<close> by (rule split_dollars_parts)
  from t p(2) consider "r = a" | k where "r = drop k (tl a)"
    by (cases a; cases "resolve_var lookup (takeWhile (\<lambda>d. d \<noteq> 125) (tl a))")
      (auto simp: turn_def Let_def split: if_splits)
  then show "\<exists>p. s = p @ r"
  proof cases
    case 2
    then have "a = (take 1 a @ take k (tl a)) @ r" by (cases a) simp_all
    then show ?thesis using p(1) by (metis append.assoc)
  qed (use p in auto)
qed

lemma expand_loop_error:
  "expand_loop lookup out s = Inl e \<Longrightarrow>
     e \<in> {EE_Unterminated, EE_InvalidReference} \<or>
     (\<exists>p name q. s = p @ [36, 123] @ name @ [125] @ q \<and> is_valid_name name \<and> resolve_var lookup name = Inl e)"
proof (induction "length s" arbitrary: out s rule: less_induct)
  case less
  from less.prems have d: "36 \<in> set s" by (auto simp: expand_loop_turn [of lookup out s] split: if_splits)
  show ?case
  proof (cases "turn lookup s")
    case (Inl e')
    then have "e' = e" using less.prems d by (simp add: expand_loop_turn [of lookup out s])
    with turn_error [OF d] Inl show ?thesis by blast
  next
    case (Inr wr)
    obtain w r where wr: "wr = (w, r)" by (cases wr)
    have "expand_loop lookup (out @ w) r = Inl e"
      using less.prems d Inr wr by (simp add: expand_loop_turn [of lookup out s])
    note IH = less.hyps [OF turn_shorter [OF d Inr [unfolded wr]] this]
    obtain p where "s = p @ r" using turn_suffix [OF d Inr [unfolded wr]] by blast
    with IH show ?thesis by (metis append.assoc)
  qed
qed

text \<open>The messages a secret setting can produce.\<close>

definition secret_messages :: "ustring list" where
  "secret_messages = map (expand_error_display True)
     [EE_Unterminated, EE_InvalidReference, EE_Blank [], EE_Padded [], EE_NotSet [], EE_NotUnicode []]"

text \<open>
  C25. Errors leak nothing: in a secret setting the message is one of six constants, whatever the
  text, the names in it and the environment; elsewhere it is either one of the two constants or names
  a variable that is a well-formed reference of this very setting, and in no case does it depend on
  the value of any variable beyond which of the checks failed.
\<close>

theorem expand_errors_leak_nothing:
  assumes "expand_str lookup secret s = Inl msg"
  shows "(secret \<longrightarrow> msg \<in> set secret_messages) \<and>
    (\<not> secret \<longrightarrow> msg \<in> set (take 2 secret_messages) \<or>
       (\<exists>p name q. s = p @ [36, 123] @ name @ [125] @ q \<and> is_valid_name name \<and>
          msg \<in> expand_error_display False ` {EE_Blank name, EE_Padded name, EE_NotSet name, EE_NotUnicode name}))"
proof -
  from assms obtain e where e: "expand_loop lookup [] s = Inl e" "msg = expand_error_display secret e"
    by (auto simp: expand_str_def result_simps)
  consider "e \<in> {EE_Unterminated, EE_InvalidReference}"
    | p name q where "s = p @ [36, 123] @ name @ [125] @ q" "is_valid_name name"
        "e \<in> {EE_Blank name, EE_Padded name, EE_NotSet name, EE_NotUnicode name}"
    using expand_loop_error [OF e(1)] resolve_var_error by blast
  then show ?thesis
  proof cases
    case 1
    then show ?thesis using e(2) by (auto simp: secret_messages_def)
  next
    case 2
    show ?thesis
    proof (cases secret)
      case True
      with 2(3) e(2) show ?thesis by (auto simp: secret_messages_def expand_error_var_def)
    next
      case False
      have "msg \<in> expand_error_display False ` {EE_Blank name, EE_Padded name, EE_NotSet name, EE_NotUnicode name}"
        unfolding e(2) using False 2(3) by (metis (full_types) imageI)
      then show ?thesis using 2(1,2) False by metis
    qed
  qed
qed

theorem expand_errors_leak_nothing_witness:
  "str ''a referenced environment variable is not set'' \<in> set secret_messages"
proof -
  have d: "36 \<in> set (str ''${A}'')" by (simp add: str_def)
  have t: "turn (\<lambda>_. Inl NotPresent) (str ''${A}'') = Inl (EE_NotSet [65])"
    by (simp add: turn_def split_dollars_def str_def resolve_var_def is_ascii_alphabetic_def)
  have "expand_str (\<lambda>_. Inl NotPresent) True (str ''${A}'') =
      Inl (str ''a referenced environment variable is not set'')"
    using d t by (simp add: expand_str_def expand_loop_turn [of _ _ "str ''${A}''"] expand_error_var_def str_append [symmetric])
  from expand_errors_leak_nothing [OF this] show ?thesis by simp
qed

section \<open>The whole file\<close>

text \<open>Every string of a value with the name errors print for it, and the value with its strings blanked.\<close>

fun value_settings :: "ustring \<Rightarrow> toml_value \<Rightarrow> (ustring \<times> ustring) list"
  and item_settings :: "ustring \<Rightarrow> nat \<Rightarrow> toml_value list \<Rightarrow> (ustring \<times> ustring) list"
  and entry_settings :: "ustring \<Rightarrow> (ustring \<times> toml_value) list \<Rightarrow> (ustring \<times> ustring) list" where
  "value_settings path (TString s) = [(path, s)]"
| "value_settings path (TArray items) = item_settings path 0 items"
| "value_settings path (TTable entries) = entry_settings (path @ str ''.'') entries"
| "value_settings path _ = []"
| "item_settings path i [] = []"
| "item_settings path i (v # vs) =
     value_settings (path @ str ''['' @ dec_nat i @ str '']'') v @ item_settings path (Suc i) vs"
| "entry_settings prefix [] = []"
| "entry_settings prefix ((k, v) # vs) = value_settings (prefix @ k) v @ entry_settings prefix vs"

fun blank_value :: "toml_value \<Rightarrow> toml_value" where
  "blank_value (TString s) = TString []"
| "blank_value (TArray items) = TArray (map blank_value items)"
| "blank_value (TTable entries) = TTable (map (\<lambda>(k, v). (k, blank_value v)) entries)"
| "blank_value v = v"

definition table_settings :: "(ustring \<times> toml_value) list \<Rightarrow> (ustring \<times> ustring) list" where
  "table_settings table = concat (map (\<lambda>(k, v). value_settings (str ''['' @ k @ str '']'') v) table)"

definition setting_errors :: "env_lookup \<Rightarrow> ustring list \<Rightarrow> (ustring \<times> ustring) list \<Rightarrow> ustring list" where
  "setting_errors lookup secrets ps =
     concat (map (\<lambda>(path, s). case expand_str lookup (path \<in> set secrets) s of
       Inl e \<Rightarrow> [path @ str '': '' @ e] | Inr _ \<Rightarrow> []) ps)"

definition expanded_setting :: "env_lookup \<Rightarrow> ustring list \<Rightarrow> ustring \<times> ustring \<Rightarrow> ustring \<times> ustring" where
  "expanded_setting lookup secrets p =
     (case expand_str lookup (fst p \<in> set secrets) (snd p) of Inr t \<Rightarrow> (fst p, t) | Inl _ \<Rightarrow> p)"

lemma setting_errors_append [simp]:
  "setting_errors lookup secrets (ps @ qs) = setting_errors lookup secrets ps @ setting_errors lookup secrets qs"
  by (simp add: setting_errors_def)

lemma setting_error_single:
  "setting_errors lookup secrets [] = []"
  "setting_errors lookup secrets [(path, s)] =
     (case expand_str lookup (path \<in> set secrets) s of Inl e \<Rightarrow> [path @ str '': '' @ e] | Inr _ \<Rightarrow> [])"
  by (simp_all add: setting_errors_def)

lemma expand_walk:
  "snd (expand_value lookup secrets path v) = setting_errors lookup secrets (value_settings path v) \<and>
   value_settings path (fst (expand_value lookup secrets path v)) =
     map (expanded_setting lookup secrets) (value_settings path v) \<and>
   blank_value (fst (expand_value lookup secrets path v)) = blank_value v"
  "snd (expand_items lookup secrets path i vs) = setting_errors lookup secrets (item_settings path i vs) \<and>
   item_settings path i (fst (expand_items lookup secrets path i vs)) =
     map (expanded_setting lookup secrets) (item_settings path i vs) \<and>
   map blank_value (fst (expand_items lookup secrets path i vs)) = map blank_value vs"
  "snd (expand_entries lookup secrets prefix es) = setting_errors lookup secrets (entry_settings prefix es) \<and>
   entry_settings prefix (fst (expand_entries lookup secrets prefix es)) =
     map (expanded_setting lookup secrets) (entry_settings prefix es) \<and>
   map (\<lambda>(k, v). (k, blank_value v)) (fst (expand_entries lookup secrets prefix es)) =
     map (\<lambda>(k, v). (k, blank_value v)) es"
  by (induction path v and path i vs and prefix es rule: value_settings_item_settings_entry_settings.induct)
    (auto simp: setting_error_single expanded_setting_def split: sum.splits prod.splits)

lemma expand_value_walk:
  "expand_value lookup secrets path v = (v', es) \<Longrightarrow>
     es = setting_errors lookup secrets (value_settings path v) \<and>
     value_settings path v' = map (expanded_setting lookup secrets) (value_settings path v) \<and>
     blank_value v' = blank_value v"
  using expand_walk(1) [of lookup secrets path v] by simp

lemma expand_sections_walk:
  "snd (expand_sections lookup secrets t) = setting_errors lookup secrets (table_settings t) \<and>
   table_settings (fst (expand_sections lookup secrets t)) =
     map (expanded_setting lookup secrets) (table_settings t) \<and>
   map (\<lambda>(k, v). (k, blank_value v)) (fst (expand_sections lookup secrets t)) =
     map (\<lambda>(k, v). (k, blank_value v)) t"
  by (induction t)
    (auto simp: table_settings_def setting_error_single split: prod.splits dest!: expand_value_walk)

text \<open>
  C23. Expansion of a whole file: it fails exactly when some string setting fails, and then reports
  every failing setting, each by its own name, in file order; when it succeeds every string setting
  holds its expanded text and nothing else of the file has changed: same keys, same nesting, same
  list lengths, same numbers, booleans and dates.
\<close>

theorem expand_reports_all:
  "(case expand lookup secrets table of
      Inl msg \<Rightarrow> setting_errors lookup secrets (table_settings table) \<noteq> [] \<and>
        msg = join (str ''; '') (setting_errors lookup secrets (table_settings table))
    | Inr t \<Rightarrow> setting_errors lookup secrets (table_settings table) = [] \<and>
        table_settings t = map (expanded_setting lookup secrets) (table_settings table) \<and>
        map (\<lambda>(k, v). (k, blank_value v)) t = map (\<lambda>(k, v). (k, blank_value v)) table)"
  using expand_sections_walk [of lookup secrets table]
  by (cases "expand_sections lookup secrets table") (auto simp: expand_def split: list.splits)

end
