(* ===== verification/Ratelimit.thy ===== *)
theory Ratelimit
  imports Features
begin

text \<open>
  Per-client rate limiting (\<^verbatim>\<open>src/proxy/src/ratelimit.rs\<close>).  The counters live in
  \<^verbatim>\<open>pingora_limits::rate::Rate\<close> and the patterns in \<^verbatim>\<open>globset::Glob\<close>, two packages outside the
  sources, so both are parameters: \<open>rate_ops\<close> holds the estimator's constructor and \<open>observe\<close>
  (with the time it reads made explicit and the changed estimator returned), \<open>glob_ops\<close> the
  pattern compiler and its match.  \<open>isize\<close> and \<open>u64\<close> settings are \<open>int\<close> and \<open>nat\<close>.
\<close>

section \<open>Data\<close>

record 'r rate_ops =
  rate_new :: "instant \<Rightarrow> duration \<Rightarrow> 'r"
  rate_observe :: "'r \<Rightarrow> instant \<Rightarrow> ip_addr \<Rightarrow> int \<Rightarrow> int \<times> 'r"

record rule_config =
  rc_pattern :: ustring
  rc_window_secs :: nat
  rc_max_requests :: int

record rate_limit_config =
  rl_enabled :: bool
  rl_window_secs :: nat
  rl_max_requests :: int
  rl_rules :: "rule_config list"

record 'r limit =
  lim_rate :: 'r
  lim_max :: int

record ('g, 'r) rule =
  rule_matcher :: 'g
  rule_limit :: "'r limit"

record ('g, 'r) rate_limiter =
  rl_universal :: "'r limit option"
  rl_rule_list :: "('g, 'r) rule list"

datatype rate_error =
    RuleZeroWindow ustring
  | RuleBadMax ustring int
  | RuleBadPattern ustring ustring
  | RateNothingConfigured

section \<open>Operations\<close>

text \<open>\<^verbatim>\<open>Limit::new\<close> and \<^verbatim>\<open>Limit::admit\<close>.\<close>

definition limit_new :: "'r rate_ops \<Rightarrow> instant \<Rightarrow> nat \<Rightarrow> int \<Rightarrow> 'r limit" where
  "limit_new ro t window_secs mx = \<lparr>lim_rate = rate_new ro t (from_secs window_secs), lim_max = mx\<rparr>"

definition limit_admit :: "'r rate_ops \<Rightarrow> instant \<Rightarrow> 'r limit \<Rightarrow> ip_addr \<Rightarrow> bool \<times> 'r limit" where
  "limit_admit ro t l ip =
     (let (c, r) = rate_observe ro (lim_rate l) t ip 1 in (c \<le> lim_max l, l\<lparr>lim_rate := r\<rparr>))"

text \<open>\<^verbatim>\<open>RateLimiter::from_config\<close>, with the body of its loop over the rules.\<close>

definition rule_from_config ::
  "'r rate_ops \<Rightarrow> 'g glob_ops \<Rightarrow> instant \<Rightarrow> rule_config \<Rightarrow> rate_error + ('g, 'r) rule" where
  "rule_from_config ro go t r =
     rbind (ensure (rc_window_secs r \<noteq> 0) (RuleZeroWindow (rc_pattern r))) (\<lambda>_.
     rbind (ensure (\<not> rc_max_requests r \<le> 0) (RuleBadMax (rc_pattern r) (rc_max_requests r))) (\<lambda>_.
     rbind (map_err (RuleBadPattern (rc_pattern r)) (glob_new go (rc_pattern r))) (\<lambda>m.
     Inr \<lparr>rule_matcher = m, rule_limit = limit_new ro t (rc_window_secs r) (rc_max_requests r)\<rparr>)))"

definition universal_of :: "'r rate_ops \<Rightarrow> instant \<Rightarrow> rate_limit_config \<Rightarrow> 'r limit option" where
  "universal_of ro t cfg =
     (if rl_window_secs cfg > 0 \<and> rl_max_requests cfg > 0
      then Some (limit_new ro t (rl_window_secs cfg) (rl_max_requests cfg)) else None)"

definition ratelimit_from_config ::
  "'r rate_ops \<Rightarrow> 'g glob_ops \<Rightarrow> instant \<Rightarrow> rate_limit_config \<Rightarrow> rate_error + ('g, 'r) rate_limiter option" where
  "ratelimit_from_config ro go t cfg =
     (if \<not> rl_enabled cfg then Inr None
      else
        rbind (mapM (rule_from_config ro go t) (rl_rules cfg)) (\<lambda>rules.
        rbind (ensure (universal_of ro t cfg \<noteq> None \<or> rules \<noteq> []) RateNothingConfigured) (\<lambda>_.
        Inr (Some \<lparr>rl_universal = universal_of ro t cfg, rl_rule_list = rules\<rparr>))))"

text \<open>\<^verbatim>\<open>RateLimiter::admit\<close>: the universal cap first, then the first rule that matches.\<close>

fun admit_rules ::
  "'r rate_ops \<Rightarrow> 'g glob_ops \<Rightarrow> instant \<Rightarrow> ip_addr \<Rightarrow> ustring \<Rightarrow> ('g, 'r) rule list
   \<Rightarrow> bool \<times> ('g, 'r) rule list" where
  "admit_rules ro go t ip target [] = (True, [])"
| "admit_rules ro go t ip target (r # rs) =
     (if glob_is_match go (rule_matcher r) target then
        (let (ok, l) = limit_admit ro t (rule_limit r) ip in (ok, r\<lparr>rule_limit := l\<rparr> # rs))
      else (let (ok, rs') = admit_rules ro go t ip target rs in (ok, r # rs')))"

definition rate_admit ::
  "'r rate_ops \<Rightarrow> 'g glob_ops \<Rightarrow> instant \<Rightarrow> ('g, 'r) rate_limiter \<Rightarrow> ip_addr \<Rightarrow> ustring
   \<Rightarrow> bool \<times> ('g, 'r) rate_limiter" where
  "rate_admit ro go t rl ip target =
     (case rl_universal rl of
        None \<Rightarrow>
          (let (ok, rs) = admit_rules ro go t ip target (rl_rule_list rl) in (ok, rl\<lparr>rl_rule_list := rs\<rparr>))
      | Some u \<Rightarrow>
          (let (ok, u') = limit_admit ro t u ip; rl' = rl\<lparr>rl_universal := Some u'\<rparr> in
           if \<not> ok then (False, rl')
           else (let (ok', rs) = admit_rules ro go t ip target (rl_rule_list rl') in
                 (ok', rl'\<lparr>rl_rule_list := rs\<rparr>))))"

section \<open>A built limiter\<close>

definition rule_of :: "'r rate_ops \<Rightarrow> 'g glob_ops \<Rightarrow> instant \<Rightarrow> rule_config \<Rightarrow> ('g, 'r) rule \<Rightarrow> bool" where
  "rule_of ro go t c r \<longleftrightarrow>
     rc_window_secs c > 0 \<and> rc_max_requests c > 0 \<and> glob_new go (rc_pattern c) = Inr (rule_matcher r) \<and>
     rule_limit r = limit_new ro t (rc_window_secs c) (rc_max_requests c)"

definition limiter_of ::
  "'r rate_ops \<Rightarrow> 'g glob_ops \<Rightarrow> instant \<Rightarrow> rate_limit_config \<Rightarrow> ('g, 'r) rate_limiter \<Rightarrow> bool" where
  "limiter_of ro go t cfg rl \<longleftrightarrow>
     rl_universal rl = universal_of ro t cfg \<and>
     list_all2 (rule_of ro go t) (rl_rules cfg) (rl_rule_list rl) \<and>
     (rl_universal rl \<noteq> None \<or> rl_rule_list rl \<noteq> [])"

lemma rule_from_config_eq: "rule_from_config ro go t c = Inr r \<longleftrightarrow> rule_of ro go t c r"
  by (cases r) (auto simp: rule_from_config_def rule_of_def result_simps)

lemma rules_from_config_eq:
  "mapM (rule_from_config ro go t) cs = Inr rs \<longleftrightarrow> list_all2 (rule_of ro go t) cs rs"
proof (induction cs arbitrary: rs)
  case (Cons c cs)
  then show ?case by (cases rs) (auto simp: result_simps rule_from_config_eq)
qed auto

lemma ratelimit_from_config_eq:
  "ratelimit_from_config ro go t cfg = Inr (Some rl) \<longleftrightarrow> rl_enabled cfg \<and> limiter_of ro go t cfg rl"
  by (cases rl)
    (auto simp: ratelimit_from_config_def limiter_of_def result_simps rules_from_config_eq)

interpretation ratelimit_feature: optional_feature rl_enabled "ratelimit_from_config ro go t" "limiter_of ro go t"
  for ro :: "'r rate_ops" and go :: "'g glob_ops" and t :: instant
proof unfold_locales
  fix cfg
  show "ratelimit_from_config ro go t cfg = Inr None" if "\<not> rl_enabled cfg"
    using that by (simp add: ratelimit_from_config_def)
  fix r
  assume "rl_enabled cfg" and r: "ratelimit_from_config ro go t cfg = Inr r"
  then have "r \<noteq> None" by (auto simp: ratelimit_from_config_def result_simps)
  then show "\<exists>p. r = Some p \<and> limiter_of ro go t cfg p"
    using r ratelimit_from_config_eq [of ro go t cfg] by auto
qed

section \<open>What the estimator promises\<close>

text \<open>
  The documented behaviour of \<^verbatim>\<open>Rate::observe\<close>: it adds the event to the current interval and returns
  the number of events of that key in the interval.  \<open>interval r t\<close> is the number of the interval that
  holds time \<open>t\<close>, \<open>seen r w ip\<close> the events of \<open>ip\<close> recorded in interval \<open>w\<close>.  The estimator is a sketch
  that may count other keys' events too, so \<open>rate_counts\<close> only says it never reports fewer than there
  were; \<open>rate_exact\<close> adds that it reports no more.
\<close>

definition rate_counts ::
  "'r rate_ops \<Rightarrow> ('r \<Rightarrow> instant \<Rightarrow> nat) \<Rightarrow> ('r \<Rightarrow> nat \<Rightarrow> ip_addr \<Rightarrow> nat) \<Rightarrow> bool" where
  "rate_counts ro interval seen \<longleftrightarrow>
     (\<forall>t d w ip. seen (rate_new ro t d) w ip = 0) \<and>
     (\<forall>r t ip c r'. rate_observe ro r t ip 1 = (c, r') \<longrightarrow>
        int (seen r (interval r t) ip) + 1 \<le> c \<and> interval r' = interval r \<and>
        (\<forall>w ip'. seen r' w ip' = seen r w ip' + (if w = interval r t \<and> ip' = ip then 1 else 0)))"

definition rate_exact ::
  "'r rate_ops \<Rightarrow> ('r \<Rightarrow> instant \<Rightarrow> nat) \<Rightarrow> ('r \<Rightarrow> nat \<Rightarrow> ip_addr \<Rightarrow> nat) \<Rightarrow> bool" where
  "rate_exact ro interval seen \<longleftrightarrow> rate_counts ro interval seen \<and>
     (\<forall>r t ip. fst (rate_observe ro r t ip 1) = int (seen r (interval r t) ip) + 1)"

lemma rate_counts_new: "rate_counts ro iv seen \<Longrightarrow> seen (rate_new ro t d) w ip = 0"
  by (simp add: rate_counts_def)

lemma limit_admit_counts:
  assumes "rate_counts ro iv seen" "limit_admit ro t l ip = (ok, l')"
  shows "ok \<Longrightarrow> int (seen (lim_rate l) (iv (lim_rate l) t) ip) < lim_max l"
    and "lim_max l' = lim_max l" and "iv (lim_rate l') = iv (lim_rate l)"
    and "seen (lim_rate l') w ip' =
      seen (lim_rate l) w ip' + (if w = iv (lim_rate l) t \<and> ip' = ip then 1 else 0)"
proof -
  obtain c r where o: "rate_observe ro (lim_rate l) t ip 1 = (c, r)" by fastforce
  with assms(1) have c: "int (seen (lim_rate l) (iv (lim_rate l) t) ip) + 1 \<le> c" "iv r = iv (lim_rate l)"
    "seen r w ip' = seen (lim_rate l) w ip' + (if w = iv (lim_rate l) t \<and> ip' = ip then 1 else 0)"
    unfolding rate_counts_def by blast+
  from o assms(2) have l': "l' = l\<lparr>lim_rate := r\<rparr>" "ok \<longleftrightarrow> c \<le> lim_max l" by (auto simp: limit_admit_def)
  show "ok \<Longrightarrow> int (seen (lim_rate l) (iv (lim_rate l) t) ip) < lim_max l" using c(1) l'(2) by simp
  show "lim_max l' = lim_max l" "iv (lim_rate l') = iv (lim_rate l)"
    "seen (lim_rate l') w ip' =
      seen (lim_rate l) w ip' + (if w = iv (lim_rate l) t \<and> ip' = ip then 1 else 0)"
    using c(2,3) l'(1) by simp_all
qed

lemma limit_admit_exact:
  assumes "rate_exact ro iv seen"
  shows "fst (limit_admit ro t l ip) \<longleftrightarrow> int (seen (lim_rate l) (iv (lim_rate l) t) ip) < lim_max l"
  using assms by (auto simp: rate_exact_def limit_admit_def case_prod_beta)

section \<open>Which counters a request is charged to\<close>

fun first_match :: "'g glob_ops \<Rightarrow> ('g, 'r) rule list \<Rightarrow> ustring \<Rightarrow> nat option" where
  "first_match go [] target = None"
| "first_match go (r # rs) target =
     (if glob_is_match go (rule_matcher r) target then Some 0 else map_option Suc (first_match go rs target))"

lemma first_match_spec:
  "first_match go rs target = Some i \<longleftrightarrow>
     i < length rs \<and> glob_is_match go (rule_matcher (rs ! i)) target \<and>
     (\<forall>j < i. \<not> glob_is_match go (rule_matcher (rs ! j)) target)"
proof (induction rs arbitrary: i)
  case (Cons r rs)
  then show ?case by (cases i) (auto simp: All_less_Suc2)
qed simp

lemma first_match_cong:
  "map rule_matcher rs = map rule_matcher rs' \<Longrightarrow> first_match go rs target = first_match go rs' target"
proof (induction rs arbitrary: rs')
  case (Cons r rs)
  then show ?case by (cases rs') auto
qed simp

lemma admit_rules_eq:
  "admit_rules ro go t ip target rs =
     (case first_match go rs target of
        None \<Rightarrow> (True, rs)
      | Some i \<Rightarrow> (fst (limit_admit ro t (rule_limit (rs ! i)) ip),
                  rs[i := (rs ! i)\<lparr>rule_limit := snd (limit_admit ro t (rule_limit (rs ! i)) ip)\<rparr>]))"
  by (induction rs) (auto simp: case_prod_beta split: option.splits)

lemma admit_rules_matchers:
  "map rule_matcher (snd (admit_rules ro go t ip target rs)) = map rule_matcher rs"
  by (induction rs) (auto simp: case_prod_beta)

definition universal_ok :: "'r rate_ops \<Rightarrow> instant \<Rightarrow> ('g, 'r) rate_limiter \<Rightarrow> ip_addr \<Rightarrow> bool" where
  "universal_ok ro t rl ip =
     (case rl_universal rl of None \<Rightarrow> True | Some u \<Rightarrow> fst (limit_admit ro t u ip))"

lemma rate_admit_parts:
  "fst (rate_admit ro go t rl ip target) \<longleftrightarrow>
     universal_ok ro t rl ip \<and> fst (admit_rules ro go t ip target (rl_rule_list rl))"
  "rl_universal (snd (rate_admit ro go t rl ip target)) =
     map_option (\<lambda>u. snd (limit_admit ro t u ip)) (rl_universal rl)"
  "rl_rule_list (snd (rate_admit ro go t rl ip target)) =
     (if universal_ok ro t rl ip then snd (admit_rules ro go t ip target (rl_rule_list rl))
      else rl_rule_list rl)"
  by (auto simp: rate_admit_def universal_ok_def case_prod_beta Let_def split: option.splits)

text \<open>
  The whole effect of one request on the limiter, for every limiter and estimator.  The universal
  counter is charged for every request, whatever its target; if that layer refuses, no rule is
  charged and the request is refused; otherwise the first matching rule in file order, and only that
  one, is charged and decides; a request no rule matches passes.
\<close>

lemma rate_admit_charges:
  "rl_universal (snd (rate_admit ro go t rl ip target)) =
     map_option (\<lambda>u. snd (limit_admit ro t u ip)) (rl_universal rl) \<and>
   (if \<not> universal_ok ro t rl ip then
      \<not> fst (rate_admit ro go t rl ip target) \<and>
      rl_rule_list (snd (rate_admit ro go t rl ip target)) = rl_rule_list rl
    else case first_match go (rl_rule_list rl) target of
      None \<Rightarrow> fst (rate_admit ro go t rl ip target) \<and>
        rl_rule_list (snd (rate_admit ro go t rl ip target)) = rl_rule_list rl
    | Some i \<Rightarrow>
        (let (ok, l) = limit_admit ro t (rule_limit (rl_rule_list rl ! i)) ip in
         fst (rate_admit ro go t rl ip target) = ok \<and>
         rl_rule_list (snd (rate_admit ro go t rl ip target)) =
           (rl_rule_list rl)[i := (rl_rule_list rl ! i)\<lparr>rule_limit := l\<rparr>]))"
  by (auto simp: rate_admit_parts admit_rules_eq case_prod_beta split: option.splits)

section \<open>Budgets\<close>

text \<open>A sequence of requests (time, client address, target) put to one limiter.\<close>

fun admit_run ::
  "'r rate_ops \<Rightarrow> 'g glob_ops \<Rightarrow> ('g, 'r) rate_limiter \<Rightarrow> (instant \<times> ip_addr \<times> ustring) list
   \<Rightarrow> bool list" where
  "admit_run ro go rl [] = []"
| "admit_run ro go rl ((t, ip, target) # evs) =
     (let (ok, rl') = rate_admit ro go t rl ip target in ok # admit_run ro go rl' evs)"

definition admitted ::
  "(instant \<times> ip_addr \<times> ustring \<Rightarrow> bool) \<Rightarrow> (instant \<times> ip_addr \<times> ustring) list \<Rightarrow> bool list \<Rightarrow> nat" where
  "admitted P evs oks = length (filter (\<lambda>(e, ok). ok \<and> P e) (zip evs oks))"

lemma admitted_simps [simp]:
  "admitted P [] oks = 0"
  "admitted P (e # evs) (ok # oks) = (if ok \<and> P e then 1 else 0) + admitted P evs oks"
  by (simp_all add: admitted_def)

lemma budget_step:
  assumes "limit_admit ro t l ip' = (ok, l')" "rate_counts ro iv seen"
    "n \<le> nat (lim_max l') - seen (lim_rate l') w ip" "hit \<longrightarrow> ok \<and> ip' = ip \<and> iv (lim_rate l) t = w"
  shows "(if hit then 1 else 0) + n \<le> nat (lim_max l) - seen (lim_rate l) w ip"
proof (cases hit)
  case True
  with assms(4) have h: "ok" "ip' = ip" "iv (lim_rate l) t = w" by auto
  with limit_admit_counts(1) [OF assms(2,1) h(1)] assms(3) show ?thesis
    by (simp add: True limit_admit_counts [OF assms(2,1)])
next
  case False
  with assms(3) show ?thesis by (simp add: limit_admit_counts [OF assms(2,1)])
qed

lemma universal_budget_from:
  assumes rc: "rate_counts ro iv seen"
  shows "rl_universal rl = Some u \<Longrightarrow>
    admitted (\<lambda>(t, ip', _). ip' = ip \<and> iv (lim_rate u) t = w) evs (admit_run ro go rl evs)
      \<le> nat (lim_max u) - seen (lim_rate u) w ip"
proof (induction evs arbitrary: rl u)
  case (Cons e evs)
  obtain t ip' target where e: "e = (t, ip', target)" by (cases e)
  obtain ok u' where a: "limit_admit ro t u ip' = (ok, u')" by fastforce
  let ?rl = "snd (rate_admit ro go t rl ip' target)"
  have "rl_universal ?rl = Some u'" using Cons.prems a by (simp add: rate_admit_parts)
  note IH = Cons.IH [OF this, unfolded limit_admit_counts(3) [OF rc a]]
  have "fst (rate_admit ro go t rl ip' target) \<and> ip' = ip \<and> iv (lim_rate u) t = w \<longrightarrow>
      ok \<and> ip' = ip \<and> iv (lim_rate u) t = w"
    using Cons.prems a by (simp add: rate_admit_parts universal_ok_def)
  from budget_step [OF a rc IH this] show ?case by (simp add: e case_prod_beta split del: if_split)
qed simp

lemma rule_budget_from:
  assumes rc: "rate_counts ro iv seen"
  shows "i < length (rl_rule_list rl) \<Longrightarrow> rl_rule_list rl ! i = r \<Longrightarrow>
    admitted (\<lambda>(t, ip', target). ip' = ip \<and> iv (lim_rate (rule_limit r)) t = w \<and>
        first_match go (rl_rule_list rl) target = Some i) evs (admit_run ro go rl evs)
      \<le> nat (lim_max (rule_limit r)) - seen (lim_rate (rule_limit r)) w ip"
proof (induction evs arbitrary: rl r)
  case (Cons e evs)
  obtain t ip' target where e: "e = (t, ip', target)" by (cases e)
  let ?rs = "rl_rule_list rl" and ?rl = "snd (rate_admit ro go t rl ip' target)"
  let ?r = "rl_rule_list ?rl ! i"
  have m: "map rule_matcher (rl_rule_list ?rl) = map rule_matcher ?rs"
    by (simp add: rate_admit_parts admit_rules_matchers)
  then have len: "i < length (rl_rule_list ?rl)" using Cons.prems(1) by (metis length_map)
  note IH = Cons.IH [OF len refl, unfolded first_match_cong [OF m]]
  show ?case
  proof (cases "universal_ok ro t rl ip' \<and> first_match go ?rs target = Some i")
    case True
    obtain ok l where a: "limit_admit ro t (rule_limit r) ip' = (ok, l)" by fastforce
    have r: "?r = r\<lparr>rule_limit := l\<rparr>" and ok: "fst (rate_admit ro go t rl ip' target) = ok"
      using True a Cons.prems by (simp_all add: rate_admit_parts admit_rules_eq)
    have l: "rule_limit ?r = l" by (simp add: r)
    from budget_step [OF a rc IH [unfolded l limit_admit_counts(3) [OF rc a]],
        where hit = "ok \<and> ip' = ip \<and> iv (lim_rate (rule_limit r)) t = w"] ok True
    show ?thesis by (simp add: e case_prod_beta split del: if_split)
  next
    case False
    then have "?r = r" "\<not> (fst (rate_admit ro go t rl ip' target) \<and> first_match go ?rs target = Some i)"
      using Cons.prems by (auto simp: rate_admit_parts admit_rules_eq split: option.splits)
    with IH show ?thesis by (auto simp: e case_prod_beta)
  qed
qed simp

text \<open>
  C16. The configured caps hold: on a limiter built from the settings, whatever requests arrive in
  whatever order, no client address gets more than \<^verbatim>\<open>max_requests\<close> requests through in one interval of
  the universal window, and none gets more than a rule's \<^verbatim>\<open>max_requests\<close> through in one interval of that
  rule's window among the requests the rule is the first to match.
\<close>

theorem configured_caps_hold:
  assumes "rate_counts ro iv seen" and built: "ratelimit_from_config ro go t0 cfg = Inr (Some rl)"
  shows "(\<forall>u. rl_universal rl = Some u \<longrightarrow>
      admitted (\<lambda>(t, ip', _). ip' = ip \<and> iv (lim_rate u) t = w) evs (admit_run ro go rl evs)
        \<le> nat (rl_max_requests cfg)) \<and>
    (\<forall>i < length (rl_rules cfg).
      admitted (\<lambda>(t, ip', target). ip' = ip \<and> iv (lim_rate (rule_limit (rl_rule_list rl ! i))) t = w \<and>
          first_match go (rl_rule_list rl) target = Some i) evs (admit_run ro go rl evs)
        \<le> nat (rc_max_requests (rl_rules cfg ! i)))"
proof -
  from built have l: "limiter_of ro go t0 cfg rl" by (simp add: ratelimit_from_config_eq)
  have 1: "lim_max u = rl_max_requests cfg" if "rl_universal rl = Some u" for u
    using l that by (auto simp: limiter_of_def universal_of_def limit_new_def split: if_splits)
  have 2: "i < length (rl_rule_list rl) \<and>
      lim_max (rule_limit (rl_rule_list rl ! i)) = rc_max_requests (rl_rules cfg ! i)"
    if "i < length (rl_rules cfg)" for i
    using l that by (auto simp: limiter_of_def list_all2_conv_all_nth rule_of_def limit_new_def)
  have "nat m - n \<le> nat m" for m n by simp
  note le = le_trans [OF _ this]
  show ?thesis
  proof (intro conjI allI impI)
    fix u
    assume u: "rl_universal rl = Some u"
    from universal_budget_from [OF assms(1) u, THEN le] show
      "admitted (\<lambda>(t, ip', _). ip' = ip \<and> iv (lim_rate u) t = w) evs (admit_run ro go rl evs)
        \<le> nat (rl_max_requests cfg)" unfolding 1 [OF u] .
  next
    fix i
    assume "i < length (rl_rules cfg)"
    from 2 [OF this] rule_budget_from [OF assms(1), where rl = rl and i = i, OF _ refl, THEN le]
    show "admitted (\<lambda>(t, ip', target). ip' = ip \<and> iv (lim_rate (rule_limit (rl_rule_list rl ! i))) t = w \<and>
          first_match go (rl_rule_list rl) target = Some i) evs (admit_run ro go rl evs)
        \<le> nat (rc_max_requests (rl_rules cfg ! i))" by simp
  qed
qed

text \<open>
  Full service up to the cap: with an estimator that counts exactly, a request is refused only
  when a layer that applies to it has already seen its configured maximum from that address in the
  current interval; the request is admitted otherwise.
\<close>

lemma rate_admit_exact:
  assumes "rate_exact ro iv seen"
  shows "fst (rate_admit ro go t rl ip target) \<longleftrightarrow>
    (\<forall>u. rl_universal rl = Some u \<longrightarrow>
       int (seen (lim_rate u) (iv (lim_rate u) t) ip) < lim_max u) \<and>
    (\<forall>i. first_match go (rl_rule_list rl) target = Some i \<longrightarrow>
       (let l = rule_limit (rl_rule_list rl ! i) in
        int (seen (lim_rate l) (iv (lim_rate l) t) ip) < lim_max l))"
  using limit_admit_exact [OF assms]
  by (auto simp: rate_admit_parts universal_ok_def admit_rules_eq Let_def split: option.splits)

section \<open>A reference estimator\<close>

text \<open>
  Fixed intervals from the creation time, every event kept: it satisfies both laws, so the theorems'
  hypotheses can hold.  \<close>

record event_log =
  el_start :: instant
  el_window :: duration
  el_events :: "(nat \<times> ip_addr) list"

definition el_interval :: "event_log \<Rightarrow> instant \<Rightarrow> nat" where
  "el_interval r t = (t - el_start r) div el_window r"

definition el_seen :: "event_log \<Rightarrow> nat \<Rightarrow> ip_addr \<Rightarrow> nat" where
  "el_seen r w ip = length (filter (\<lambda>e. e = (w, ip)) (el_events r))"

definition event_log_ops :: "event_log rate_ops" where
  "event_log_ops = \<lparr>rate_new = (\<lambda>t d. \<lparr>el_start = t, el_window = d, el_events = []\<rparr>),
     rate_observe = (\<lambda>r t ip n.
       (int (el_seen r (el_interval r t) ip) + n,
        r\<lparr>el_events := (el_interval r t, ip) # el_events r\<rparr>))\<rparr>"

lemma event_log_exact: "rate_exact event_log_ops el_interval el_seen"
  by (auto simp: rate_exact_def rate_counts_def event_log_ops_def el_seen_def el_interval_def fun_eq_iff)

lemma event_log_counts: "rate_counts event_log_ops el_interval el_seen"
  using event_log_exact by (simp add: rate_exact_def)

definition demo_limits :: rate_limit_config where
  "demo_limits = \<lparr>rl_enabled = True, rl_window_secs = 1, rl_max_requests = 1, rl_rules = []\<rparr>"

definition demo_limiter :: "(ustring, event_log) rate_limiter" where
  "demo_limiter = \<lparr>rl_universal = Some (limit_new event_log_ops 0 1 1), rl_rule_list = []\<rparr>"

lemma demo_limiter_built: "ratelimit_from_config event_log_ops literal_globs 0 demo_limits = Inr (Some demo_limiter)"
  by (simp add: ratelimit_from_config_def demo_limits_def demo_limiter_def universal_of_def)

theorem configured_caps_hold_witness:
  "admitted (\<lambda>(t, ip, _). ip = V4 1 \<and> el_interval (lim_rate (limit_new event_log_ops 0 1 1)) t = 0)
     [(0, V4 1, str ''a''), (1, V4 1, str ''b'')]
     (admit_run event_log_ops literal_globs demo_limiter [(0, V4 1, str ''a''), (1, V4 1, str ''b'')]) \<le> 1"
  using configured_caps_hold [OF event_log_counts demo_limiter_built, of "V4 1" 0
      "[(0, V4 1, str ''a''), (1, V4 1, str ''b'')]"]
  by (simp add: demo_limits_def) (simp add: demo_limiter_def)

end
