(* ===== verification/Passthrough.thy ===== *)
theory Passthrough
  imports Mtls
begin

text \<open>
  The attestation bypass (\<^verbatim>\<open>src/proxy/src/passthrough.rs\<close>): its settings, the policy built from them
  and the decision.  The CIDR ranges are values of the \<^verbatim>\<open>ipnet\<close> package, so parsing a range and
  testing an address against one are parameters (\<open>parse_net\<close>, \<open>net_contains\<close>).
\<close>

section \<open>Data\<close>

record proxy_bypass_config =
  pb_enabled :: bool
  pb_allowed_ip_ranges :: "ustring list"
  pb_allowed_subjects :: "ustring list"

record 'net bypass_policy =
  bp_ranges :: "'net list"
  bp_allowed_subjects :: "ustring list"

datatype bypass_error =
    BypassNeedsMtls
  | BypassNoRanges
  | BypassBadCidr ustring ustring
  | BypassNoSubjects

section \<open>Operations\<close>

text \<open>\<^verbatim>\<open>BypassPolicy::authorizes\<close>.\<close>

definition authorizes ::
  "('net \<Rightarrow> ip_addr \<Rightarrow> bool) \<Rightarrow> 'net bypass_policy \<Rightarrow> ip_addr \<Rightarrow> client_cert \<Rightarrow> ustring option" where
  "authorizes net_contains p ip cert =
     (if \<not> list_ex (\<lambda>net. net_contains net ip) (bp_ranges p) then None
      else matched cert (bp_allowed_subjects p))"

text \<open>\<^verbatim>\<open>passthrough::from_config\<close>: the checks in the order of the code.\<close>

definition bypass_from_config ::
  "(ustring \<Rightarrow> ustring + 'net) \<Rightarrow> bool \<Rightarrow> proxy_bypass_config \<Rightarrow> bypass_error + 'net bypass_policy option" where
  "bypass_from_config parse_net mtls_on cfg =
     (if \<not> pb_enabled cfg then Inr None
      else
        rbind (ensure mtls_on BypassNeedsMtls) (\<lambda>_.
        rbind (ensure (pb_allowed_ip_ranges cfg \<noteq> []) BypassNoRanges) (\<lambda>_.
        rbind (mapM (\<lambda>r. map_err (BypassBadCidr r) (parse_net r)) (pb_allowed_ip_ranges cfg)) (\<lambda>ranges.
        rbind (ensure (pb_allowed_subjects cfg \<noteq> []) BypassNoSubjects) (\<lambda>_.
        Inr (Some \<lparr>bp_ranges = ranges, bp_allowed_subjects = pb_allowed_subjects cfg\<rparr>))))))"

section \<open>What a built policy is\<close>

definition policy_of ::
  "(ustring \<Rightarrow> ustring + 'net) \<Rightarrow> bool \<Rightarrow> proxy_bypass_config \<Rightarrow> 'net bypass_policy \<Rightarrow> bool" where
  "policy_of parse_net mtls_on cfg p \<longleftrightarrow>
     mtls_on \<and> pb_allowed_ip_ranges cfg \<noteq> [] \<and> pb_allowed_subjects cfg \<noteq> [] \<and>
     map parse_net (pb_allowed_ip_ranges cfg) = map Inr (bp_ranges p) \<and>
     bp_allowed_subjects p = pb_allowed_subjects cfg"

lemma mapM_map_err:
  "mapM (\<lambda>r. map_err (e r) (f r)) xs = Inr ys \<longleftrightarrow> map f xs = map Inr ys"
proof (induction xs arbitrary: ys)
  case Nil
  then show ?case by auto
next
  case (Cons x xs)
  then show ?case by (cases ys) (auto simp: result_simps)
qed

lemma ex_map_Inr:
  "map f xs = map Inr ys \<Longrightarrow> (\<exists>y \<in> set ys. P y) \<longleftrightarrow> (\<exists>x \<in> set xs. \<exists>y. f x = Inr y \<and> P y)"
proof (induction xs arbitrary: ys)
  case (Cons x xs)
  then show ?case by (cases ys) auto
qed simp

lemma bypass_from_config_eq:
  "bypass_from_config parse_net mtls_on cfg = Inr (Some p) \<longleftrightarrow>
     pb_enabled cfg \<and> policy_of parse_net mtls_on cfg p"
  by (cases p)
    (auto simp: bypass_from_config_def policy_of_def result_simps mapM_map_err)

interpretation bypass_feature: optional_feature pb_enabled "bypass_from_config pn on" "policy_of pn on"
  for pn :: "ustring \<Rightarrow> ustring + 'net" and on :: bool
proof unfold_locales
  fix cfg
  show "bypass_from_config pn on cfg = Inr None" if "\<not> pb_enabled cfg"
    using that by (simp add: bypass_from_config_def)
  fix r
  assume "pb_enabled cfg" and r: "bypass_from_config pn on cfg = Inr r"
  then have "r \<noteq> None" by (auto simp: bypass_from_config_def result_simps)
  then show "\<exists>p. r = Some p \<and> policy_of pn on cfg p" using r bypass_from_config_eq [of pn on cfg] by auto
qed

lemma authorizes_Some:
  "authorizes nc p ip c = Some s \<longleftrightarrow>
     (\<exists>net \<in> set (bp_ranges p). nc net ip) \<and> matched c (bp_allowed_subjects p) = Some s"
  by (auto simp: authorizes_def list_ex_iff)

lemma matched_SomeD:
  "matched c allowed = Some s \<Longrightarrow>
     s \<in> set allowed \<and> (cc_common_name c = Some s \<or> s \<in> set (cc_san_dns c))"
  by (auto simp: matched_def split: option.splits if_splits dest: find_member_cases(2))

lemma matched_NoneD:
  "matched c allowed = None \<Longrightarrow>
     (\<forall>n. cc_common_name c = Some n \<or> n \<in> set (cc_san_dns c) \<longrightarrow> n \<notin> set allowed)"
  by (auto simp: matched_def find_member_cases(1) split: option.splits if_splits)

lemma built_policy_decides:
  assumes "bypass_from_config parse_net mtls_on cfg = Inr (Some p)"
  shows "mtls_on \<and>
    (authorizes net_contains p ip cert \<noteq> None \<longleftrightarrow>
      (\<exists>r \<in> set (pb_allowed_ip_ranges cfg). \<exists>net. parse_net r = Inr net \<and> net_contains net ip) \<and>
      (\<exists>n \<in> set (pb_allowed_subjects cfg). cc_common_name cert = Some n \<or> n \<in> set (cc_san_dns cert)))"
proof -
  from assms have pol: "policy_of parse_net mtls_on cfg p" by (simp add: bypass_from_config_eq)
  then have "map parse_net (pb_allowed_ip_ranges cfg) = map Inr (bp_ranges p)" by (simp add: policy_of_def)
  from ex_map_Inr [OF this, of "\<lambda>net. net_contains net ip"] show ?thesis
    using pol matched_SomeD [of cert "bp_allowed_subjects p"] matched_NoneD [of cert "bp_allowed_subjects p"]
    by (cases "matched cert (bp_allowed_subjects p)") (auto simp: policy_of_def authorizes_def list_ex_iff)
qed

text \<open>
  C29. The bypass decision over the configured text: with a policy built from the settings, a caller
  is authorised exactly when one of the configured CIDR strings parses to a range that holds its
  address and its certificate carries a configured subject as Common Name or SubjectAltName; and a
  policy is only ever built with client certificates required.
\<close>

theorem bypass_decision:
  assumes "bypass_from_config parse_net mtls_on cfg = Inr (Some p)"
  shows "mtls_on \<and>
    (authorizes net_contains p ip cert \<noteq> None \<longleftrightarrow>
      (\<exists>r \<in> set (pb_allowed_ip_ranges cfg). \<exists>net. parse_net r = Inr net \<and> net_contains net ip) \<and>
      (\<exists>n \<in> set (pb_allowed_subjects cfg). cc_common_name cert = Some n \<or> n \<in> set (cc_san_dns cert)))"
  using assms by (rule built_policy_decides)

text \<open>A range of one address, enough to apply the theorem.\<close>

abbreviation one_host :: "ustring \<Rightarrow> ustring + ip_addr" where
  "one_host r \<equiv> (if r = str ''10.0.0.1'' then Inr (V4 167772161) else Inl (str ''bad''))"

abbreviation ops_cert :: client_cert where
  "ops_cert \<equiv> \<lparr>cc_subject_dn = str ''CN=ops'', cc_common_name = Some (str ''ops''), cc_san_dns = []\<rparr>"

abbreviation ops_bypass :: proxy_bypass_config where
  "ops_bypass \<equiv> \<lparr>pb_enabled = True, pb_allowed_ip_ranges = [str ''10.0.0.1''], pb_allowed_subjects = [str ''ops'']\<rparr>"

theorem bypass_decision_witness:
  "authorizes (=) \<lparr>bp_ranges = [V4 167772161], bp_allowed_subjects = [str ''ops'']\<rparr> (V4 167772161) ops_cert \<noteq> None \<and>
   authorizes (=) \<lparr>bp_ranges = [V4 167772161], bp_allowed_subjects = [str ''ops'']\<rparr> (V4 5) ops_cert = None"
proof -
  have b: "bypass_from_config one_host True ops_bypass =
      Inr (Some \<lparr>bp_ranges = [V4 167772161], bp_allowed_subjects = [str ''ops'']\<rparr>)"
    by (simp add: bypass_from_config_def result_simps)
  from bypass_decision [OF b, of "(=)" "V4 167772161" ops_cert] bypass_decision [OF b, of "(=)" "V4 5" ops_cert]
  show ?thesis by simp
qed

end
