(* ===== verification/Config.thy ===== *)
theory Config
  imports Config_Env Attest Ratelimit Machine Passthrough
begin

text \<open>
  The configuration file (\<^verbatim>\<open>src/proxy/src/config.rs\<close>): the sections, their checks, the redacted secret,
  and \<^verbatim>\<open>Config::load\<close>.  The sections of the features are with their components
  (\<^verbatim>\<open>RateLimitConfig\<close> in \<open>Ratelimit\<close>, \<^verbatim>\<open>MtlsConfig\<close> in \<open>Mtls\<close> and so on).

  TOML and serde are packages: the typed parse, the untyped parse and the conversion of the expanded
  tree are parameters of \<open>config_parse\<close>.
\<close>

section \<open>Sections\<close>

datatype secret = Secret ustring

fun expose :: "secret \<Rightarrow> ustring" where
  "expose (Secret s) = s"

definition secret_is_empty :: "secret \<Rightarrow> bool" where
  "secret_is_empty s \<longleftrightarrow> expose s = []"

text \<open>\<^verbatim>\<open>Debug for Secret\<close>.\<close>

definition secret_debug :: "secret \<Rightarrow> ustring" where
  "secret_debug s = (if expose s = [] then [34, 34] else str ''<redacted>'')"

record proxy_config =
  pc_listen :: ustring
  pc_upstream :: ustring
  pc_upstream_ca :: ustring
  pc_tls_cert :: ustring
  pc_tls_key :: ustring
  pc_tls_key_passphrase :: secret
  pc_tls_key_passphrase_file :: ustring

record logging_config =
  lc_dir :: ustring
  lc_file_prefix :: ustring
  lc_level :: ustring
  lc_rotation :: ustring
  lc_max_files :: nat
  lc_stderr :: bool

definition lc_default :: logging_config where
  "lc_default = \<lparr>lc_dir = [], lc_file_prefix = str ''denbrowser-proxy.log'', lc_level = str ''info'',
     lc_rotation = str ''daily'', lc_max_files = 14, lc_stderr = True\<rparr>"

record config =
  cfg_proxy :: proxy_config
  cfg_attestation :: attestation_config
  cfg_rate_limiting :: rate_limit_config
  cfg_mtls :: mtls_config
  cfg_machine_identity :: machine_identity_config
  cfg_proxy_bypass :: proxy_bypass_config
  cfg_logging :: logging_config

definition SECRET_SETTINGS :: "ustring list" where
  "SECRET_SETTINGS = [str ''[proxy].tls_key_passphrase'']"

definition LOG_ROTATIONS :: "ustring list" where
  "LOG_ROTATIONS = [str ''minutely'', str ''hourly'', str ''daily'', str ''never'']"

definition LOG_LEVELS :: "ustring list" where
  "LOG_LEVELS = [str ''trace'', str ''debug'', str ''info'', str ''warn'', str ''error'', str ''off'']"

section \<open>Checks\<close>

datatype config_error =
    SettingRequired ustring
  | PassphraseTwice
  | BadRotation ustring
  | FilePrefixRequired
  | LevelEmpty
  | BadLevel ustring

text \<open>\<^verbatim>\<open>ProxyConfig::validate\<close>: the required settings in order, then the two passphrase sources.\<close>

fun require_settings :: "(ustring \<times> ustring) list \<Rightarrow> config_error + unit" where
  "require_settings [] = Inr ()"
| "require_settings ((name, v) # rest) =
     (if trim v = [] then Inl (SettingRequired name) else require_settings rest)"

definition proxy_validate :: "proxy_config \<Rightarrow> config_error + unit" where
  "proxy_validate c =
     rbind (require_settings
       [(str ''listen'', pc_listen c), (str ''upstream'', pc_upstream c),
        (str ''tls_cert'', pc_tls_cert c), (str ''tls_key'', pc_tls_key c)]) (\<lambda>_.
     ensure (\<not> (\<not> secret_is_empty (pc_tls_key_passphrase c) \<and> pc_tls_key_passphrase_file c \<noteq> []))
       PassphraseTwice)"

definition file_enabled :: "logging_config \<Rightarrow> bool" where
  "file_enabled c \<longleftrightarrow> trim (lc_dir c) \<noteq> []"

definition logging_validate :: "logging_config \<Rightarrow> config_error + unit" where
  "logging_validate c =
     rbind (ensure (lc_rotation c \<in> set LOG_ROTATIONS) (BadRotation (lc_rotation c))) (\<lambda>_.
     rbind (ensure (\<not> (file_enabled c \<and> trim (lc_file_prefix c) = [])) FilePrefixRequired) (\<lambda>_.
     let level = trim (lc_level c) in
     rbind (ensure (\<not> list_all (\<lambda>d. trim d = []) (split_on 44 level)) LevelEmpty) (\<lambda>_.
     ensure (\<not> (44 \<notin> set level \<and> 61 \<notin> set level \<and> to_ascii_lowercase level \<notin> set LOG_LEVELS))
       (BadLevel (lc_level c)))))"

section \<open>Loading\<close>

datatype load_error =
    CannotRead ustring ustring
  | TypedParse ustring ustring
  | TableParse ustring ustring
  | Expansion ustring ustring
  | ExpandedMismatch ustring

text \<open>The parts of TOML the loader calls.\<close>

record toml_ops =
  toml_config :: "ustring \<Rightarrow> ustring + config"
  toml_table :: "ustring \<Rightarrow> ustring + (ustring \<times> toml_value) list"
  toml_try_into :: "(ustring \<times> toml_value) list \<Rightarrow> ustring + config"

definition config_parse :: "toml_ops \<Rightarrow> env_lookup \<Rightarrow> ustring \<Rightarrow> ustring \<Rightarrow> load_error + config" where
  "config_parse to lookup path text =
     rbind (map_err (TypedParse path) (toml_config to text)) (\<lambda>_.
     rbind (map_err (TableParse path) (toml_table to text)) (\<lambda>table.
     rbind (map_err (Expansion path) (expand lookup SECRET_SETTINGS table)) (\<lambda>table'.
     map_err (\<lambda>_. ExpandedMismatch path) (toml_try_into to table'))))"

definition config_load ::
  "toml_ops \<Rightarrow> (ustring \<Rightarrow> ustring + ustring) \<Rightarrow> env_lookup \<Rightarrow> ustring \<Rightarrow> load_error + config" where
  "config_load to read_to_string lookup path =
     rbind (map_err (CannotRead path) (read_to_string path)) (config_parse to lookup path)"

section \<open>What the checks ensure\<close>

text \<open>
  The listener section is accepted exactly when all four required settings hold something other
  than white space and at most one passphrase source is set; a missing
  \<^verbatim>\<open>tls_key\<close> is named only when the three before it are there, a missing \<^verbatim>\<open>listen\<close> always.
\<close>

lemma proxy_validate_spec:
  "(proxy_validate c = Inr () \<longleftrightarrow>
      trim (pc_listen c) \<noteq> [] \<and> trim (pc_upstream c) \<noteq> [] \<and> trim (pc_tls_cert c) \<noteq> [] \<and> trim (pc_tls_key c) \<noteq> [] \<and>
      (secret_is_empty (pc_tls_key_passphrase c) \<or> pc_tls_key_passphrase_file c = [])) \<and>
   (proxy_validate c = Inl (SettingRequired (str ''tls_key'')) \<longleftrightarrow>
      trim (pc_listen c) \<noteq> [] \<and> trim (pc_upstream c) \<noteq> [] \<and> trim (pc_tls_cert c) \<noteq> [] \<and> trim (pc_tls_key c) = []) \<and>
   (proxy_validate c = Inl (SettingRequired (str ''listen'')) \<longleftrightarrow> trim (pc_listen c) = [])"
  by (auto simp: proxy_validate_def result_simps)

lemma split_on_single: "x \<notin> set s \<Longrightarrow> split_on x s = [s]"
  by (rule split_on_free)

text \<open>
  A logging section that passes never silences the log by accident: its rotation is one of the four
  known ones, and its level is either a known level name up to case and surrounding white space, or
  a directive list with at least one directive that is not blank.
\<close>

lemma logging_validate_spec:
  "logging_validate c = Inr () \<longleftrightarrow>
     lc_rotation c \<in> set LOG_ROTATIONS \<and>
     (trim (lc_dir c) \<noteq> [] \<longrightarrow> trim (lc_file_prefix c) \<noteq> []) \<and>
     (\<exists>d \<in> set (split_on 44 (trim (lc_level c))). trim d \<noteq> []) \<and>
     (to_ascii_lowercase (trim (lc_level c)) \<in> set LOG_LEVELS \<or> 44 \<in> set (trim (lc_level c)) \<or>
      61 \<in> set (trim (lc_level c)))"
  by (auto simp: logging_validate_def result_simps file_enabled_def Let_def list_all_iff)

lemma default_logging_valid: "logging_validate lc_default = Inr ()"
  by (simp add: logging_validate_def lc_default_def LOG_ROTATIONS_def LOG_LEVELS_def file_enabled_def trim_def
      trim_start_def trim_end_def is_whitespace_def str_def to_ascii_lowercase_def to_ascii_lower_def)

text \<open>
  The passphrase cannot reach the log through a debug print of the configuration: two secrets that
  are both set, or both unset, print the same.
\<close>

lemma secret_debug_constant:
  assumes "secret_is_empty s \<longleftrightarrow> secret_is_empty t"
  shows "secret_debug s = secret_debug t"
  using assms by (simp add: secret_debug_def secret_is_empty_def)

text \<open>
  What a loaded configuration is: the file was read and passed the typed parse, every string of
  its tree was expanded (a failing reference in any section, switched off or not, stops the load with
  an error that lists every failing setting), and the configuration is the conversion of exactly
  that expanded tree.
\<close>

lemma config_load_expanded:
  "config_load to rd lookup path = Inr c \<longleftrightarrow>
     (\<exists>text c0 table. rd path = Inr text \<and> toml_config to text = Inr c0 \<and> toml_table to text = Inr table \<and>
        setting_errors lookup SECRET_SETTINGS (table_settings table) = [] \<and>
        toml_try_into to (fst (expand_sections lookup SECRET_SETTINGS table)) = Inr c)"
proof -
  have "expand lookup SECRET_SETTINGS table = Inr t \<longleftrightarrow>
      setting_errors lookup SECRET_SETTINGS (table_settings table) = [] \<and>
      t = fst (expand_sections lookup SECRET_SETTINGS table)" for table t
    using expand_sections_walk [of lookup SECRET_SETTINGS table]
    by (cases "expand_sections lookup SECRET_SETTINGS table") (auto simp: expand_def split: list.splits)
  then show ?thesis by (simp add: config_load_def config_parse_def result_simps)
qed

end
