(* ===== verification/Upstream_Tls.thy ===== *)
theory Upstream_Tls
  imports Config
begin

text \<open>
  Trust for the upstream connection (\<^verbatim>\<open>src/proxy/src/upstream_tls.rs\<close>).  Of pingora's \<^verbatim>\<open>HttpPeer\<close> the model
  keeps what the proxy sets (\<open>http_peer\<close>); its default options are a parameter.
\<close>

section \<open>Data and operations\<close>

record 'ca upstream_tls =
  ut_ca_certs :: "'ca list option"
  ut_insecure :: bool

datatype upstream_error =
    UpstreamCaUnreadable ustring ustring
  | UpstreamCaUnparseable ustring ustring
  | UpstreamCaEmpty ustring

record 'ca peer_options =
  po_ca :: "'ca list option"
  po_verify_cert :: bool
  po_verify_hostname :: bool
  po_max_http_version :: nat
  po_min_http_version :: nat

record 'ca http_peer =
  hp_host :: ustring
  hp_port :: int
  hp_tls :: bool
  hp_sni :: ustring
  hp_options :: "'ca peer_options"

definition upstream_tls_from_config ::
  "(ustring \<Rightarrow> ustring + byte list) \<Rightarrow> (byte list \<Rightarrow> ustring + 'ca list) \<Rightarrow> proxy_config \<Rightarrow> bool
   \<Rightarrow> upstream_error + 'ca upstream_tls" where
  "upstream_tls_from_config read_file stack_from_pem cfg insecure =
     (let path = pc_upstream_ca cfg in
      if path = [] then Inr \<lparr>ut_ca_certs = None, ut_insecure = insecure\<rparr>
      else
        rbind (map_err (UpstreamCaUnreadable path) (read_file path)) (\<lambda>pem.
        rbind (map_err (UpstreamCaUnparseable path) (stack_from_pem pem)) (\<lambda>certs.
        rbind (ensure (certs \<noteq> []) (UpstreamCaEmpty path)) (\<lambda>_.
        Inr \<lparr>ut_ca_certs = Some certs, ut_insecure = insecure\<rparr>))))"

definition upstream_tls_apply :: "'ca upstream_tls \<Rightarrow> 'ca http_peer \<Rightarrow> 'ca http_peer" where
  "upstream_tls_apply t peer =
     peer\<lparr>hp_options := (hp_options peer)
       \<lparr>po_ca := ut_ca_certs t, po_verify_cert := \<not> ut_insecure t, po_verify_hostname := \<not> ut_insecure t\<rparr>\<rparr>"

text \<open>\<^verbatim>\<open>upstream_peer\<close> of \<^verbatim>\<open>src/proxy/src/main.rs\<close>: TLS, the host as server name, HTTP/2 preferred.\<close>

definition upstream_peer ::
  "'ca peer_options \<Rightarrow> 'ca upstream_tls \<Rightarrow> ustring \<Rightarrow> int \<Rightarrow> 'ca http_peer" where
  "upstream_peer defaults t host port =
     upstream_tls_apply t
       \<lparr>hp_host = host, hp_port = port, hp_tls = True, hp_sni = host,
        hp_options = defaults\<lparr>po_max_http_version := 2, po_min_http_version := 1\<rparr>\<rparr>"

section \<open>What the upstream connection trusts\<close>

lemma upstream_tls_from_config_eq:
  "upstream_tls_from_config rd st cfg insecure = Inr t \<longleftrightarrow>
     ut_insecure t = insecure \<and>
     (if pc_upstream_ca cfg = [] then ut_ca_certs t = None
      else \<exists>pem certs. rd (pc_upstream_ca cfg) = Inr pem \<and> st pem = Inr certs \<and> certs \<noteq> [] \<and>
        ut_ca_certs t = Some certs)"
  by (cases t) (auto simp: upstream_tls_from_config_def Let_def result_simps)

text \<open>
  The upstream is always reached over TLS to the configured host with that host as server name,
  and unless the operator passed \<^verbatim>\<open>--insecure-upstream\<close> both the chain and the host name are verified; a
  configured bundle is the whole trust store (never empty, read and parsed even when verification is
  off), and without one the defaults apply.
\<close>

lemma upstream_peer_trust:
  assumes "upstream_tls_from_config rd st cfg insecure = Inr t"
  shows "hp_tls (upstream_peer defaults t host port) \<and>
    hp_host (upstream_peer defaults t host port) = host \<and> hp_sni (upstream_peer defaults t host port) = host \<and>
    (po_verify_cert (hp_options (upstream_peer defaults t host port)) \<longleftrightarrow> \<not> insecure) \<and>
    (po_verify_hostname (hp_options (upstream_peer defaults t host port)) \<longleftrightarrow> \<not> insecure) \<and>
    (case po_ca (hp_options (upstream_peer defaults t host port)) of
       None \<Rightarrow> pc_upstream_ca cfg = []
     | Some certs \<Rightarrow> certs \<noteq> [] \<and> (\<exists>pem. rd (pc_upstream_ca cfg) = Inr pem \<and> st pem = Inr certs))"
  using assms
  by (auto simp: upstream_tls_from_config_eq upstream_peer_def upstream_tls_apply_def split: if_splits option.splits)

definition demo_proxy_config :: proxy_config where
  "demo_proxy_config = \<lparr>pc_listen = str ''0.0.0.0:443'', pc_upstream = str ''up:8443'', pc_upstream_ca = str ''ca.pem'',
     pc_tls_cert = str ''cert.pem'', pc_tls_key = str ''key.pem'', pc_tls_key_passphrase = Secret [],
     pc_tls_key_passphrase_file = []\<rparr>"

abbreviation demo_options :: "unit peer_options" where
  "demo_options \<equiv> \<lparr>po_ca = None, po_verify_cert = True, po_verify_hostname = True, po_max_http_version = 1,
     po_min_http_version = 1\<rparr>"


end
