(* ===== verification/Proxy.thy ===== *)
theory Proxy
  imports Audit_Trail Attest_Replay Upstream_Tls
begin

text \<open>
  The request path (\<^verbatim>\<open>src/proxy/src/main.rs\<close>, \<^verbatim>\<open>impl ProxyHttp for DenBrowserProxy\<close>): the checks of
  \<^verbatim>\<open>request_filter\<close> in their order, the headers stripped from what goes upstream, and the audit record at
  the end.

  A request is handled while others are: between two critical sections of this request any number of
  steps of other requests may happen.  \<open>others k\<close> is what they do to the shared state before step \<open>k\<close> of
  this one (rate limiting, phase one, the DNS cache, the resolver's answer, the commit), so a theorem
  that holds for every \<open>others\<close> holds for every interleaving.  Each exit of the function is a value of
  type \<open>filter_exit\<close>, on the left of a sum when it leaves early.
\<close>

section \<open>Data\<close>

definition BOUND_BODY_MAX :: nat where "BOUND_BODY_MAX = 64 * 1024"

definition MACHINE_CERT_HEADER :: ustring where "MACHINE_CERT_HEADER = str ''x-denbrowser-machine-cert''"
definition TS_HEADER :: ustring where "TS_HEADER = str ''x-denbrowser-ts''"
definition NONCE_HEADER :: ustring where "NONCE_HEADER = str ''x-denbrowser-nonce''"
definition TOKEN_HEADER :: ustring where "TOKEN_HEADER = str ''x-denbrowser-token''"
definition ATTESTATION_HEADERS :: "ustring list" where
  "ATTESTATION_HEADERS = [TS_HEADER, NONCE_HEADER, TOKEN_HEADER]"

text \<open>
  \<^verbatim>\<open>http::HeaderMap\<close> as the list of its entries, names in lower case; \<^verbatim>\<open>get\<close> gives the first value.
\<close>

type_synonym header_map = "(ustring \<times> byte list) list"

record http_request =
  rq_method :: ustring
  rq_authority :: "ustring option"
  rq_path_and_query :: "ustring option"
  rq_headers :: header_map

text \<open>
  The digest of a connection, as far as it is read: TLS connections have an \<^verbatim>\<open>ssl_digest\<close>, whose
  extension holds the identity \<^verbatim>\<open>mtls::Recorder\<close> left there, if any.
\<close>

record ssl_digest =
  sd_extension :: "client_cert option"

record digest =
  di_ssl_digest :: "ssl_digest option"

text \<open>
  What the request path reads of a session.  The body arrives in chunks and ends cleanly
  (\<open>se_body_error = None\<close>) or with a read error.
\<close>

record session =
  se_server_addr :: "socket_addr option"
  se_client_addr :: "socket_addr option"
  se_digest :: "digest option"
  se_request :: http_request
  se_body :: "byte list list"
  se_body_error :: "error_type option"

text \<open>The packages the request path calls.\<close>

record ('sk, 'pk, 'g, 'r, 'net, 'cert, 'b, 's) deps =
  d_crypto :: "('sk, 'pk) crypto"
  d_rate :: "'r rate_ops"
  d_glob :: "'g glob_ops"
  d_net_contains :: "'net \<Rightarrow> ip_addr \<Rightarrow> bool"
  d_openssl :: "('cert, 'b, 's) openssl_ops"
  d_time :: time_ops
  d_to_str :: "byte list \<Rightarrow> ustring option"
  d_lookup_host :: "ustring \<Rightarrow> 16 word \<Rightarrow> ustring + socket_addr list"

text \<open>\<^verbatim>\<open>DenBrowserProxy\<close>: what startup fixes, and the shared state requests change.\<close>

record ('g, 'net, 'cert, 's) den_browser_proxy =
  px_upstream_host :: ustring
  px_upstream_port :: int
  px_upstream_tls :: "'cert upstream_tls"
  px_bypass :: "'net bypass_policy option"
  px_machine :: "('cert, 'g, 's) machine_identity option"

record ('sk, 'g, 'r) proxy_state =
  ps_verifier :: "'sk verifier"
  ps_limiter :: "('g, 'r) rate_limiter option"
  ps_dns :: dns_cache

text \<open>The clock readings of one run.\<close>

record moments =
  mo_rate :: instant
  mo_head :: int
  mo_dns :: instant
  mo_answer :: instant
  mo_commit_wall :: int
  mo_commit :: instant

datatype verdict = Respond nat | Pass

type_synonym ('sk, 'g, 'r) filter_exit = "verdict \<times> request_audit \<times> ('sk, 'g, 'r) proxy_state"

section \<open>Reading the request\<close>

definition header_str :: "(byte list \<Rightarrow> ustring option) \<Rightarrow> header_map \<Rightarrow> ustring \<Rightarrow> ustring option" where
  "header_str to_str h name = Option.bind (map_of h name) to_str"

definition contains_key :: "header_map \<Rightarrow> ustring \<Rightarrow> bool" where
  "contains_key h name \<longleftrightarrow> map_of h name \<noteq> None"

definition request_host :: "(byte list \<Rightarrow> ustring option) \<Rightarrow> http_request \<Rightarrow> ustring option" where
  "request_host to_str req =
     (let authority = (case header_str to_str (rq_headers req) (str ''host'') of
          Some h \<Rightarrow> Some h | None \<Rightarrow> rq_authority req)
      in map_option (\<lambda>a. hd (split_on 58 a)) authority)"

definition request_path :: "http_request \<Rightarrow> ustring" where
  "request_path req = (case rq_path_and_query req of Some p \<Rightarrow> p | None \<Rightarrow> str ''/'')"

definition describe_incomplete :: "(byte list \<Rightarrow> ustring option) \<Rightarrow> header_map \<Rightarrow> bool \<Rightarrow> bool \<Rightarrow> ustring" where
  "describe_incomplete to_str h has_host machine_present =
     (if machine_present \<and> \<not> list_ex (contains_key h) ATTESTATION_HEADERS
      then str ''machine certificate sent without any attestation headers''
      else
        let unusable = filter (\<lambda>n. header_str to_str h n = None) ATTESTATION_HEADERS;
            problems = (if unusable \<noteq> [] then [str ''missing or unreadable: '' @ join (str '', '') unusable] else []) @
              (if \<not> has_host then [str ''no Host header or :authority''] else [])
        in str ''incomplete attestation headers ('' @ join (str ''; '') problems @ str '')'')"

text \<open>\<^verbatim>\<open>request_summary\<close>: what pingora's own error lines say of a request.\<close>

definition request_summary :: "(byte list \<Rightarrow> ustring option) \<Rightarrow> http_request \<Rightarrow> ustring" where
  "request_summary to_str req =
     rq_method req @ str '' '' @ (case request_host to_str req of Some h \<Rightarrow> h | None \<Rightarrow> str ''-'')"

section \<open>The checks\<close>

text \<open>What is recorded before any check can refuse the request.\<close>

definition record_head ::
  "('sk, 'pk, 'g, 'r, 'net, 'cert, 'b, 's) deps \<Rightarrow> http_request \<Rightarrow> request_audit \<Rightarrow> request_audit" where
  "record_head d req ra =
     (let h = rq_headers req;
          ra1 = ra_request (rq_method req) (request_host (d_to_str d) req) ra;
          ra2 = ra_attestation_headers (d_time d) (header_str (d_to_str d) h TS_HEADER)
                  (header_str (d_to_str d) h NONCE_HEADER) ra1
      in case header_str (d_to_str d) h MACHINE_CERT_HEADER of
           Some cert \<Rightarrow> ra_machine_cert_presented cert ra2
         | None \<Rightarrow> ra2)"

definition rate_phase ::
  "('sk, 'pk, 'g, 'r, 'net, 'cert, 'b, 's) deps \<Rightarrow> moments \<Rightarrow> ip_addr option \<Rightarrow> http_request \<Rightarrow> request_audit
   \<Rightarrow> ('sk, 'g, 'r) proxy_state \<Rightarrow> ('sk, 'g, 'r) filter_exit + ('sk, 'g, 'r) proxy_state" where
  "rate_phase d mo client_ip req ra st =
     (case (ps_limiter st, client_ip) of
        (Some limiter, Some ip) \<Rightarrow>
          (let host = (case request_host (d_to_str d) req of Some h \<Rightarrow> h | None \<Rightarrow> []);
               (ok, limiter') = rate_admit (d_rate d) (d_glob d) (mo_rate mo) limiter ip (host @ request_path req);
               st' = st\<lparr>ps_limiter := Some limiter'\<rparr>
           in if \<not> ok then Inl (Respond 429, ra_reject R_RateLimited (str ''request rate limit exceeded'') ra, st')
              else Inr st')
      | _ \<Rightarrow> Inr st)"

definition bypass_subject ::
  "('sk, 'pk, 'g, 'r, 'net, 'cert, 'b, 's) deps \<Rightarrow> ('g, 'net, 'cert, 's) den_browser_proxy \<Rightarrow> ip_addr option
   \<Rightarrow> client_cert option \<Rightarrow> ustring option" where
  "bypass_subject d px client_ip cert =
     (case (px_bypass px, client_ip, cert) of
        (Some policy, Some ip, Some c) \<Rightarrow> authorizes (d_net_contains d) policy ip c
      | _ \<Rightarrow> None)"

definition bypass_phase ::
  "('sk, 'pk, 'g, 'r, 'net, 'cert, 'b, 's) deps \<Rightarrow> ('g, 'net, 'cert, 's) den_browser_proxy \<Rightarrow> ip_addr option
   \<Rightarrow> client_cert option \<Rightarrow> request_audit \<Rightarrow> ('sk, 'g, 'r) proxy_state \<Rightarrow> ('sk, 'g, 'r) filter_exit + unit" where
  "bypass_phase d px client_ip cert ra st =
     (case bypass_subject d px client_ip cert of
        Some subject \<Rightarrow> Inl (Pass, ra_bypass subject ra, st)
      | None \<Rightarrow> Inr ())"

text \<open>The three attestation headers and the host, all four or a refusal.\<close>

definition header_phase ::
  "('sk, 'pk, 'g, 'r, 'net, 'cert, 'b, 's) deps \<Rightarrow> http_request \<Rightarrow> request_audit \<Rightarrow> ('sk, 'g, 'r) proxy_state
   \<Rightarrow> ('sk, 'g, 'r) filter_exit + attest_inputs" where
  "header_phase d req ra st =
     (let h = rq_headers req; host = request_host (d_to_str d) req;
          machine_present = contains_key h MACHINE_CERT_HEADER in
      case (header_str (d_to_str d) h TS_HEADER, header_str (d_to_str d) h NONCE_HEADER,
            header_str (d_to_str d) h TOKEN_HEADER, host) of
        (Some ts, Some nonce, Some token, Some hst) \<Rightarrow>
          Inr \<lparr>in_ts = ts, in_nonce_b64 = nonce, in_token_b64 = token, in_host = hst,
               in_method = rq_method req, in_path = request_path req\<rparr>
      | _ \<Rightarrow>
          Inl (Respond 403,
            (if length (filter (contains_key h) ATTESTATION_HEADERS) = 0 \<and> \<not> machine_present
             then ra_reject R_NoAttestationHeaders
               (str ''no DenBrowser attestation headers '' @ [8212] @
                str '' not DenBrowser, or a DenBrowser not configured for this proxy'') ra
             else ra_reject R_IncompleteAttestationHeaders
               (describe_incomplete (d_to_str d) h (host \<noteq> None) machine_present) ra),
            st))"

definition preflight ::
  "('g, 'net, 'cert, 's) den_browser_proxy \<Rightarrow> bool \<Rightarrow> request_audit \<Rightarrow> ('sk, 'g, 'r) proxy_state
   \<Rightarrow> ('sk, 'g, 'r) filter_exit + request_audit" where
  "preflight px machine_present ra st =
     (case px_machine px of
        Some mi \<Rightarrow>
          if \<not> machine_present then
            if mi_required mi then Inl (Respond 403, ra_machine_rejected ME_Missing ra, st)
            else Inr (ra_machine_absent ra)
          else Inr ra
      | None \<Rightarrow> Inr ra)"

definition phase_one_step ::
  "('sk, 'pk, 'g, 'r, 'net, 'cert, 'b, 's) deps \<Rightarrow> moments \<Rightarrow> attest_inputs \<Rightarrow> request_audit
   \<Rightarrow> ('sk, 'g, 'r) proxy_state \<Rightarrow> ('sk, 'g, 'r) filter_exit + phase_one \<times> request_audit" where
  "phase_one_step d mo i ra st =
     (case verify_headers (d_crypto d) (mo_head mo) (ps_verifier st) i of
        Inr p1 \<Rightarrow> Inr (p1, ra_token_passed (binding_of (p1_body_binding p1)) ra)
      | Inl e \<Rightarrow> Inl (Respond 403, ra_reject (attest_error_reason e) (attest_error_display e) ra, st))"

text \<open>
  The machine check.  Others run between the lookup in the cache and the resolver's answer only when
  the resolver is asked.
\<close>

definition machine_asks ::
  "('sk, 'pk, 'g, 'r, 'net, 'cert, 'b, 's) deps \<Rightarrow> moments \<Rightarrow> ('cert, 'g, 's) machine_identity
   \<Rightarrow> ustring \<Rightarrow> ip_addr option \<Rightarrow> dns_cache \<Rightarrow> bool" where
  "machine_asks d mo mi cert client_ip cache \<longleftrightarrow>
     (case (client_ip, verify_cert (d_openssl d) (d_glob d) mi cert) of
        (Some _, Inr m) \<Rightarrow> dns_fast mi (mo_dns mo) cache (vm_hostname m) = None
      | _ \<Rightarrow> False)"

definition machine_phase ::
  "('sk, 'pk, 'g, 'r, 'net, 'cert, 'b, 's) deps \<Rightarrow> moments \<Rightarrow> ('g, 'net, 'cert, 's) den_browser_proxy
   \<Rightarrow> (('sk, 'g, 'r) proxy_state \<Rightarrow> ('sk, 'g, 'r) proxy_state) \<Rightarrow> bool \<Rightarrow> ip_addr option \<Rightarrow> request_audit
   \<Rightarrow> ('sk, 'g, 'r) proxy_state \<Rightarrow> ('sk, 'g, 'r) filter_exit + request_audit \<times> ('sk, 'g, 'r) proxy_state" where
  "machine_phase d mo px others machine_present client_ip ra st =
     (case px_machine px of
        Some mi \<Rightarrow>
          if machine_present then
            (let (verified, st') =
               (case ra_presented_machine_cert ra of
                  Some cert \<Rightarrow>
                    (let asks = machine_asks d mo mi cert client_ip (ps_dns st);
                         (r, dns) = machine_verify (d_openssl d) (d_glob d) mi (mo_dns mo) (mo_answer mo)
                           (\<lambda>_. ps_dns (others st)) (system_resolve (d_lookup_host d)) cert client_ip (ps_dns st)
                     in (r, if asks then (others st)\<lparr>ps_dns := dns\<rparr> else st))
                | None \<Rightarrow> (Inl ME_NotBase64, st))
             in case verified of
                  Inr m \<Rightarrow> Inr (ra_machine_verified m ra, st')
                | Inl e \<Rightarrow> Inl (Respond 403, ra_machine_rejected e ra, st'))
          else Inr (ra, st)
      | None \<Rightarrow> Inr (ra, st))"

text \<open>The loop that buffers and hashes a bound body: \<open>tot\<close> bytes so far, their content \<open>acc\<close>.\<close>

datatype body_outcome = Body "byte list" | BodyTooLarge | BodyFailed error_type

fun read_body :: "nat \<Rightarrow> byte list \<Rightarrow> byte list list \<Rightarrow> error_type option \<Rightarrow> body_outcome" where
  "read_body tot acc [] err = (case err of None \<Rightarrow> Body acc | Some e \<Rightarrow> BodyFailed e)"
| "read_body tot acc (chunk # chunks) err =
     (if tot + length chunk > BOUND_BODY_MAX then BodyTooLarge
      else read_body (tot + length chunk) (acc @ chunk) chunks err)"

definition commit_step ::
  "(attest_error + unit) \<times> 'sk verifier \<Rightarrow> request_audit \<Rightarrow> ('sk, 'g, 'r) proxy_state \<Rightarrow> ('sk, 'g, 'r) filter_exit" where
  "commit_step result ra st =
     (case result of
        (Inr _, v) \<Rightarrow> (Pass, ra_forward ra, st\<lparr>ps_verifier := v\<rparr>)
      | (Inl e, v) \<Rightarrow>
          (Respond 403, ra_reject (attest_error_reason e) (attest_error_display e) ra, st\<lparr>ps_verifier := v\<rparr>))"

definition body_phase ::
  "('sk, 'pk, 'g, 'r, 'net, 'cert, 'b, 's) deps \<Rightarrow> moments \<Rightarrow> session \<Rightarrow> phase_one \<Rightarrow> request_audit
   \<Rightarrow> ('sk, 'g, 'r) proxy_state \<Rightarrow> ('sk, 'g, 'r) filter_exit" where
  "body_phase d mo se p1 ra st =
     (case p1_body_binding p1 of
        Unbound \<Rightarrow> commit_step (commit_nonce (mo_commit_wall mo) (mo_commit mo) p1 (ps_verifier st)) ra st
      | Hash _ \<Rightarrow>
          (case read_body 0 [] (se_body se) (se_body_error se) of
             BodyTooLarge \<Rightarrow>
               (Respond 413,
                ra_reject R_BodyTooLarge
                  (str ''bound body exceeds '' @ dec_nat BOUND_BODY_MAX @ str '' bytes (must be sent as an unbound upload)'') ra,
                st)
           | BodyFailed e \<Rightarrow>
               (Respond 400,
                ra_reject R_BodyReadFailed (str ''could not read request body: '' @ error_type_str e) ra, st)
           | Body content \<Rightarrow>
               commit_step (verify_body_and_commit (mo_commit_wall mo) (mo_commit mo) p1
                 (sha256 (d_crypto d) content) (ps_verifier st)) ra st))"

text \<open>\<^verbatim>\<open>client_cert\<close>: the identity recorded on the connection.\<close>

definition session_client_cert :: "session \<Rightarrow> client_cert option" where
  "session_client_cert se = Option.bind (se_digest se) (\<lambda>d. Option.bind (di_ssl_digest d) sd_extension)"

definition client_ip :: "session \<Rightarrow> ip_addr option" where
  "client_ip se = map_option sa_ip (se_client_addr se)"

text \<open>\<^verbatim>\<open>request_filter\<close>.\<close>

definition attested_path ::
  "('sk, 'pk, 'g, 'r, 'net, 'cert, 'b, 's) deps \<Rightarrow> moments \<Rightarrow> ('g, 'net, 'cert, 's) den_browser_proxy
   \<Rightarrow> (nat \<Rightarrow> ('sk, 'g, 'r) proxy_state \<Rightarrow> ('sk, 'g, 'r) proxy_state) \<Rightarrow> session \<Rightarrow> request_audit
   \<Rightarrow> ('sk, 'g, 'r) proxy_state \<Rightarrow> ('sk, 'g, 'r) filter_exit + ('sk, 'g, 'r) filter_exit" where
  "attested_path d mo px others se ra st =
     (let req = se_request se; machine_present = contains_key (rq_headers req) MACHINE_CERT_HEADER in
      rbind (header_phase d req ra st) (\<lambda>i.
      rbind (preflight px machine_present ra st) (\<lambda>ra1.
      let st1 = others 1 st in
      rbind (phase_one_step d mo i ra1 st1) (\<lambda>(p1, ra2).
      rbind (machine_phase d mo px (others 3) machine_present (client_ip se) ra2 (others 2 st1)) (\<lambda>(ra3, st3).
      Inr (body_phase d mo se p1 ra3 (others 4 st3)))))))"

definition request_filter ::
  "('sk, 'pk, 'g, 'r, 'net, 'cert, 'b, 's) deps \<Rightarrow> moments \<Rightarrow> ('g, 'net, 'cert, 's) den_browser_proxy
   \<Rightarrow> (nat \<Rightarrow> ('sk, 'g, 'r) proxy_state \<Rightarrow> ('sk, 'g, 'r) proxy_state) \<Rightarrow> session \<Rightarrow> request_audit
   \<Rightarrow> ('sk, 'g, 'r) proxy_state \<Rightarrow> ('sk, 'g, 'r) filter_exit" where
  "request_filter d mo px others se ra st =
     (let ra0 = record_head d (se_request se) ra in
      case rbind (rate_phase d mo (client_ip se) (se_request se) ra0 (others 0 st)) (\<lambda>st'.
           rbind (bypass_phase d px (client_ip se) (session_client_cert se) ra0 st') (\<lambda>_.
           attested_path d mo px others se ra0 st')) of
        Inl exit \<Rightarrow> exit
      | Inr exit \<Rightarrow> exit)"

section \<open>The other hooks\<close>

definition proxy_new_ctx :: "instant \<Rightarrow> ('g, 'net, 'cert, 's) den_browser_proxy \<Rightarrow> request_audit" where
  "proxy_new_ctx now px = ra_new now (px_machine px \<noteq> None)"

definition remove_header :: "ustring \<Rightarrow> header_map \<Rightarrow> header_map" where
  "remove_header name h = filter (\<lambda>(n, _). n \<noteq> name) h"

definition upstream_request_filter :: "http_request \<Rightarrow> http_request" where
  "upstream_request_filter req =
     req\<lparr>rq_headers := remove_header MACHINE_CERT_HEADER (fold remove_header ATTESTATION_HEADERS (rq_headers req))\<rparr>"

definition response_body_filter :: "byte list option \<Rightarrow> request_audit \<Rightarrow> request_audit" where
  "response_body_filter body ra = (case body of Some chunk \<Rightarrow> ra_response_body (length chunk) ra | None \<Rightarrow> ra)"

text \<open>\<^verbatim>\<open>logging\<close>: \<open>status\<close> is the response written, \<open>read\<close> the body bytes read.\<close>

definition connection_of :: "session \<Rightarrow> nat option \<Rightarrow> nat \<Rightarrow> request_audit \<Rightarrow> connection" where
  "connection_of se status read ra =
     \<lparr>co_proxy = se_server_addr se, co_client = se_client_addr se,
      co_tls_client_subject = map_option cc_subject_dn (session_client_cert se), co_status_code = status,
      co_request_body_bytes = read, co_response_body_bytes = ra_response_body_bytes ra\<rparr>"

definition logging_hook ::
  "('cert, 'b, 's) openssl_ops \<Rightarrow> time_ops \<Rightarrow> (log_level \<Rightarrow> bool) \<Rightarrow> (audit_record \<Rightarrow> ustring + ustring)
   \<Rightarrow> instant \<Rightarrow> int \<Rightarrow> session \<Rightarrow> nat option \<Rightarrow> nat \<Rightarrow> proxy_error option \<Rightarrow> request_audit \<Rightarrow> log_event option" where
  "logging_hook os tm enabled to_json now wall se status read e ra =
     ra_finish os tm enabled to_json now wall (connection_of se status read ra)
       (map_option classify_proxy_error e) ra"

text \<open>\<^verbatim>\<open>DenBrowserProxy::new\<close>.\<close>

datatype upstream_parse_error = UpstreamNotHostPort ustring | UpstreamBadPort ustring

definition parse_upstream :: "ustring \<Rightarrow> upstream_parse_error + ustring \<times> int" where
  "parse_upstream upstream =
     rbind (ok_or (rsplit_once 58 upstream) (UpstreamNotHostPort upstream)) (\<lambda>(host, port_str).
     rbind (ok_or (parse_u16 port_str) (UpstreamBadPort port_str)) (\<lambda>port. Inr (host, port)))"

definition den_browser_proxy_new ::
  "'sk verifier \<Rightarrow> ustring \<Rightarrow> 'cert upstream_tls \<Rightarrow> ('g, 'r) rate_limiter option \<Rightarrow> 'net bypass_policy option
   \<Rightarrow> ('cert, 'g, 's) machine_identity option
   \<Rightarrow> upstream_parse_error + ('g, 'net, 'cert, 's) den_browser_proxy \<times> ('sk, 'g, 'r) proxy_state" where
  "den_browser_proxy_new v upstream tls limiter bypass machine =
     rbind (parse_upstream upstream) (\<lambda>(host, port).
     Inr (\<lparr>px_upstream_host = host, px_upstream_port = port, px_upstream_tls = tls, px_bypass = bypass,
           px_machine = machine\<rparr>,
          \<lparr>ps_verifier = v, ps_limiter = limiter, ps_dns = Map.empty\<rparr>))"

section \<open>Every exit records its decision\<close>

lemma session_client_cert_simps [simp]:
  "se_digest se = None \<Longrightarrow> session_client_cert se = None"
  "session_client_cert (se\<lparr>se_request := r\<rparr>) = session_client_cert se"
  "session_client_cert (se\<lparr>se_digest := Some \<lparr>di_ssl_digest = Some \<lparr>sd_extension = c\<rparr>\<rparr>\<rparr>) = c"
  by (simp_all add: session_client_cert_def)

text \<open>The status a refusal is answered with.\<close>

fun refusal_status :: "reason \<Rightarrow> nat" where
  "refusal_status R_RateLimited = 429"
| "refusal_status R_BodyTooLarge = 413"
| "refusal_status R_BodyReadFailed = 400"
| "refusal_status _ = 403"

definition decided :: "verdict \<Rightarrow> request_audit \<Rightarrow> bool" where
  "decided v ra \<longleftrightarrow> audit_reachable ra \<and>
     (case v of
        Pass \<Rightarrow> ra_action ra = Some Act_Forward \<or> ra_action ra = Some Act_Bypass
      | Respond n \<Rightarrow>
          (case ra_reason ra of
             Some r \<Rightarrow> n = refusal_status r \<and>
               ra_action ra = Some (if r = R_RateLimited then Act_RateLimit else Act_Reject)
           | None \<Rightarrow> False))"

definition undecided :: "request_audit \<Rightarrow> bool" where
  "undecided ra \<longleftrightarrow> audit_reachable ra \<and> ra_action ra = None \<and> mf_status (ra_machine ra) \<noteq> MS_Verified"

lemma undecided_step: "undecided ra \<Longrightarrow> audit_step ra ra' \<Longrightarrow> audit_reachable ra'"
  by (auto simp: undecided_def intro: audit_reachable.step)

lemma reject_decided: "undecided ra \<Longrightarrow> n = refusal_status r \<Longrightarrow> decided (Respond n) (ra_reject r msg ra)"
  using undecided_step [OF _ audit_step.reject, of ra r msg]
  by (simp add: decided_def undecided_def) (simp add: ra_reject_def)

lemma machine_reason_status: "refusal_status (machine_error_reason e) = 403"
  by (cases e) simp_all

lemma attest_reason_status: "refusal_status (attest_error_reason e) = 403"
  by (cases e) simp_all

lemma machine_rejected_decided: "undecided ra \<Longrightarrow> decided (Respond 403) (ra_machine_rejected e ra)"
proof -
  assume u: "undecided ra"
  then have "audit_reachable (ra_machine_rejected e ra)"
    by (auto simp: undecided_def intro: audit_reachable.step audit_step.machine_no)
  then show ?thesis
    by (simp add: decided_def ra_machine_rejected_def ra_reject_def machine_reason_status machine_err.not_rate_limited)
qed

lemma record_head_simps:
  "ra_action (record_head d req ra) = ra_action ra"
  "ra_machine (record_head d req ra) = ra_machine ra"
  "af_nonce (ra_attestation (record_head d req ra)) =
     map_option (\<lambda>n. bounded n MAX_NONCE_CHARS) (header_str (d_to_str d) (rq_headers req) NONCE_HEADER)"
  "ra_presented_machine_cert (record_head d req (ra_new now on)) =
     header_str (d_to_str d) (rq_headers req) MACHINE_CERT_HEADER"
  by (simp_all add: record_head_def Let_def ra_request_def ra_attestation_headers_def ra_machine_cert_presented_def
      ra_new_def split: option.splits)

lemma record_head_undecided:
  assumes "undecided ra" "calendar_range (d_time d)"
  shows "undecided (record_head d req ra)"
proof -
  let ?h = "rq_headers req" and ?s = "d_to_str d"
  let ?ra1 = "ra_request (rq_method req) (request_host ?s req) ra"
  let ?ra2 = "ra_attestation_headers (d_time d) (header_str ?s ?h TS_HEADER) (header_str ?s ?h NONCE_HEADER) ?ra1"
  have 1: "audit_reachable ?ra1" "ra_action ?ra1 = None"
    using assms(1) undecided_step [OF assms(1) audit_step.request] by (simp_all add: undecided_def ra_request_def)
  have 2: "audit_reachable ?ra2" "ra_action ?ra2 = None"
    using audit_reachable.step [OF 1(1) audit_step.headers [OF 1(2) assms(2)]] 1(2)
    by (simp_all add: ra_attestation_headers_def)
  have "audit_reachable (record_head d req ra)"
    using 2 audit_reachable.step [OF 2(1) audit_step.cert [OF 2(2)]]
    by (auto simp: record_head_def Let_def split: option.splits)
  then show ?thesis using assms(1) by (simp add: undecided_def record_head_simps)
qed

lemma fresh_undecided: "undecided (ra_new now on)"
  using audit_reachable.fresh [of now on] by (simp add: undecided_def) (simp add: ra_new_def)

lemma rate_phase_exit: "undecided ra \<Longrightarrow> rate_phase d mo ip req ra st = Inl (v, ra', st') \<Longrightarrow> decided v ra'"
  by (auto simp: rate_phase_def case_prod_beta Let_def split: option.splits if_splits intro: reject_decided)

lemma bypass_phase_exit: "undecided ra \<Longrightarrow> bypass_phase d px ip cert ra st = Inl (v, ra', st') \<Longrightarrow> decided v ra'"
proof -
  assume "undecided ra" "bypass_phase d px ip cert ra st = Inl (v, ra', st')"
  then obtain s where "ra' = ra_bypass s ra" "v = Pass" "audit_reachable (ra_bypass s ra)"
    by (auto simp: bypass_phase_def undecided_def split: option.splits intro: audit_reachable.step audit_step.bypass)
  then show ?thesis by (simp add: decided_def ra_bypass_def)
qed

lemma header_phase_exit: "undecided ra \<Longrightarrow> header_phase d req ra st = Inl (v, ra', st') \<Longrightarrow> decided v ra'"
  by (auto simp: header_phase_def Let_def split: option.splits if_splits intro: reject_decided)

lemma preflight_exit: "undecided ra \<Longrightarrow> preflight px present ra st = Inl (v, ra', st') \<Longrightarrow> decided v ra'"
  by (auto simp: preflight_def split: option.splits if_splits intro: machine_rejected_decided)

lemma preflight_ok:
  assumes "undecided ra" "preflight px present ra st = Inr ra'"
  shows "undecided ra'" and "ra_attestation ra' = ra_attestation ra"
    and "ra_presented_machine_cert ra' = ra_presented_machine_cert ra"
proof -
  have absent: "undecided (ra_machine_absent ra)"
    using assms(1) undecided_step [OF assms(1) audit_step.absent] by (simp add: undecided_def ra_machine_absent_def)
  show "undecided ra'" using assms absent by (auto simp: preflight_def split: option.splits if_splits)
  show "ra_attestation ra' = ra_attestation ra" "ra_presented_machine_cert ra' = ra_presented_machine_cert ra"
    using assms(2) by (auto simp: preflight_def ra_machine_absent_def split: option.splits if_splits)
qed

lemma phase_one_exit: "undecided ra \<Longrightarrow> phase_one_step d mo i ra st = Inl (v, ra', st') \<Longrightarrow> decided v ra'"
  by (auto simp: phase_one_step_def attest_reason_status split: sum.splits intro: reject_decided)

lemma phase_one_ok:
  assumes "undecided ra" "phase_one_step d mo i ra st = Inr (p1, ra')"
  shows "undecided ra'" and "ra_token_verified ra'" and "af_nonce (ra_attestation ra') = af_nonce (ra_attestation ra)"
    and "ra_presented_machine_cert ra' = ra_presented_machine_cert ra"
proof -
  have ra': "ra' = ra_token_passed (binding_of (p1_body_binding p1)) ra"
    using assms(2) by (auto simp: phase_one_step_def split: sum.splits)
  show "undecided ra'"
    using assms(1) undecided_step [OF assms(1) audit_step.token] by (simp add: ra' undecided_def ra_token_passed_def)
  show "ra_token_verified ra'" "af_nonce (ra_attestation ra') = af_nonce (ra_attestation ra)"
    "ra_presented_machine_cert ra' = ra_presented_machine_cert ra"
    by (simp_all add: ra' ra_token_passed_def)
qed

lemma machine_phase_exit:
  "undecided ra \<Longrightarrow> machine_phase d mo px others present ip ra st = Inl (v, ra', st') \<Longrightarrow> decided v ra'"
  by (auto simp: machine_phase_def Let_def case_prod_beta split: option.splits if_splits sum.splits
      intro: machine_rejected_decided)

text \<open>The state from which a commit may forward.\<close>

definition committable :: "request_audit \<Rightarrow> bool" where
  "committable ra \<longleftrightarrow> audit_reachable ra \<and> ra_action ra = None \<and> ra_token_verified ra \<and>
     af_nonce (ra_attestation ra) \<noteq> None"

lemma machine_phase_ok:
  assumes "undecided ra" "ra_token_verified ra" "af_nonce (ra_attestation ra) \<noteq> None"
    and "machine_phase d mo px others present ip ra st = Inr (ra', st')"
  shows "committable ra'"
proof -
  have ok: "committable (ra_machine_verified m ra)" for m
    using assms(1-3) undecided_step [OF assms(1) audit_step.machine_ok]
    by (simp add: undecided_def committable_def ra_machine_verified_def)
  have "committable ra" using assms(1-3) by (simp add: undecided_def committable_def)
  with ok assms(4) show ?thesis
    by (auto simp: machine_phase_def Let_def case_prod_beta split: option.splits if_splits sum.splits)
qed

lemma committable_reject: "committable ra \<Longrightarrow> n = refusal_status r \<Longrightarrow> decided (Respond n) (ra_reject r msg ra)"
  using audit_reachable.step [OF _ audit_step.reject, of ra r msg]
  by (simp add: decided_def committable_def) (simp add: ra_reject_def)

lemma commit_step_decided:
  "committable ra \<Longrightarrow> commit_step result ra st = (v, ra', st') \<Longrightarrow> decided v ra'"
proof -
  assume c: "committable ra" and s: "commit_step result ra st = (v, ra', st')"
  have "decided Pass (ra_forward ra)"
    using c audit_reachable.step [OF _ audit_step.forward, of ra]
    by (simp add: decided_def committable_def) (simp add: ra_forward_def)
  with c s show ?thesis
    by (auto simp: commit_step_def attest_reason_status split: prod.splits sum.splits intro: committable_reject)
qed

lemma body_phase_decided: "committable ra \<Longrightarrow> body_phase d mo se p1 ra st = (v, ra', st') \<Longrightarrow> decided v ra'"
  by (auto simp: body_phase_def split: body_binding.splits body_outcome.splits
      intro: commit_step_decided committable_reject)

text \<open>Reading the four inputs, as a specification: all of them present and readable.\<close>

definition inputs_of :: "(byte list \<Rightarrow> ustring option) \<Rightarrow> http_request \<Rightarrow> attest_inputs \<Rightarrow> bool" where
  "inputs_of to_str req i \<longleftrightarrow>
     header_str to_str (rq_headers req) TS_HEADER = Some (in_ts i) \<and>
     header_str to_str (rq_headers req) NONCE_HEADER = Some (in_nonce_b64 i) \<and>
     header_str to_str (rq_headers req) TOKEN_HEADER = Some (in_token_b64 i) \<and>
     request_host to_str req = Some (in_host i) \<and> in_method i = rq_method req \<and> in_path i = request_path req"

lemma header_phase_ok: "header_phase d req ra st = Inr i \<longleftrightarrow> inputs_of (d_to_str d) req i"
  by (cases i) (auto simp: header_phase_def inputs_of_def Let_def split: option.splits)

lemma attested_path_decided:
  assumes "undecided ra" "af_nonce (ra_attestation ra) =
      map_option (\<lambda>n. bounded n MAX_NONCE_CHARS) (header_str (d_to_str d) (rq_headers (se_request se)) NONCE_HEADER)"
    and "attested_path d mo px others se ra st = Inl (v, ra', st') \<or>
      attested_path d mo px others se ra st = Inr (v, ra', st')"
  shows "decided v ra'"
proof -
  let ?req = "se_request se" and ?present = "contains_key (rq_headers (se_request se)) MACHINE_CERT_HEADER"
  show ?thesis
  proof (cases "header_phase d ?req ra st")
    case (Inl x)
    then show ?thesis using assms header_phase_exit by (auto simp: attested_path_def Let_def)
  next
    case hdr: (Inr i)
    then have nonce: "af_nonce (ra_attestation ra) \<noteq> None" using assms(2) by (simp add: header_phase_ok inputs_of_def)
    show ?thesis
    proof (cases "preflight px ?present ra st")
      case (Inl x)
      then show ?thesis using assms hdr preflight_exit by (auto simp: attested_path_def Let_def)
    next
      case pre: (Inr ra1)
      note u1 = preflight_ok [OF assms(1) pre]
      show ?thesis
      proof (cases "phase_one_step d mo i ra1 (others 1 st)")
        case (Inl x)
        then show ?thesis using assms(3) hdr pre phase_one_exit [OF u1(1)] by (auto simp: attested_path_def Let_def)
      next
        case (Inr q)
        then obtain p1 ra2 where p1: "phase_one_step d mo i ra1 (others 1 st) = Inr (p1, ra2)" by (cases q) auto
        note u2 = phase_one_ok [OF u1(1) p1]
        have n2: "af_nonce (ra_attestation ra2) \<noteq> None" using nonce u1(2) u2(3) by simp
        from assms(3) hdr pre p1 show ?thesis
          by (auto simp: attested_path_def Let_def result_simps
              intro: machine_phase_exit [OF u2(1)]
                body_phase_decided [OF machine_phase_ok [OF u2(1,2) n2]])
      qed
    qed
  qed
qed

lemma request_filter_decided:
  assumes "calendar_range (d_time d)" "undecided ra" "request_filter d mo px others se ra st = (v, ra', st')"
  shows "decided v ra'"
proof -
  let ?ra = "record_head d (se_request se) ra"
  note u = record_head_undecided [OF assms(2,1), of "se_request se"]
  show ?thesis
  proof (cases "rate_phase d mo (client_ip se) (se_request se) ?ra (others 0 st)")
    case (Inl x)
    then show ?thesis using assms(3) rate_phase_exit [OF u] by (auto simp: request_filter_def Let_def)
  next
    case rate: (Inr st1)
    show ?thesis
    proof (cases "bypass_phase d px (client_ip se) (session_client_cert se) ?ra st1")
      case (Inl x)
      then show ?thesis using assms(3) rate bypass_phase_exit [OF u] by (auto simp: request_filter_def Let_def)
    next
      case (Inr y)
      with rate assms(3) have "attested_path d mo px others se ?ra st1 = Inl (v, ra', st') \<or>
          attested_path d mo px others se ?ra st1 = Inr (v, ra', st')"
        by (auto simp: request_filter_def Let_def split: sum.splits)
      from attested_path_decided [OF u _ this] show ?thesis by (simp add: record_head_simps)
    qed
  qed
qed

text \<open>
  C6. Every exit of the request path records exactly one decision, and the answer agrees with it: a
  request goes upstream exactly when the audit state says forwarded or bypassed; a refusal is answered
  with the status of its recorded reason (429 for the rate limit, 413 for an oversized bound body,
  400 for a body that could not be read, 403 for everything else); and whatever happened, the record
  written at the end satisfies the schema of the audit log.
\<close>

theorem every_exit_recorded:
  assumes "calendar_range (d_time d)" "utc_ok (from_system (d_time d) wall)"
    and "request_filter d mo px others se (proxy_new_ctx now px) st = (v, ra', st')"
  shows "(v = Pass \<longleftrightarrow> ra_action ra' \<in> {Some Act_Forward, Some Act_Bypass}) \<and>
    (\<forall>n. v = Respond n \<longrightarrow> (\<exists>r. ra_reason ra' = Some r \<and> n = refusal_status r)) \<and>
    (v = Pass \<longrightarrow> ra_reason ra' = None) \<and>
    schema_ok (ra_record (d_openssl d) (connection_of se status read ra')
      (map_option classify_proxy_error e) (audit_timestamp (d_time d) wall) ms ra')"
proof -
  have d: "decided v ra'"
    using request_filter_decided [OF assms(1) _ assms(3)] fresh_undecided by (simp add: proxy_new_ctx_def)
  then have r: "audit_reachable ra'" by (simp add: decided_def)
  have s: "schema_ok (ra_record (d_openssl d) (connection_of se status read ra')
      (map_option classify_proxy_error e) (audit_timestamp (d_time d) wall) ms ra')"
    by (rule audit_record_schema_helper [OF r]) (simp add: audit_timestamp_def format_utc_pattern assms(2))
  from audit_reachable_inv [OF r] d s show ?thesis
    by (cases v) (auto simp: decided_def audit_inv_def decision_inv_def split: option.splits)
qed

section \<open>What goes upstream was verified\<close>

lemma read_body_spec:
  "n \<le> BOUND_BODY_MAX \<Longrightarrow>
     read_body n acc chunks err =
       (if n + length (concat chunks) > BOUND_BODY_MAX then BodyTooLarge
        else case err of None \<Rightarrow> Body (acc @ concat chunks) | Some e \<Rightarrow> BodyFailed e)"
proof (induction chunks arbitrary: n acc)
  case (Cons c chunks)
  show ?case
  proof (cases "n + length c \<le> BOUND_BODY_MAX")
    case True
    from Cons.IH [OF this, of "acc @ c"] True show ?thesis by (simp add: add.assoc split: option.splits)
  qed simp
qed (simp split: option.splits)

text \<open>
  C31. The body loop buffers at most 64 KiB.  However the bound body is cut into chunks, the loop is the
  check of its total length: up to and including 65536 bytes the whole content comes back, in order,
  unless reading failed; one byte more and it is refused as too large, as soon as the chunks read so
  far exceed the cap, whatever would have followed (more chunks or a read error).
\<close>

theorem bound_body_capped:
  "read_body 0 [] chunks err =
     (if length (concat chunks) > 65536 then BodyTooLarge
      else case err of None \<Rightarrow> Body (concat chunks) | Some e \<Rightarrow> BodyFailed e) \<and>
   (length (concat chunks) > 65536 \<longrightarrow> read_body 0 [] (chunks @ later) err' = BodyTooLarge)"
proof -
  have cap: "0 \<le> BOUND_BODY_MAX" "BOUND_BODY_MAX = 65536" by (simp_all add: BOUND_BODY_MAX_def)
  show ?thesis
    unfolding read_body_spec [OF cap(1)] cap(2) append_Nil by (auto simp: trans_less_add1)
qed

theorem bound_body_capped_witness:
  "read_body 0 [] [replicate 65536 7, [8], [9]] (Some InvalidHTTPHeader) = BodyTooLarge"
  using bound_body_capped [of "[replicate 65536 7, [8]]" None "[[9]]" "Some InvalidHTTPHeader", THEN conjunct2]
  by simp

text \<open>What phase two checks of the body the upstream will get.\<close>

definition body_verified :: "(byte list \<Rightarrow> byte list) \<Rightarrow> session \<Rightarrow> body_binding \<Rightarrow> bool" where
  "body_verified sha se binding \<longleftrightarrow>
     (case binding of
        Unbound \<Rightarrow> True
      | Hash h \<Rightarrow> se_body_error se = None \<and> length (concat (se_body se)) \<le> 65536 \<and> sha (concat (se_body se)) = h)"

lemma commit_remembers:
  "commit_nonce wall inst p1 v = (Inr (), v') \<Longrightarrow> nc_contains (v_cache v') (p1_nonce p1)"
  by (auto simp: commit_nonce_def nc_commit_def nc_contains_def Let_def split: if_splits sum.splits prod.splits)

lemma commit_step_Pass:
  "commit_step result ra st = (Pass, ra', st') \<longleftrightarrow>
     fst result = Inr () \<and> ra' = ra_forward ra \<and> st' = st\<lparr>ps_verifier := snd result\<rparr>"
  by (cases result) (auto simp: commit_step_def split: sum.splits)

lemma body_phase_Pass:
  "body_phase d mo se p1 ra st = (Pass, ra', st') \<longleftrightarrow>
     body_verified (sha256 (d_crypto d)) se (p1_body_binding p1) \<and>
     fst (commit_nonce (mo_commit_wall mo) (mo_commit mo) p1 (ps_verifier st)) = Inr () \<and>
     ra' = ra_forward ra \<and>
     st' = st\<lparr>ps_verifier := snd (commit_nonce (mo_commit_wall mo) (mo_commit mo) p1 (ps_verifier st))\<rparr>"
  by (cases "p1_body_binding p1"; cases "se_body_error se")
    (auto simp: body_phase_def body_verified_def read_body_spec BOUND_BODY_MAX_def verify_body_and_commit_def
      commit_step_Pass)

text \<open>What the machine layer demands of a request that goes upstream.\<close>

definition machine_satisfied ::
  "('sk, 'pk, 'g, 'r, 'net, 'cert, 'b, 's) deps \<Rightarrow> moments \<Rightarrow> ('g, 'net, 'cert, 's) den_browser_proxy
   \<Rightarrow> session \<Rightarrow> dns_cache \<Rightarrow> dns_cache \<Rightarrow> bool" where
  "machine_satisfied d mo px se dns dns' \<longleftrightarrow>
     (case px_machine px of
        None \<Rightarrow> True
      | Some mi \<Rightarrow>
          if contains_key (rq_headers (se_request se)) MACHINE_CERT_HEADER
          then (\<exists>cert m. header_str (d_to_str d) (rq_headers (se_request se)) MACHINE_CERT_HEADER = Some cert \<and>
            fst (machine_verify (d_openssl d) (d_glob d) mi (mo_dns mo) (mo_answer mo) (\<lambda>_. dns') (system_resolve (d_lookup_host d))
              cert (client_ip se) dns) = Inr m)
          else \<not> mi_required mi)"

lemma machine_phases_ok:
  assumes "ra_presented_machine_cert ra = header_str (d_to_str d) (rq_headers (se_request se)) MACHINE_CERT_HEADER"
    and "preflight px (contains_key (rq_headers (se_request se)) MACHINE_CERT_HEADER) ra0 st0 = Inr ra1"
    and "machine_phase d mo px others (contains_key (rq_headers (se_request se)) MACHINE_CERT_HEADER) (client_ip se)
      ra st = Inr (ra', st')"
  shows "machine_satisfied d mo px se (ps_dns st) (ps_dns (others st))"
    and "ps_verifier st' = ps_verifier st \<or> ps_verifier st' = ps_verifier (others st)"
proof -
  show "machine_satisfied d mo px se (ps_dns st) (ps_dns (others st))"
    using assms unfolding machine_satisfied_def
    by (cases "header_str (d_to_str d) (rq_headers (se_request se)) MACHINE_CERT_HEADER")
      (auto simp: preflight_def machine_phase_def Let_def case_prod_beta split: option.splits if_splits sum.splits)
  show "ps_verifier st' = ps_verifier st \<or> ps_verifier st' = ps_verifier (others st)"
    using assms(3)
    by (auto simp: machine_phase_def Let_def case_prod_beta split: option.splits if_splits sum.splits)
qed

definition rate_admits ::
  "('sk, 'pk, 'g, 'r, 'net, 'cert, 'b, 's) deps \<Rightarrow> moments \<Rightarrow> session \<Rightarrow> ('sk, 'g, 'r) proxy_state \<Rightarrow> bool" where
  "rate_admits d mo se st \<longleftrightarrow>
     (case (ps_limiter st, client_ip se) of
        (Some l, Some ip) \<Rightarrow>
          fst (rate_admit (d_rate d) (d_glob d) (mo_rate mo) l ip
            ((case request_host (d_to_str d) (se_request se) of Some h \<Rightarrow> h | None \<Rightarrow> []) @ request_path (se_request se)))
      | _ \<Rightarrow> True)"

lemma rate_phase_ok:
  "rate_phase d mo (client_ip se) (se_request se) ra st = Inr st' \<Longrightarrow>
     rate_admits d mo se st \<and> ps_verifier st' = ps_verifier st \<and> ps_dns st' = ps_dns st"
  by (auto simp: rate_phase_def rate_admits_def case_prod_beta Let_def split: option.splits if_splits)

lemma bypass_phase_Pass:
  "bypass_phase d px ip cert ra st = Inl (v, ra', st') \<Longrightarrow>
     v = Pass \<and> st' = st \<and> (\<exists>s. bypass_subject d px ip cert = Some s \<and> ra' = ra_bypass s ra)"
  by (auto simp: bypass_phase_def split: option.splits)

lemma attested_path_Pass:
  assumes "attested_path d mo px others se ra st = Inl (Pass, ra', st') \<or>
      attested_path d mo px others se ra st = Inr (Pass, ra', st')"
    and "undecided ra"
    and "ra_presented_machine_cert ra = header_str (d_to_str d) (rq_headers (se_request se)) MACHINE_CERT_HEADER"
  shows "\<exists>i p1 s2 s3. inputs_of (d_to_str d) (se_request se) i \<and>
    verify_headers (d_crypto d) (mo_head mo) (ps_verifier (others 1 st)) i = Inr p1 \<and>
    s2 = others 2 (others 1 st) \<and> machine_satisfied d mo px se (ps_dns s2) (ps_dns (others 3 s2)) \<and>
    body_verified (sha256 (d_crypto d)) se (p1_body_binding p1) \<and>
    ps_verifier s3 \<in> {ps_verifier s2, ps_verifier (others 3 s2)} \<and>
    commit_nonce (mo_commit_wall mo) (mo_commit mo) p1 (ps_verifier (others 4 s3)) = (Inr (), ps_verifier st') \<and>
    ra_action ra' = Some Act_Forward"
proof -
  let ?present = "contains_key (rq_headers (se_request se)) MACHINE_CERT_HEADER"
  have "attested_path d mo px others se ra st \<noteq> Inl (Pass, ra', st')"
    by (auto simp: attested_path_def Let_def result_simps header_phase_def preflight_def phase_one_step_def
        machine_phase_def case_prod_beta split: option.splits if_splits sum.splits)
  with assms(1) have *: "attested_path d mo px others se ra st = Inr (Pass, ra', st')" by blast
  then obtain i ra1 p1 ra2 ra3 st3 where
    h: "header_phase d (se_request se) ra st = Inr i" and
    pre: "preflight px ?present ra st = Inr ra1" and
    p1: "phase_one_step d mo i ra1 (others 1 st) = Inr (p1, ra2)" and
    m: "machine_phase d mo px (others 3) ?present (client_ip se) ra2 (others 2 (others 1 st)) = Inr (ra3, st3)" and
    b: "body_phase d mo se p1 ra3 (others 4 st3) = (Pass, ra', st')"
    by (auto simp: attested_path_def Let_def result_simps)
  note u1 = preflight_ok [OF assms(2) pre]
  have cert: "ra_presented_machine_cert ra2 = header_str (d_to_str d) (rq_headers (se_request se)) MACHINE_CERT_HEADER"
    using phase_one_ok(4) [OF u1(1) p1] u1(3) assms(3) by simp
  have v: "verify_headers (d_crypto d) (mo_head mo) (ps_verifier (others 1 st)) i = Inr p1"
    using p1 by (auto simp: phase_one_step_def split: sum.splits)
  have "commit_nonce (mo_commit_wall mo) (mo_commit mo) p1 (ps_verifier (others 4 st3)) = (Inr (), ps_verifier st')"
    "body_verified (sha256 (d_crypto d)) se (p1_body_binding p1)" "ra_action ra' = Some Act_Forward"
    using b [unfolded body_phase_Pass] by (auto simp: ra_forward_def prod_eq_iff)
  with v h machine_phases_ok [OF cert pre m] show ?thesis
    by (intro exI [of _ i] exI [of _ p1] exI [of _ "others 2 (others 1 st)"] exI [of _ st3])
      (auto simp: header_phase_ok)
qed

lemma passed_verified:
  assumes "calendar_range (d_time d)"
    and "request_filter d mo px others se (proxy_new_ctx now px) st = (Pass, ra', st')"
  shows "rate_admits d mo se (others 0 st) \<and>
    ((\<exists>s. bypass_subject d px (client_ip se) (session_client_cert se) = Some s \<and> ra_action ra' = Some Act_Bypass) \<or>
     (\<exists>i p1 s1 s2 s3. inputs_of (d_to_str d) (se_request se) i \<and>
        ps_verifier s1 = ps_verifier (others 0 st) \<and> ps_dns s1 = ps_dns (others 0 st) \<and>
        verify_headers (d_crypto d) (mo_head mo) (ps_verifier (others 1 s1)) i = Inr p1 \<and>
        s2 = others 2 (others 1 s1) \<and> machine_satisfied d mo px se (ps_dns s2) (ps_dns (others 3 s2)) \<and>
        body_verified (sha256 (d_crypto d)) se (p1_body_binding p1) \<and>
        ps_verifier s3 \<in> {ps_verifier s2, ps_verifier (others 3 s2)} \<and>
        commit_nonce (mo_commit_wall mo) (mo_commit mo) p1 (ps_verifier (others 4 s3)) = (Inr (), ps_verifier st') \<and>
        nc_contains (v_cache (ps_verifier st')) (p1_nonce p1) \<and>
        ra_action ra' = Some Act_Forward))"
proof -
  let ?ra = "record_head d (se_request se) (ra_new now (px_machine px \<noteq> None))"
  have u: "undecided ?ra" by (rule record_head_undecided [OF fresh_undecided assms(1)])
  have f: "request_filter d mo px others se (ra_new now (px_machine px \<noteq> None)) st = (Pass, ra', st')"
    using assms(2) by (simp add: proxy_new_ctx_def)
  show ?thesis
  proof (cases "rate_phase d mo (client_ip se) (se_request se) ?ra (others 0 st)")
    case (Inl x)
    then show ?thesis
      using f by (auto simp: request_filter_def Let_def rate_phase_def case_prod_beta split: option.splits if_splits)
  next
    case rate: (Inr st1)
    show ?thesis
    proof (cases "bypass_phase d px (client_ip se) (session_client_cert se) ?ra st1")
      case (Inl x)
      then have "bypass_phase d px (client_ip se) (session_client_cert se) ?ra st1 = Inl (Pass, ra', st')"
        using f rate by (simp add: request_filter_def Let_def)
      from bypass_phase_Pass [OF this] rate_phase_ok [OF rate] show ?thesis by (auto simp: ra_bypass_def)
    next
      case (Inr y)
      with rate f have "attested_path d mo px others se ?ra st1 = Inl (Pass, ra', st') \<or>
          attested_path d mo px others se ?ra st1 = Inr (Pass, ra', st')"
        by (auto simp: request_filter_def Let_def split: sum.splits)
      from attested_path_Pass [OF this u record_head_simps(4)] obtain i p1 s2 s3 where
        a: "inputs_of (d_to_str d) (se_request se) i"
        "verify_headers (d_crypto d) (mo_head mo) (ps_verifier (others 1 st1)) i = Inr p1"
        "s2 = others 2 (others 1 st1)"
        "machine_satisfied d mo px se (ps_dns s2) (ps_dns (others 3 s2))"
        "body_verified (sha256 (d_crypto d)) se (p1_body_binding p1)"
        "ps_verifier s3 \<in> {ps_verifier s2, ps_verifier (others 3 s2)}"
        "commit_nonce (mo_commit_wall mo) (mo_commit mo) p1 (ps_verifier (others 4 s3)) = (Inr (), ps_verifier st')"
        "ra_action ra' = Some Act_Forward"
        by blast
      have "nc_contains (v_cache (ps_verifier st')) (p1_nonce p1)"
        using a(7) by (rule commit_remembers)
      with a rate_phase_ok [OF rate] show ?thesis by blast
    qed
  qed
qed

text \<open>
  C2. Nothing unverified goes upstream, under every interleaving with other requests.  If the request
  path lets a request through, the rate limiter admitted it, and then either the bypass policy
  authorises this client's address together with its verified certificate, or all of this holds: the
  three attestation headers and the host are present and readable; the token decrypts and commits to
  exactly this request's nonce, timestamp, host, method and path, in the clock window, with a nonce not
  seen before; the machine certificate, where the layer is on, verified (or is absent and not
  required); the whole body the upstream gets is at most 64 KiB and hashes to what the token commits
  to, or the token says unbound; and the nonce was committed, on the shared cache, by this request.
\<close>

theorem forwarded_only_verified:
  assumes "calendar_range (d_time d)"
    and "request_filter d mo px others se (proxy_new_ctx now px) st = (Pass, ra', st')"
  shows "rate_admits d mo se (others 0 st) \<and>
    ((\<exists>s. bypass_subject d px (client_ip se) (session_client_cert se) = Some s \<and> ra_action ra' = Some Act_Bypass) \<or>
     (\<exists>i p1 s1 s2 s3. inputs_of (d_to_str d) (se_request se) i \<and>
        ps_verifier s1 = ps_verifier (others 0 st) \<and> ps_dns s1 = ps_dns (others 0 st) \<and>
        verify_headers (d_crypto d) (mo_head mo) (ps_verifier (others 1 s1)) i = Inr p1 \<and>
        s2 = others 2 (others 1 s1) \<and> machine_satisfied d mo px se (ps_dns s2) (ps_dns (others 3 s2)) \<and>
        body_verified (sha256 (d_crypto d)) se (p1_body_binding p1) \<and>
        ps_verifier s3 \<in> {ps_verifier s2, ps_verifier (others 3 s2)} \<and>
        commit_nonce (mo_commit_wall mo) (mo_commit mo) p1 (ps_verifier (others 4 s3)) = (Inr (), ps_verifier st') \<and>
        nc_contains (v_cache (ps_verifier st')) (p1_nonce p1) \<and>
        ra_action ra' = Some Act_Forward))"
  using assms by (rule passed_verified)

section \<open>What is verified goes upstream\<close>

abbreviation alone :: "nat \<Rightarrow> ('sk, 'g, 'r) proxy_state \<Rightarrow> ('sk, 'g, 'r) proxy_state" where
  "alone \<equiv> (\<lambda>_ s. s)"

lemma rate_phase_admits:
  "rate_admits d mo se st \<Longrightarrow>
     \<exists>st'. rate_phase d mo (client_ip se) (se_request se) ra st = Inr st' \<and>
       ps_verifier st' = ps_verifier st \<and> ps_dns st' = ps_dns st"
  by (auto simp: rate_phase_def rate_admits_def case_prod_beta Let_def split: option.splits)

lemma preflight_satisfied:
  "machine_satisfied d mo px se dns dns' \<Longrightarrow>
     \<exists>ra'. preflight px (contains_key (rq_headers (se_request se)) MACHINE_CERT_HEADER) ra st = Inr ra' \<and>
       ra_presented_machine_cert ra' = ra_presented_machine_cert ra"
  by (auto simp: machine_satisfied_def preflight_def ra_machine_absent_def split: option.splits if_splits)

lemma machine_phase_satisfied:
  assumes "machine_satisfied d mo px se (ps_dns st) (ps_dns (oth st))"
    and "ra_presented_machine_cert ra = header_str (d_to_str d) (rq_headers (se_request se)) MACHINE_CERT_HEADER"
  shows "\<exists>ra' st'. machine_phase d mo px oth (contains_key (rq_headers (se_request se)) MACHINE_CERT_HEADER)
    (client_ip se) ra st = Inr (ra', st') \<and> ps_verifier st' \<in> {ps_verifier st, ps_verifier (oth st)}"
  using assms
  by (auto simp: machine_satisfied_def machine_phase_def Let_def case_prod_beta split: option.splits if_splits)

lemma rate_phase_any:
  "rate_phase d mo ip req ra st = Inr st' \<Longrightarrow> rate_phase d mo ip req ra' st = Inr st'"
  by (auto simp: rate_phase_def case_prod_beta Let_def split: option.splits if_splits)

lemma verified_forwarded_among:
  assumes "rate_phase d mo (client_ip se) (se_request se) ra0 (others 0 st) = Inr s1"
    and "inputs_of (d_to_str d) (se_request se) i"
    and "verify_headers (d_crypto d) (mo_head mo) (ps_verifier (others 1 s1)) i = Inr p1"
    and "s2 = others 2 (others 1 s1)" "machine_satisfied d mo px se (ps_dns s2) (ps_dns (others 3 s2))"
    and "body_verified (sha256 (d_crypto d)) se (p1_body_binding p1)"
    and "\<And>s3. ps_verifier s3 \<in> {ps_verifier s2, ps_verifier (others 3 s2)} \<Longrightarrow>
        fst (commit_nonce (mo_commit_wall mo) (mo_commit mo) p1 (ps_verifier (others 4 s3))) = Inr ()"
  shows "fst (request_filter d mo px others se (proxy_new_ctx now px) st) = Pass"
proof -
  let ?ra = "record_head d (se_request se) (ra_new now (px_machine px \<noteq> None))"
  let ?present = "contains_key (rq_headers (se_request se)) MACHINE_CERT_HEADER"
  have rate: "rate_phase d mo (client_ip se) (se_request se) ?ra (others 0 st) = Inr s1"
    using assms(1) by (rule rate_phase_any)
  obtain ra1 where ra1: "preflight px ?present ?ra s1 = Inr ra1"
    "ra_presented_machine_cert ra1 = header_str (d_to_str d) (rq_headers (se_request se)) MACHINE_CERT_HEADER"
    using preflight_satisfied [OF assms(5)] record_head_simps(4) by metis
  let ?ra2 = "ra_token_passed (binding_of (p1_body_binding p1)) ra1"
  have p1: "phase_one_step d mo i ra1 (others 1 s1) = Inr (p1, ?ra2)"
    using assms(3) by (simp add: phase_one_step_def)
  obtain ra3 s3 where s3: "machine_phase d mo px (others 3) ?present (client_ip se) ?ra2 s2 = Inr (ra3, s3)"
    "ps_verifier s3 \<in> {ps_verifier s2, ps_verifier (others 3 s2)}"
    using machine_phase_satisfied [where st = s2 and oth = "others 3" and ra = ?ra2, OF assms(5)] ra1(2)
    by (auto simp: ra_token_passed_def)
  have h: "header_phase d (se_request se) ?ra s1 = Inr i" using assms(2) by (simp add: header_phase_ok)
  have "body_phase d mo se p1 ra3 (others 4 s3) = (Pass, ra_forward ra3, (others 4 s3)\<lparr>ps_verifier :=
      snd (commit_nonce (mo_commit_wall mo) (mo_commit mo) p1 (ps_verifier (others 4 s3)))\<rparr>)"
    unfolding body_phase_Pass using assms(6) assms(7) [OF s3(2)] by simp
  moreover have "attested_path d mo px others se ?ra s1 = Inr (body_phase d mo se p1 ra3 (others 4 s3))"
    using h ra1 p1 s3(1) assms(4) by (simp add: attested_path_def Let_def)
  ultimately show ?thesis
    using rate unfolding proxy_new_ctx_def request_filter_def Let_def
    by (cases "bypass_subject d px (client_ip se) (session_client_cert se)") (simp_all add: bypass_phase_def)
qed

lemma verified_forwarded:
  assumes "rate_admits d mo se st" "inputs_of (d_to_str d) (se_request se) i"
    and "verify_headers (d_crypto d) (mo_head mo) (ps_verifier st) i = Inr p1"
    and "machine_satisfied d mo px se (ps_dns st) (ps_dns st)"
    and "body_verified (sha256 (d_crypto d)) se (p1_body_binding p1)"
    and "fst (commit_nonce (mo_commit_wall mo) (mo_commit mo) p1 (ps_verifier st)) = Inr ()"
  shows "fst (request_filter d mo px alone se (proxy_new_ctx now px) st) = Pass"
proof -
  obtain s1 where s1: "rate_phase d mo (client_ip se) (se_request se) (ra_new 0 False) st = Inr s1"
    "ps_verifier s1 = ps_verifier st" "ps_dns s1 = ps_dns st"
    using rate_phase_admits [OF assms(1)] by blast
  show ?thesis
    using assms s1(2,3) by (intro verified_forwarded_among [where others = alone, OF s1(1) assms(2), of p1 s1]) auto
qed

text \<open>Which of the two ways in a request that passes took.\<close>

lemma passed_action:
  assumes "calendar_range (d_time d)"
    and "request_filter d mo px others se (proxy_new_ctx now px) st = (Pass, ra', st')"
  shows "ra_action ra' =
    Some (if bypass_subject d px (client_ip se) (session_client_cert se) = None then Act_Forward else Act_Bypass)"
proof (cases "bypass_subject d px (client_ip se) (session_client_cert se)")
  case None
  with passed_verified [OF assms] show ?thesis by auto
next
  case (Some subj)
  with assms(2) show ?thesis
    by (cases "rate_phase d mo (client_ip se) (se_request se)
        (record_head d (se_request se) (ra_new now (px_machine px \<noteq> None))) (others 0 st)")
      (auto simp: proxy_new_ctx_def request_filter_def Let_def bypass_phase_def ra_bypass_def rate_phase_def
        case_prod_beta split: option.splits if_splits)
qed

text \<open>
  The converse, for a request handled on its own: whatever the rate limiter admits and satisfies all
  the conditions is let through, so no request that meets them is turned away.
\<close>

lemma verified_request_forwarded:
  assumes "rate_admits d mo se st" "inputs_of (d_to_str d) (se_request se) i"
    and "verify_headers (d_crypto d) (mo_head mo) (ps_verifier st) i = Inr p1"
    and "machine_satisfied d mo px se (ps_dns st) (ps_dns st)"
    and "body_verified (sha256 (d_crypto d)) se (p1_body_binding p1)"
    and "fst (commit_nonce (mo_commit_wall mo) (mo_commit mo) p1 (ps_verifier st)) = Inr ()"
  shows "fst (request_filter d mo px alone se (proxy_new_ctx now px) st) = Pass"
  using assms by (rule verified_forwarded)

section \<open>What a refusal leaves behind\<close>

lemma evict_loop_seen: "seen (evict_loop k now S q) \<subseteq> S"
  by (induction k now S q rule: evict_loop.induct) auto

lemma commit_err_seen:
  "fst (commit_nonce wall inst p1 v) = Inl e \<Longrightarrow> seen (v_cache (snd (commit_nonce wall inst p1 v))) \<subseteq> seen (v_cache v)"
  using evict_loop_seen
  by (auto simp: commit_nonce_def nc_commit_def evict_expired_def Let_def split: if_splits sum.splits prod.splits)

lemma commit_step_refused:
  "commit_step result ra st = (Respond n, ra', st') \<Longrightarrow>
     \<exists>e. fst result = Inl e \<and> ps_verifier st' = snd result"
  by (auto simp: commit_step_def split: prod.splits sum.splits)

lemma body_phase_refused:
  "body_phase d mo se p1 ra st = (Respond n, ra', st') \<Longrightarrow>
     seen (v_cache (ps_verifier st')) \<subseteq> seen (v_cache (ps_verifier st))"
  by (auto simp: body_phase_def verify_body_and_commit_def
      split: body_binding.splits body_outcome.splits if_splits
      dest!: commit_step_refused commit_err_seen)

text \<open>
  What other requests made of a part of the shared state: \<open>only_others view others s t\<close> says that the
  state goes from \<open>s\<close> to \<open>t\<close> by steps of other requests and by steps that leave the part \<open>view\<close> reads as it is.
\<close>

inductive only_others ::
  "(('sk, 'g, 'r) proxy_state \<Rightarrow> 'v) \<Rightarrow> (nat \<Rightarrow> ('sk, 'g, 'r) proxy_state \<Rightarrow> ('sk, 'g, 'r) proxy_state)
   \<Rightarrow> ('sk, 'g, 'r) proxy_state \<Rightarrow> ('sk, 'g, 'r) proxy_state \<Rightarrow> bool"
  for view :: "('sk, 'g, 'r) proxy_state \<Rightarrow> 'v"
    and others :: "nat \<Rightarrow> ('sk, 'g, 'r) proxy_state \<Rightarrow> ('sk, 'g, 'r) proxy_state" where
  here: "only_others view others s s"
| other: "only_others view others s t \<Longrightarrow> only_others view others s (others k t)"
| own: "only_others view others s t \<Longrightarrow> view u = view t \<Longrightarrow> only_others view others s u"

abbreviation caches :: "('sk, 'g, 'r) proxy_state \<Rightarrow> 'sk verifier \<times> dns_cache" where
  "caches s \<equiv> (ps_verifier s, ps_dns s)"

lemma only_others_once: "view u = view (others k s) \<Longrightarrow> only_others view others s u"
  by (rule only_others.own [OF only_others.other [OF only_others.here]])

lemma only_others_coarser:
  assumes "only_others view others s t" "\<And>x y. view x = view y \<Longrightarrow> view' x = view' y"
  shows "only_others view' others s t"
  using assms(1) by (induction rule: only_others.induct) (auto intro: only_others.intros assms(2))

lemma caches_others_verifier: "only_others caches others s t \<Longrightarrow> only_others ps_verifier others s t"
  by (erule only_others_coarser) simp

lemma only_others_alone: "only_others view alone s t \<Longrightarrow> view t = view s"
  by (induction rule: only_others.induct) auto

lemma phase_exit_state:
  "rate_phase d mo ip req ra st = Inl (v, ra', st') \<Longrightarrow> caches st' = caches st"
  "header_phase d req ra st = Inl (v, ra', st') \<Longrightarrow> st' = st"
  "preflight px present ra st = Inl (v, ra', st') \<Longrightarrow> st' = st"
  "phase_one_step d mo i ra st = Inl (v, ra', st') \<Longrightarrow> st' = st"
  "machine_phase d mo px oth present ip ra st = Inl (v, ra', st') \<Longrightarrow> ps_verifier st' \<in> {ps_verifier st, ps_verifier (oth st)}"
  "machine_phase d mo px oth present ip ra st = Inr (ra', st') \<Longrightarrow> ps_verifier st' \<in> {ps_verifier st, ps_verifier (oth st)}"
  by (auto simp: rate_phase_def header_phase_def preflight_def phase_one_step_def machine_phase_def Let_def case_prod_beta
      split: option.splits if_splits sum.splits)

lemma machine_phase_others:
  assumes "only_others ps_verifier others s st"
    and "machine_phase d mo px (others k) present ip ra st = Inl (v, ra', st') \<or>
      machine_phase d mo px (others k) present ip ra st = Inr (ra', st')"
  shows "only_others ps_verifier others s st'"
proof -
  have "ps_verifier st' = ps_verifier st \<or> ps_verifier st' = ps_verifier (others k st)"
    using assms(2) by (elim disjE) (drule phase_exit_state(5), blast, drule phase_exit_state(6), blast)
  then show ?thesis using assms(1) by (metis only_others.other only_others.own)
qed

definition phase_one_passed ::
  "('sk, 'pk, 'g, 'r, 'net, 'cert, 'b, 's) deps \<Rightarrow> moments \<Rightarrow> session \<Rightarrow> ('sk, 'g, 'r) proxy_state \<Rightarrow> bool" where
  "phase_one_passed d mo se st \<longleftrightarrow>
     (\<exists>i p1. inputs_of (d_to_str d) (se_request se) i \<and>
        verify_headers (d_crypto d) (mo_head mo) (ps_verifier st) i = Inr p1)"

lemma attested_path_refused:
  assumes "attested_path d mo px others se ra st = Inl (Respond n, ra', st') \<or>
      attested_path d mo px others se ra st = Inr (Respond n, ra', st')"
  shows "(\<exists>t. only_others ps_verifier others st t \<and> seen (v_cache (ps_verifier st')) \<subseteq> seen (v_cache (ps_verifier t))) \<and>
    (phase_one_passed d mo se (others 1 st) \<or> st' \<in> {st, others 1 st})"
proof -
  let ?present = "contains_key (rq_headers (se_request se)) MACHINE_CERT_HEADER" and ?s2 = "others 2 (others 1 st)"
  have s2: "only_others ps_verifier others st ?s2" "only_others ps_verifier others st (others 1 st)"
    by (intro only_others.intros)+
  consider "st' \<in> {st, others 1 st}"
    | i ra1 p1 ra2 where "header_phase d (se_request se) ra st = Inr i"
      "phase_one_step d mo i ra1 (others 1 st) = Inr (p1, ra2)"
      "machine_phase d mo px (others 3) ?present (client_ip se) ra2 ?s2 = Inl (Respond n, ra', st')"
    | i ra1 p1 ra2 ra3 st3 where "header_phase d (se_request se) ra st = Inr i"
      "phase_one_step d mo i ra1 (others 1 st) = Inr (p1, ra2)"
      "machine_phase d mo px (others 3) ?present (client_ip se) ra2 ?s2 = Inr (ra3, st3)"
      "body_phase d mo se p1 ra3 (others 4 st3) = (Respond n, ra', st')"
    using assms by (auto simp: attested_path_def Let_def result_simps dest: phase_exit_state(2-4))
  then show ?thesis
  proof cases
    case 1
    then show ?thesis using s2(2) only_others.here by blast
  next
    case 2
    have "phase_one_passed d mo se (others 1 st)"
      using 2(1,2) by (auto simp: phase_one_passed_def header_phase_ok phase_one_step_def split: sum.splits)
    moreover have "only_others ps_verifier others st st'" using machine_phase_others [OF s2(1)] 2(3) by blast
    ultimately show ?thesis by blast
  next
    case 3
    have "phase_one_passed d mo se (others 1 st)"
      using 3(1,2) by (auto simp: phase_one_passed_def header_phase_ok phase_one_step_def split: sum.splits)
    moreover have "only_others ps_verifier others st (others 4 st3)"
      using machine_phase_others [OF s2(1)] 3(3) by (blast intro: only_others.other)
    ultimately show ?thesis using body_phase_refused [OF 3(4)] by blast
  qed
qed

lemma only_others_from:
  "only_others view others t u \<Longrightarrow> only_others view others s t \<Longrightarrow> only_others view others s u"
  by (induction rule: only_others.induct) (auto intro: only_others.intros)

text \<open>
  C12. A refused request spends nothing it should not, whatever other requests do in between.  Its nonce
  is never entered into the replay cache by itself, so the browser may retry: every nonce in the cache
  it leaves behind was in a cache that other requests alone made out of the one it found (also when it
  loses the race for its nonce at the commit).  And unless its token verified against the cache
  phase one read, the replay cache and the cache of resolver answers are exactly what other requests
  made of them: bad attestation never reaches the certificate checks or DNS.
\<close>

theorem refused_leaves_no_trace:
  assumes "request_filter d mo px others se ra st = (Respond n, ra', st')"
  shows "(\<exists>t. only_others ps_verifier others st t \<and> seen (v_cache (ps_verifier st')) \<subseteq> seen (v_cache (ps_verifier t))) \<and>
    (only_others caches others st st' \<or>
     (\<exists>s1. rate_phase d mo (client_ip se) (se_request se) ra (others 0 st) = Inr s1 \<and> phase_one_passed d mo se (others 1 s1)))"
proof (cases "rate_phase d mo (client_ip se) (se_request se) (record_head d (se_request se) ra) (others 0 st)")
  case (Inl x)
  then have "rate_phase d mo (client_ip se) (se_request se) (record_head d (se_request se) ra) (others 0 st) = Inl (Respond n, ra', st')"
    using assms by (auto simp: request_filter_def Let_def)
  then have "only_others caches others st st'"
    by (intro only_others_once [where view = caches and k = 0]) (rule phase_exit_state(1))
  then show ?thesis using caches_others_verifier by blast
next
  case (Inr s1)
  let ?ra = "record_head d (se_request se) ra"
  have "caches s1 = caches (others 0 st)" using rate_phase_ok [OF Inr] by simp
  then have s1: "only_others caches others st s1" by (rule only_others_once [where view = caches])
  have path: "attested_path d mo px others se ?ra s1 = Inl (Respond n, ra', st') \<or>
      attested_path d mo px others se ?ra s1 = Inr (Respond n, ra', st')"
    using assms Inr bypass_phase_Pass [of d px "client_ip se" "session_client_cert se" ?ra s1]
    by (cases "bypass_phase d px (client_ip se) (session_client_cert se) ?ra s1")
      (auto simp: request_filter_def Let_def split: sum.splits)
  have "only_others caches others st st'" if "st' \<in> {s1, others 1 s1}"
    using that s1 only_others.other [OF s1] by blast
  with attested_path_refused [OF path] rate_phase_any [OF Inr, of ra] only_others_from [OF _ caches_others_verifier [OF s1]]
  show ?thesis by blast
qed

section \<open>What the request path leaves in the audit state\<close>

text \<open>A part of the audit state that none of the operations of the request path touches, the head apart.\<close>

definition untouched :: "(request_audit \<Rightarrow> 'a) \<Rightarrow> bool" where
  "untouched f \<longleftrightarrow>
     (\<forall>ra r msg. f (ra_reject r msg ra) = f ra) \<and> (\<forall>ra e. f (ra_machine_rejected e ra) = f ra) \<and>
     (\<forall>ra m. f (ra_machine_verified m ra) = f ra) \<and> (\<forall>ra. f (ra_machine_absent ra) = f ra) \<and>
     (\<forall>ra b. f (ra_token_passed b ra) = f ra) \<and> (\<forall>ra. f (ra_forward ra) = f ra) \<and>
     (\<forall>ra subj. f (ra_bypass subj ra) = f ra)"

lemma phases_keep:
  assumes "untouched f"
  shows "rate_phase d mo ip req ra st = Inl (v, ra', st') \<Longrightarrow> f ra' = f ra"
    and "bypass_phase d px ip cert ra st = Inl (v, ra', st') \<Longrightarrow> f ra' = f ra"
    and "header_phase d req ra st = Inl (v, ra', st') \<Longrightarrow> f ra' = f ra"
    and "preflight px present ra st = Inl (v, ra', st') \<Longrightarrow> f ra' = f ra"
    and "preflight px present ra st = Inr ra' \<Longrightarrow> f ra' = f ra"
    and "phase_one_step d mo i ra st = Inl (v, ra', st') \<Longrightarrow> f ra' = f ra"
    and "phase_one_step d mo i ra st = Inr (p1, ra') \<Longrightarrow> f ra' = f ra"
    and "machine_phase d mo px oth present ip ra st = Inl (v, ra', st') \<Longrightarrow> f ra' = f ra"
    and "machine_phase d mo px oth present ip ra st = Inr (ra', st') \<Longrightarrow> f ra' = f ra"
    and "commit_step result ra st = (v, ra', st') \<Longrightarrow> f ra' = f ra"
  by (auto simp: assms [unfolded untouched_def] rate_phase_def bypass_phase_def header_phase_def preflight_def phase_one_step_def machine_phase_def
      commit_step_def Let_def case_prod_beta split: option.splits if_splits sum.splits prod.splits)

lemma body_phase_keeps:
  assumes "untouched f" "body_phase d mo se p1 ra st = (v, ra', st')"
  shows "f ra' = f ra"
  using assms(2)
  by (auto simp: body_phase_def assms(1) [unfolded untouched_def] split: body_binding.splits body_outcome.splits
      dest!: phases_keep(10) [OF assms(1)])

lemma attested_path_keeps:
  assumes "untouched f"
    and "attested_path d mo px others se ra st = Inl (v, ra', st') \<or> attested_path d mo px others se ra st = Inr (v, ra', st')"
  shows "f ra' = f ra"
  using assms(2)
  by (auto simp: attested_path_def Let_def result_simps
      dest!: phases_keep(3-9) [OF assms(1)] body_phase_keeps [OF assms(1)])

lemma request_filter_keeps:
  assumes "untouched f" "request_filter d mo px others se ra st = (v, ra', st')"
  shows "f ra' = f (record_head d (se_request se) ra)"
  using assms(2) attested_path_keeps [OF assms(1), of d mo px others se "record_head d (se_request se) ra" _ v ra' st']
  by (auto simp: request_filter_def Let_def result_simps split: sum.splits dest!: phases_keep(1,2) [OF assms(1)])

text \<open>The bytes of the response, and the timestamp the client sent as the record shows it.\<close>

abbreviation client_timestamp :: "request_audit \<Rightarrow> ustring option" where
  "client_timestamp ra \<equiv> af_client_timestamp (ra_attestation ra)"

lemma untouched_parts: "untouched ra_response_body_bytes" "untouched client_timestamp"
  by (simp_all add: untouched_def audit_op_defs Let_def split: option.splits)

lemma record_head_parts:
  "ra_response_body_bytes (record_head d req ra) = ra_response_body_bytes ra"
  "client_timestamp (record_head d req ra) = Some s \<Longrightarrow> \<exists>secs. unix_timestamp (d_time d) secs = Some s"
  by (auto simp: record_head_def Let_def audit_op_defs bind_eq_Some_conv split: option.splits)

lemma request_filter_keeps_bytes:
  "request_filter d mo px others se ra st = (v, ra', st') \<Longrightarrow> ra_response_body_bytes ra' = ra_response_body_bytes ra"
  using request_filter_keeps [OF untouched_parts(1)] record_head_parts(1) by metis

lemma request_filter_timestamp:
  "request_filter d mo px others se ra st = (v, ra', st') \<Longrightarrow> client_timestamp ra' = Some s \<Longrightarrow>
     \<exists>secs. unix_timestamp (d_time d) secs = Some s"
  using request_filter_keeps [OF untouched_parts(2)] record_head_parts(2) by metis

abbreviation chunk_bytes :: "byte list option \<Rightarrow> nat" where
  "chunk_bytes c \<equiv> (case c of None \<Rightarrow> 0 | Some b \<Rightarrow> length b)"

lemma response_chunk:
  "ra_response_body_bytes ra \<le> u64_max \<Longrightarrow>
     ra_response_body_bytes (response_body_filter c ra) = min u64_max (ra_response_body_bytes ra + chunk_bytes c)"
  "audit_reachable ra \<Longrightarrow> audit_reachable (response_body_filter c ra)"
  "ra_action (response_body_filter c ra) = ra_action ra" "ra_reason (response_body_filter c ra) = ra_reason ra"
  "ra_attestation (response_body_filter c ra) = ra_attestation ra"
  by (auto simp: response_body_filter_def ra_response_body_def split: option.splits)
    (auto simp: ra_response_body_def [symmetric] intro: audit_reachable.step audit_step.body)

lemma response_chunks_bytes:
  "ra_response_body_bytes ra \<le> u64_max \<Longrightarrow>
   ra_response_body_bytes (fold response_body_filter cs ra) =
     min u64_max (ra_response_body_bytes ra + sum_list (map chunk_bytes cs))"
  by (induction cs arbitrary: ra) (simp_all add: response_chunk(1) min_def)

lemma response_chunks:
  "audit_reachable ra \<Longrightarrow> audit_reachable (fold response_body_filter cs ra)"
  "ra_action (fold response_body_filter cs ra) = ra_action ra"
  "ra_reason (fold response_body_filter cs ra) = ra_reason ra"
  "ra_attestation (fold response_body_filter cs ra) = ra_attestation ra"
  by (induction cs arbitrary: ra) (simp_all add: response_chunk(2-5))

section \<open>What the upstream sees\<close>

lemma remove_header_other:
  "n \<noteq> name \<Longrightarrow> filter (\<lambda>(m, _). m = n) (remove_header name h) = filter (\<lambda>(m, _). m = n) h"
  unfolding remove_header_def filter_filter by (rule filter_cong) auto

text \<open>
  C32. The attestation headers and the machine certificate stop at the proxy: none of the four is left in
  the request sent upstream, however often the client repeated it, while every other header keeps all
  its values in order and the method, authority and path are unchanged.
\<close>

theorem upstream_headers_stripped:
  "(\<forall>n \<in> {TS_HEADER, NONCE_HEADER, TOKEN_HEADER, MACHINE_CERT_HEADER}.
      n \<notin> fst ` set (rq_headers (upstream_request_filter req))) \<and>
   (\<forall>n. n \<notin> {TS_HEADER, NONCE_HEADER, TOKEN_HEADER, MACHINE_CERT_HEADER} \<longrightarrow>
      filter (\<lambda>(m, _). m = n) (rq_headers (upstream_request_filter req)) = filter (\<lambda>(m, _). m = n) (rq_headers req)) \<and>
   rq_method (upstream_request_filter req) = rq_method req \<and>
   rq_authority (upstream_request_filter req) = rq_authority req \<and>
   rq_path_and_query (upstream_request_filter req) = rq_path_and_query req"
  by (auto simp: upstream_request_filter_def ATTESTATION_HEADERS_def remove_header_other)
    (auto simp: remove_header_def)

theorem upstream_headers_stripped_witness:
  "TOKEN_HEADER \<notin> fst ` set (rq_headers (upstream_request_filter
     \<lparr>rq_method = str ''GET'', rq_authority = None, rq_path_and_query = None,
      rq_headers = [(TOKEN_HEADER, [1]), (str ''accept'', [2]), (TOKEN_HEADER, [3])]\<rparr>))"
  using upstream_headers_stripped [of "\<lparr>rq_method = str ''GET'', rq_authority = None, rq_path_and_query = None,
      rq_headers = [(TOKEN_HEADER, [1]), (str ''accept'', [2]), (TOKEN_HEADER, [3])]\<rparr>", THEN conjunct1]
  by blast

section \<open>Host and upstream\<close>

lemma hd_split_on: "hd (split_on x s) = takeWhile (\<lambda>c. c \<noteq> x) s"
proof (cases "x \<in> set s")
  case True
  then obtain p q where "s = p @ x # q" "x \<notin> set p" by (meson split_list_first)
  then show ?thesis by (auto simp: split_on_append takeWhile_append)
next
  case False
  then have tw: "takeWhile (\<lambda>c. c \<noteq> x) s = s" by (induction s) auto
  show ?thesis unfolding split_on_free [OF False] tw by simp
qed

text \<open>
  The host the token is checked against: the Host header when it is readable, the URI's authority
  otherwise, cut at its first colon.  For a name or an IPv4 address that removes the port and nothing
  else; a bracketed IPv6 literal is cut inside the address, at its own first colon.
\<close>

lemma request_host_cut:
  "request_host to_str req =
     map_option (takeWhile (\<lambda>c. c \<noteq> 58))
       (case header_str to_str (rq_headers req) (str ''host'') of Some h \<Rightarrow> Some h | None \<Rightarrow> rq_authority req) \<and>
   (58 \<notin> set name \<longrightarrow> takeWhile (\<lambda>c. c \<noteq> 58) name = name \<and> takeWhile (\<lambda>c. c \<noteq> 58) (name @ 58 # port) = name) \<and>
   takeWhile (\<lambda>c. c \<noteq> 58) (str ''[::1]:8443'') = str ''[''"
proof -
  have "58 \<notin> set name \<longrightarrow> takeWhile (\<lambda>c. c \<noteq> 58) name = name \<and> takeWhile (\<lambda>c. c \<noteq> 58) (name @ 58 # port) = name"
    by (auto simp: takeWhile_append takeWhile_eq_all_conv)
  moreover have "takeWhile (\<lambda>c. c \<noteq> 58) (str ''[::1]:8443'') = str ''[''" by (simp add: str_def)
  ultimately show ?thesis by (simp add: request_host_def Let_def hd_split_on)
qed


lemma parse_u16_dec_nat: "n \<le> 65535 \<Longrightarrow> parse_u16 (dec_nat n) = Some (int n)"
  by (simp add: parse_u16_def parse_int_def strip_sign_dec_nat digits_val_print_radix [of 10, folded dec_nat_def])

lemma dec_nat_no_colon: "58 \<notin> set (dec_nat n)"
proof
  assume "58 \<in> set (dec_nat n)"
  moreover obtain d ds where "print_radix 10 n = d # ds" "\<forall>c \<in> set (d # ds). \<exists>k. c = digit_char k"
    using print_radix_shape [of 10 n] by blast
  ultimately obtain k where "58 = digit_char k" by (metis dec_nat_def)
  then show False by (simp add: digit_char_def split: if_splits)
qed

lemma parse_u16_bounds: "parse_u16 s = Some p \<Longrightarrow> 0 \<le> p \<and> p \<le> 65535"
  by (simp add: parse_u16_def parse_int_def Let_def split: option.splits prod.splits if_splits)

text \<open>
  The upstream setting: \<^verbatim>\<open>host:port\<close> is read back as that host and port for every port, also when the
  host itself contains colons (an IPv6 literal); and whatever is accepted has a port of sixteen bits
  and a host that, followed by a colon, is a prefix of the setting.
\<close>

lemma parse_upstream_roundtrip:
  "(n \<le> 65535 \<longrightarrow> parse_upstream (host @ 58 # dec_nat n) = Inr (host, int n)) \<and>
   (parse_upstream u = Inr (h, p) \<longrightarrow> 0 \<le> p \<and> p \<le> 65535 \<and> (\<exists>ps. u = h @ 58 # ps \<and> 58 \<notin> set ps))"
proof -
  have "rsplit_once 58 (host @ 58 # dec_nat n) = Some (host, dec_nat n)"
    by (simp add: rsplit_once_Some dec_nat_no_colon)
  then have "n \<le> 65535 \<longrightarrow> parse_upstream (host @ 58 # dec_nat n) = Inr (host, int n)"
    by (simp add: parse_upstream_def parse_u16_dec_nat)
  moreover have "parse_upstream u = Inr (h, p) \<longrightarrow> 0 \<le> p \<and> p \<le> 65535 \<and> (\<exists>ps. u = h @ 58 # ps \<and> 58 \<notin> set ps)"
    using parse_u16_bounds by (auto simp: parse_upstream_def result_simps rsplit_once_Some)
  ultimately show ?thesis by blast
qed

section \<open>An example\<close>

text \<open>
  One proxy without optional features and one request of the demo client of \<open>Attest_Replay\<close>, with a
  two-chunk body, through the whole request path.
\<close>

definition demo_to_str :: "byte list \<Rightarrow> ustring option" where
  "demo_to_str bs = (if list_all (\<lambda>b. b < 128) bs then Some (map unat bs) else None)"

definition demo_deps :: "(unit, unit, ustring, event_log, unit, unit, unit, unit) deps" where
  "demo_deps = \<lparr>d_crypto = crypto.truncate demo_crypto, d_rate = event_log_ops, d_glob = literal_globs,
     d_net_contains = (\<lambda>_ _. True), d_openssl = demo_openssl, d_time = demo_time,
     d_to_str = demo_to_str, d_lookup_host = (\<lambda>_ _. Inr [])\<rparr>"

definition demo_px :: "(ustring, unit, unit, unit) den_browser_proxy" where
  "demo_px = \<lparr>px_upstream_host = str ''up'', px_upstream_port = 443,
     px_upstream_tls = \<lparr>ut_ca_certs = None, ut_insecure = False\<rparr>, px_bypass = None, px_machine = None\<rparr>"

definition demo_state :: "(unit, ustring, event_log) proxy_state" where
  "demo_state = \<lparr>ps_verifier = demo_verifier, ps_limiter = None, ps_dns = Map.empty\<rparr>"

definition demo_moments :: moments where
  "demo_moments = \<lparr>mo_rate = 0, mo_head = demo_wall, mo_dns = 0, mo_answer = 0, mo_commit_wall = demo_wall, mo_commit = 0\<rparr>"

definition demo_session :: session where
  "demo_session = \<lparr>se_server_addr = None, se_client_addr = None, se_digest = None,
     se_request = \<lparr>rq_method = str ''GET'', rq_authority = Some (str ''host:443''), rq_path_and_query = None,
       rq_headers = [(TS_HEADER, map of_nat (str ''1000'')), (NONCE_HEADER, replicate 16 65),
         (TOKEN_HEADER, map of_nat (demo_token 65))]\<rparr>,
     se_body = [[1, 2], [3]], se_body_error = None\<rparr>"

lemma header_names_distinct:
  "TS_HEADER \<noteq> NONCE_HEADER" "TS_HEADER \<noteq> TOKEN_HEADER" "NONCE_HEADER \<noteq> TOKEN_HEADER"
  "str ''host'' \<noteq> TS_HEADER" "str ''host'' \<noteq> NONCE_HEADER" "str ''host'' \<noteq> TOKEN_HEADER"
  by (simp_all add: TS_HEADER_def NONCE_HEADER_def TOKEN_HEADER_def)

lemma truncate_crypto:
  "verify_headers (crypto.truncate K) = verify_headers K" "sha256 (crypto.truncate K) = sha256 K"
  by (simp_all add: fun_eq_iff verify_headers_def decode_nonce_def decrypt_token_def derive_key_def crypto.truncate_def)

lemma demo_to_str_ascii: "list_all (\<lambda>c. c < 128) s \<Longrightarrow> demo_to_str (map of_nat s) = Some s"
proof -
  assume "list_all (\<lambda>c. c < 128) s"
  then have "list_all (\<lambda>b. b < 128) (map of_nat s :: byte list)" "map unat (map of_nat s :: byte list) = s"
    by (induction s) (simp_all add: unat_of_nat_byte word_less_nat_alt)
  then show ?thesis by (simp add: demo_to_str_def)
qed

lemma demo_token_ascii: "list_all (\<lambda>c. c < 128) (demo_token 65)"
  by code_simp

lemma demo_inputs_read: "inputs_of (d_to_str demo_deps) (se_request demo_session) demo_inputs"
proof -
  have "list_all (\<lambda>c. c < 128) (str ''1000'')" "list_all (\<lambda>c. c < 128) (replicate 16 65 :: ustring)"
    by (simp_all add: str_def list_all_iff)
  then have "demo_to_str (map of_nat (str ''1000'')) = Some (str ''1000'')"
    "demo_to_str (replicate 16 65) = Some (replicate 16 65)"
    using demo_to_str_ascii [of "str ''1000''"] demo_to_str_ascii [of "replicate 16 65"] by simp_all
  moreover have "demo_to_str (map of_nat (demo_token 65)) = Some (demo_token 65)"
    using demo_token_ascii by (rule demo_to_str_ascii)
  moreover have "hd (split_on 58 (str ''host:443'')) = str ''host''" by (simp add: hd_split_on str_def)
  ultimately show ?thesis
    using header_names_distinct
    by (simp add: inputs_of_def demo_deps_def demo_session_def header_str_def request_host_def request_path_def)
qed

lemma demo_head: "verify_headers demo_crypto demo_wall demo_verifier demo_inputs = Inr (demo_p1 65)"
  using minted_head [OF crypto_laws_demo verifier_reachable.start, of "str ''1000''" "str ''host''"
      "str ''GET''" "str ''/''" "replicate 16 65" 1000 demo_wall "replicate 16 65" "()" "()" "[]"]
  by (simp add: plain_demo parse_i64_1000 unix_now_demo demo_sha demo_pub demo_b64 shared_init_def)

lemma demo_commit: "fst (commit_nonce demo_wall 0 (demo_p1 65) demo_verifier) = Inr ()"
  by (simp add: commit_nonce_def nc_contains_def nc_default_def check_commit_window_eq unix_now_demo nc_commit_def
      evict_expired_def)

lemma demo_conditions:
  "rate_admits demo_deps demo_moments demo_session demo_state"
  "verify_headers (d_crypto demo_deps) (mo_head demo_moments) (ps_verifier demo_state) demo_inputs = Inr (demo_p1 65)"
  "machine_satisfied demo_deps demo_moments demo_px demo_session (ps_dns demo_state) (ps_dns demo_state)"
  "body_verified (sha256 (d_crypto demo_deps)) demo_session (p1_body_binding (demo_p1 65))"
  "fst (commit_nonce (mo_commit_wall demo_moments) (mo_commit demo_moments) (demo_p1 65) (ps_verifier demo_state)) = Inr ()"
  using demo_head demo_commit
  by (simp_all add: rate_admits_def machine_satisfied_def body_verified_def demo_deps_def demo_state_def demo_px_def
      demo_moments_def truncate_crypto demo_sha) (simp add: demo_session_def)


lemma demo_deps_time: "d_time demo_deps = demo_time"
  by (simp add: demo_deps_def)

lemma demo_deps_calendar: "calendar_range (d_time demo_deps)"
  unfolding demo_deps_time by (rule demo_calendar)

lemma demo_run_passes:
  obtains ra' st' where
    "request_filter demo_deps demo_moments demo_px alone demo_session (proxy_new_ctx 0 demo_px) demo_state = (Pass, ra', st')"
    "ra_action ra' = Some Act_Forward"
proof -
  obtain ra' st' where r:
    "request_filter demo_deps demo_moments demo_px alone demo_session (proxy_new_ctx 0 demo_px) demo_state = (Pass, ra', st')"
    using verified_forwarded [OF demo_conditions(1) demo_inputs_read demo_conditions(2-5), of 0]
    by (cases "request_filter demo_deps demo_moments demo_px alone demo_session (proxy_new_ctx 0 demo_px) demo_state") auto
  have "bypass_subject demo_deps demo_px (client_ip demo_session) (session_client_cert demo_session) = None"
    by (simp add: bypass_subject_def demo_px_def)
  with passed_verified [OF demo_deps_calendar r] have "ra_action ra' = Some Act_Forward" by auto
  with r show thesis by (rule that)
qed

theorem forwarded_only_verified_witness:
  "\<exists>ra' st' i p1. request_filter demo_deps demo_moments demo_px alone demo_session (proxy_new_ctx 0 demo_px) demo_state =
     (Pass, ra', st') \<and> inputs_of (d_to_str demo_deps) (se_request demo_session) i \<and>
     nc_contains (v_cache (ps_verifier st')) (p1_nonce (p1 :: phase_one))"
proof -
  obtain ra' st' where r:
    "request_filter demo_deps demo_moments demo_px alone demo_session (proxy_new_ctx 0 demo_px) demo_state = (Pass, ra', st')"
    by (rule demo_run_passes)
  have b: "bypass_subject demo_deps demo_px (client_ip demo_session) (session_client_cert demo_session) = None"
    by (simp add: bypass_subject_def demo_px_def)
  from forwarded_only_verified [OF demo_deps_calendar r, THEN conjunct2, unfolded b] obtain i and p1 :: phase_one where
    "inputs_of (d_to_str demo_deps) (se_request demo_session) i" "nc_contains (v_cache (ps_verifier st')) (p1_nonce p1)"
    by blast
  with r show ?thesis by blast
qed

theorem every_exit_recorded_witness:
  "\<exists>v ra' st'. request_filter demo_deps demo_moments demo_px alone demo_session (proxy_new_ctx 0 demo_px) demo_state =
     (v, ra', st') \<and> ra_reason ra' = None \<and> ra_action ra' \<in> {Some Act_Forward, Some Act_Bypass}"
proof -
  obtain ra' st' where r:
    "request_filter demo_deps demo_moments demo_px alone demo_session (proxy_new_ctx 0 demo_px) demo_state = (Pass, ra', st')"
    by (rule demo_run_passes)
  have t: "calendar_range (d_time demo_deps)" "utc_ok (from_system (d_time demo_deps) 0)"
    unfolding demo_deps_time by (rule demo_calendar) (simp add: demo_time_def utc_ok_def epoch_def)
  from every_exit_recorded [OF t r] r show ?thesis by blast
qed

definition bare_session :: session where
  "bare_session = \<lparr>se_server_addr = None, se_client_addr = None, se_digest = None,
     se_request = \<lparr>rq_method = str ''GET'', rq_authority = None, rq_path_and_query = None, rq_headers = []\<rparr>,
     se_body = [], se_body_error = None\<rparr>"

lemma bare_refused:
  obtains ra' st' where
    "request_filter demo_deps demo_moments demo_px alone bare_session (proxy_new_ctx 0 demo_px) demo_state = (Respond 403, ra', st')"
proof -
  let ?r = "request_filter demo_deps demo_moments demo_px alone bare_session (proxy_new_ctx 0 demo_px) demo_state"
  have "fst ?r = Respond 403"
    by (simp add: request_filter_def Let_def rate_phase_def bypass_phase_def bypass_subject_def demo_state_def
        demo_px_def attested_path_def header_phase_def bare_session_def header_str_def)
  with that show thesis by (cases ?r) auto
qed

text \<open>Another request that commits the same nonce between phase one and the commit.\<close>

definition racing :: "nat \<Rightarrow> (unit, ustring, event_log) proxy_state \<Rightarrow> (unit, ustring, event_log) proxy_state" where
  "racing k s = (if k = 4 then s\<lparr>ps_verifier := snd (commit_nonce demo_wall 0 (demo_p1 65) (ps_verifier s))\<rparr> else s)"

lemma race_lost:
  obtains n ra' st' where
    "request_filter demo_deps demo_moments demo_px racing demo_session (proxy_new_ctx 0 demo_px) demo_state = (Respond n, ra', st')"
proof -
  obtain v ra' st' where r:
    "request_filter demo_deps demo_moments demo_px racing demo_session (proxy_new_ctx 0 demo_px) demo_state = (v, ra', st')"
    by (cases "request_filter demo_deps demo_moments demo_px racing demo_session (proxy_new_ctx 0 demo_px) demo_state")
  have "v \<noteq> Pass"
  proof
    assume "v = Pass"
    have "bypass_subject demo_deps demo_px (client_ip demo_session) (session_client_cert demo_session) = None"
      by (simp add: bypass_subject_def demo_px_def)
    with passed_verified [OF demo_deps_calendar r [unfolded \<open>v = Pass\<close>], THEN conjunct2] obtain i p1 s1 s2 s3 where
      a: "inputs_of (d_to_str demo_deps) (se_request demo_session) i" "ps_verifier s1 = ps_verifier (racing 0 demo_state)"
      "verify_headers (d_crypto demo_deps) (mo_head demo_moments) (ps_verifier (racing 1 s1)) i = Inr p1"
      "s2 = racing 2 (racing 1 s1)" "ps_verifier s3 \<in> {ps_verifier s2, ps_verifier (racing 3 s2)}"
      "commit_nonce (mo_commit_wall demo_moments) (mo_commit demo_moments) p1 (ps_verifier (racing 4 s3)) = (Inr (), ps_verifier st')"
      by (elim disjE exE conjE) (simp, rule that)
    have ver: "ps_verifier (racing 1 s1) = demo_verifier" "ps_verifier s3 = demo_verifier"
      using a(2,4,5) by (simp_all add: racing_def demo_state_def)
    have "i = demo_inputs" using a(1) demo_inputs_read by (auto simp: inputs_of_def)
    with a(3) ver(1) demo_head have "p1 = demo_p1 65"
      by (simp add: demo_deps_def truncate_crypto demo_moments_def)
    with a(6) ver(2) have two: "commit_nonce demo_wall 0 (demo_p1 65) (snd (commit_nonce demo_wall 0 (demo_p1 65) demo_verifier)) =
        (Inr (), ps_verifier st')"
      by (simp add: racing_def demo_moments_def)
    have "commit_nonce demo_wall 0 (demo_p1 65) demo_verifier =
        (Inr (), snd (commit_nonce demo_wall 0 (demo_p1 65) demo_verifier))"
      using demo_commit by (simp add: prod_eq_iff)
    from commit_remembers [OF this] two show False by (simp add: commit_nonce_eq_Inr)
  qed
  with that r show thesis by (cases v) auto
qed

theorem refused_leaves_no_trace_witness:
  "(\<exists>ra' st'. request_filter demo_deps demo_moments demo_px alone bare_session (proxy_new_ctx 0 demo_px) demo_state =
     (Respond 403, ra', st') \<and> ps_verifier st' = ps_verifier demo_state) \<and>
   (\<exists>n ra' st' t. request_filter demo_deps demo_moments demo_px racing demo_session (proxy_new_ctx 0 demo_px) demo_state =
     (Respond n, ra', st') \<and> only_others ps_verifier racing demo_state t \<and>
     seen (v_cache (ps_verifier st')) \<subseteq> seen (v_cache (ps_verifier t)))"
proof
  obtain ra' st' where r:
    "request_filter demo_deps demo_moments demo_px alone bare_session (proxy_new_ctx 0 demo_px) demo_state = (Respond 403, ra', st')"
    by (rule bare_refused)
  have "\<not> phase_one_passed demo_deps mo bare_session s" for mo s
    by (simp add: phase_one_passed_def inputs_of_def bare_session_def header_str_def)
  with refused_leaves_no_trace [OF r] have "only_others caches alone demo_state st'" by blast
  from only_others_alone [OF this] r
  show "\<exists>ra' st'. request_filter demo_deps demo_moments demo_px alone bare_session (proxy_new_ctx 0 demo_px) demo_state =
     (Respond 403, ra', st') \<and> ps_verifier st' = ps_verifier demo_state"
    by auto
  obtain n ra2 st2 where r2:
    "request_filter demo_deps demo_moments demo_px racing demo_session (proxy_new_ctx 0 demo_px) demo_state = (Respond n, ra2, st2)"
    by (rule race_lost)
  from refused_leaves_no_trace [OF r2] r2
  show "\<exists>n ra' st' t. request_filter demo_deps demo_moments demo_px racing demo_session (proxy_new_ctx 0 demo_px) demo_state =
     (Respond n, ra', st') \<and> only_others ps_verifier racing demo_state t \<and>
     seen (v_cache (ps_verifier st')) \<subseteq> seen (v_cache (ps_verifier t))"
    by blast
qed

end
