(* ===== verification/Tls_Key.thy ===== *)
theory Tls_Key
  imports Config
begin

text \<open>
  The listener's private key (\<^verbatim>\<open>src/proxy/src/tls_key.rs\<close>).  OpenSSL's PEM reader is a parameter: on a
  plaintext key it answers at once, on an encrypted one it calls back for a passphrase, offering a
  buffer of \<open>buf\<close> bytes, and continues with what it was given.
\<close>

section \<open>Operations\<close>

datatype 'k pem_read =
    Plain "ustring + 'k"
  | Asks nat "byte list \<Rightarrow> ustring + 'k"

datatype tls_key_error =
    KeyUnreadable ustring ustring
  | PassphraseFileUnreadable ustring ustring
  | PassphraseFileEmpty ustring
  | KeyEncryptedNoPassphrase ustring
  | KeyCannotDecrypt ustring ustring
  | KeyCannotParse ustring ustring

text \<open>\<^verbatim>\<open>passphrase\<close>: the inline secret, or the first line of the file without its line ending.\<close>

definition strip_cr :: "byte list \<Rightarrow> byte list" where
  "strip_cr line = (if line \<noteq> [] \<and> last line = 13 then butlast line else line)"

definition first_line :: "byte list \<Rightarrow> byte list" where
  "first_line contents = strip_cr (hd (split_on 10 contents))"

definition passphrase ::
  "(ustring \<Rightarrow> ustring + byte list) \<Rightarrow> proxy_config \<Rightarrow> tls_key_error + byte list option" where
  "passphrase read_file cfg =
     (if \<not> secret_is_empty (pc_tls_key_passphrase cfg)
      then Inr (Some (utf8 (expose (pc_tls_key_passphrase cfg))))
      else if pc_tls_key_passphrase_file cfg = [] then Inr None
      else
        let path = pc_tls_key_passphrase_file cfg in
        rbind (map_err (PassphraseFileUnreadable path) (read_file path)) (\<lambda>contents.
        rbind (ensure (first_line contents \<noteq> []) (PassphraseFileEmpty path)) (\<lambda>_.
        Inr (Some (first_line contents)))))"

text \<open>The callback: nothing rather than a truncated passphrase.\<close>

definition supply_pass :: "byte list option \<Rightarrow> nat \<Rightarrow> byte list" where
  "supply_pass pass buf =
     (let p = (case pass of Some p \<Rightarrow> p | None \<Rightarrow> []) in if length p \<le> buf then p else [])"

text \<open>\<^verbatim>\<open>load\<close>: the key and whether the unused-passphrase warning was logged.\<close>

definition tls_key_load ::
  "(ustring \<Rightarrow> ustring + byte list) \<Rightarrow> (byte list \<Rightarrow> 'k pem_read) \<Rightarrow> proxy_config \<Rightarrow> tls_key_error + 'k \<times> bool" where
  "tls_key_load read_file read_pem cfg =
     rbind (map_err (KeyUnreadable (pc_tls_key cfg)) (read_file (pc_tls_key cfg))) (\<lambda>pem.
     rbind (passphrase read_file cfg) (\<lambda>pass.
     (case read_pem pem of
        Plain (Inr key) \<Rightarrow> Inr (key, pass \<noteq> None)
      | Plain (Inl e) \<Rightarrow> Inl (KeyCannotParse (pc_tls_key cfg) e)
      | Asks buf k \<Rightarrow>
          (case k (supply_pass pass buf) of
             Inr key \<Rightarrow> Inr (key, False)
           | Inl e \<Rightarrow>
               if pass = None then Inl (KeyEncryptedNoPassphrase (pc_tls_key cfg))
               else Inl (KeyCannotDecrypt (pc_tls_key cfg) e)))))"

section \<open>The passphrase file\<close>

lemma first_line_eq:
  assumes "10 \<notin> set line"
  shows "first_line line = strip_cr line" "first_line (line @ 10 # rest) = strip_cr line"
  using assms by (simp_all add: first_line_def split_on_free split_on_append)

text \<open>
  The passphrase read from a file is its first line, byte for byte: a file that ends there, one
  that goes on after a newline and one with a Windows line ending all give the same passphrase, and
  nothing after the first line matters.
\<close>

lemma passphrase_first_line:
  assumes "secret_is_empty (pc_tls_key_passphrase cfg)" "pc_tls_key_passphrase_file cfg \<noteq> []"
    and "10 \<notin> set p" "p \<noteq> []" "last p \<noteq> 13"
    and "rd (pc_tls_key_passphrase_file cfg) \<in> {Inr p, Inr (p @ 10 # rest), Inr (p @ [13] @ 10 # rest)}"
  shows "passphrase rd cfg = Inr (Some p)"
proof -
  have "first_line p = p" "first_line (p @ 10 # rest) = p"
    using first_line_eq [OF assms(3)] assms(4,5) by (simp_all add: strip_cr_def)
  moreover have "first_line ((p @ [13]) @ 10 # rest) = p"
    using first_line_eq(2) [of "p @ [13]" rest] assms(3) by (simp add: strip_cr_def)
  ultimately show ?thesis
    using assms by (auto simp: passphrase_def Let_def)
qed

section \<open>Loading the key\<close>

text \<open>
  How loading ends, in every case: a plaintext key loads with or without a passphrase (and a
  useless passphrase is reported); an encrypted key is only ever opened with the whole configured
  passphrase or with nothing, never with a truncated one; and an encrypted key that cannot be opened
  is an error that tells a missing passphrase from a wrong one.
\<close>

lemma tls_key_load_cases:
  assumes "rd (pc_tls_key cfg) = Inr pem" "passphrase rd cfg = Inr pass"
  shows "(case read_pem pem of
      Plain (Inr key) \<Rightarrow> tls_key_load rd read_pem cfg = Inr (key, pass \<noteq> None)
    | Plain (Inl e) \<Rightarrow> tls_key_load rd read_pem cfg = Inl (KeyCannotParse (pc_tls_key cfg) e)
    | Asks buf k \<Rightarrow>
        (\<exists>given. (given = [] \<or> Some given = pass) \<and>
          (\<forall>p. pass = Some p \<and> length p \<le> buf \<longrightarrow> given = p) \<and>
          (case k given of
             Inr key \<Rightarrow> tls_key_load rd read_pem cfg = Inr (key, False)
           | Inl e \<Rightarrow> tls_key_load rd read_pem cfg =
               Inl (case pass of
                      None \<Rightarrow> KeyEncryptedNoPassphrase (pc_tls_key cfg)
                    | Some _ \<Rightarrow> KeyCannotDecrypt (pc_tls_key cfg) e))))"
proof (cases "read_pem pem")
  case (Asks buf k)
  let ?g = "supply_pass pass buf"
  have "?g = [] \<or> Some ?g = pass" "\<forall>p. pass = Some p \<and> length p \<le> buf \<longrightarrow> ?g = p"
    by (auto simp: supply_pass_def Let_def split: option.splits)
  moreover have "case k ?g of
      Inr key \<Rightarrow> tls_key_load rd read_pem cfg = Inr (key, False)
    | Inl e \<Rightarrow> tls_key_load rd read_pem cfg =
        Inl (case pass of None \<Rightarrow> KeyEncryptedNoPassphrase (pc_tls_key cfg)
             | Some _ \<Rightarrow> KeyCannotDecrypt (pc_tls_key cfg) e)"
    using assms Asks by (cases pass) (simp_all add: tls_key_load_def split: sum.splits)
  ultimately show ?thesis using Asks by auto
next
  case (Plain r)
  then show ?thesis using assms by (simp add: tls_key_load_def split: sum.splits)
qed

end
