(* ===== verification/Logging.thy ===== *)
theory Logging
  imports Audit_Trail Config
begin

text \<open>
  Log output (\<^verbatim>\<open>src/proxy/src/logging.rs\<close>): how an event becomes one JSON line, and how the subscriber is
  put together.  The filter parser, the file appender and JSON printing are packages and parameters
  here; \<open>appender\<close> is what the proxy asks the appender for.
\<close>

section \<open>Events and lines\<close>

datatype json_value = JNull | JBool bool | JInt int | JFloat "64 word" | JString ustring

datatype field_value =
    FV_Str ustring
  | FV_Debug ustring
  | FV_I64 int
  | FV_U64 nat
  | FV_Bool bool
  | FV_F64 "64 word"

record event =
  lev_target :: ustring
  lev_level :: log_level
  lev_fields :: "(ustring \<times> field_value) list"

record system_record =
  sr_timestamp :: ustring
  sr_schema_version :: ustring
  sr_level :: ustring
  sr_logger :: ustring
  sr_kind :: ustring
  sr_message :: ustring
  sr_fields :: "ustring \<rightharpoonup> json_value"

definition system_record_new ::
  "ustring \<Rightarrow> log_level \<Rightarrow> ustring \<Rightarrow> ustring \<Rightarrow> (ustring \<rightharpoonup> json_value) \<Rightarrow> system_record" where
  "system_record_new ts level logger msg fs =
     \<lparr>sr_timestamp = ts, sr_schema_version = SCHEMA_VERSION, sr_level = level_str level, sr_logger = logger,
      sr_kind = str ''system'', sr_message = msg, sr_fields = fs\<rparr>"

text \<open>\<^verbatim>\<open>Fields\<close> and its visitor.\<close>

record fields =
  fl_audit :: bool
  fl_audit_record :: "ustring option"
  fl_message :: ustring
  fl_log_target :: "ustring option"
  fl_extra :: "ustring \<rightharpoonup> json_value"

definition fields_new :: "bool \<Rightarrow> fields" where
  "fields_new audit =
     \<lparr>fl_audit = audit, fl_audit_record = None, fl_message = [], fl_log_target = None, fl_extra = Map.empty\<rparr>"

definition fields_put :: "(json_value \<Rightarrow> ustring) \<Rightarrow> ustring \<Rightarrow> json_value \<Rightarrow> fields \<Rightarrow> fields" where
  "fields_put json_text name v f =
     (if name = str ''message'' then f\<lparr>fl_message := (case v of JString s \<Rightarrow> s | _ \<Rightarrow> json_text v)\<rparr>
      else if name \<in> {str ''log.module_path'', str ''log.file'', str ''log.line''} then f
      else f\<lparr>fl_extra := (fl_extra f)(name \<mapsto> v)\<rparr>)"

definition record_str :: "(json_value \<Rightarrow> ustring) \<Rightarrow> ustring \<Rightarrow> ustring \<Rightarrow> fields \<Rightarrow> fields" where
  "record_str json_text name s f =
     (if name = RECORD_FIELD \<and> fl_audit f then f\<lparr>fl_audit_record := Some s\<rparr>
      else if name = str ''log.target'' then f\<lparr>fl_log_target := Some s\<rparr>
      else fields_put json_text name (JString s) f)"

text \<open>\<open>from_f64\<close> is \<^verbatim>\<open>serde_json::Number::from_f64\<close>.\<close>

fun record_value ::
  "(json_value \<Rightarrow> ustring) \<Rightarrow> (64 word \<Rightarrow> json_value option) \<Rightarrow> ustring \<times> field_value \<Rightarrow> fields \<Rightarrow> fields" where
  "record_value json_text from_f64 (name, FV_Str s) f = record_str json_text name s f"
| "record_value json_text from_f64 (name, FV_Debug s) f = record_str json_text name s f"
| "record_value json_text from_f64 (name, FV_I64 i) f = fields_put json_text name (JInt i) f"
| "record_value json_text from_f64 (name, FV_U64 n) f = fields_put json_text name (JInt (int n)) f"
| "record_value json_text from_f64 (name, FV_Bool b) f = fields_put json_text name (JBool b) f"
| "record_value json_text from_f64 (name, FV_F64 x) f =
     fields_put json_text name (case from_f64 x of Some v \<Rightarrow> v | None \<Rightarrow> JNull) f"

definition collect_fields ::
  "(json_value \<Rightarrow> ustring) \<Rightarrow> (64 word \<Rightarrow> json_value option) \<Rightarrow> event \<Rightarrow> fields" where
  "collect_fields json_text from_f64 ev =
     fold (record_value json_text from_f64) (lev_fields ev) (fields_new (lev_target ev = AUDIT_TARGET))"

text \<open>\<^verbatim>\<open>JsonLines::format_event\<close>; \<open>Inl\<close> is a formatting error.\<close>

definition format_event ::
  "(json_value \<Rightarrow> ustring) \<Rightarrow> (64 word \<Rightarrow> json_value option) \<Rightarrow> (system_record \<Rightarrow> unit + ustring)
   \<Rightarrow> time_ops \<Rightarrow> int \<Rightarrow> event \<Rightarrow> unit + ustring" where
  "format_event json_text from_f64 to_json tm wall ev =
     (let f = collect_fields json_text from_f64 ev in
      case fl_audit_record f of
        Some line \<Rightarrow> Inr (line @ [10])
      | None \<Rightarrow>
          rbind (to_json (system_record_new (audit_timestamp tm wall) (lev_level ev)
              (case fl_log_target f of Some t \<Rightarrow> t | None \<Rightarrow> lev_target ev) (fl_message f) (fl_extra f)))
            (\<lambda>line. Inr (line @ [10])))"

text \<open>
  The \<^verbatim>\<open>tracing\<close> event that \<open>emit\<close> raises: the macros name the target and put the line into the record
  field; the error macro takes the module path, which is the same target, and only a message.
\<close>

fun event_of :: "log_event \<Rightarrow> event" where
  "event_of (Audit_Line level line) =
     \<lparr>lev_target = AUDIT_TARGET, lev_level = level, lev_fields = [(RECORD_FIELD, FV_Str line)]\<rparr>"
| "event_of (Serialize_Failed e) =
     \<lparr>lev_target = AUDIT_TARGET, lev_level = L_Error,
      lev_fields = [(str ''message'', FV_Debug (str ''cannot serialize audit record: '' @ e))]\<rparr>"

section \<open>Setting up\<close>

datatype rotation = Minutely | Hourly | Daily | Never

record appender =
  ap_dir :: ustring
  ap_prefix :: ustring
  ap_rotation :: rotation
  ap_max_files :: "nat option"

record 'f log_setup =
  ls_filter :: 'f
  ls_file :: "appender option"
  ls_stderr :: bool

text \<open>What is in force after \<^verbatim>\<open>init\<close>: the installed layers and the maximum level of the \<^verbatim>\<open>log\<close> facade, \<open>None\<close> being off.\<close>

record 'f logger =
  lg_setup :: "'f log_setup"
  lg_log_max :: "log_level option"

datatype logging_error =
    LogConfig config_error
  | BadEnvFilter ustring ustring
  | BadLevelFilter ustring ustring
  | CannotCreateDir ustring ustring
  | UnsupportedRotation ustring
  | CannotOpenLog ustring ustring
  | CannotInstall ustring

definition rotation_from_str :: "ustring \<Rightarrow> logging_error + rotation" where
  "rotation_from_str r =
     (if r = str ''minutely'' then Inr Minutely
      else if r = str ''hourly'' then Inr Hourly
      else if r = str ''daily'' then Inr Daily
      else if r = str ''never'' then Inr Never
      else Inl (UnsupportedRotation r))"

definition ENV_FILTER_VAR :: ustring where "ENV_FILTER_VAR = str ''RUST_LOG''"

definition build_filter ::
  "env_lookup \<Rightarrow> (ustring \<Rightarrow> ustring + 'f) \<Rightarrow> logging_config \<Rightarrow> logging_error + 'f" where
  "build_filter lookup try_new c =
     (case lookup ENV_FILTER_VAR of
        Inr var \<Rightarrow>
          if trim var \<noteq> [] then map_err (BadEnvFilter var) (try_new var)
          else map_err (BadLevelFilter (lc_level c)) (try_new (trim (lc_level c)))
      | Inl _ \<Rightarrow> map_err (BadLevelFilter (lc_level c)) (try_new (trim (lc_level c))))"

definition build_file_writer ::
  "(ustring \<Rightarrow> ustring + unit) \<Rightarrow> (appender \<Rightarrow> ustring + unit) \<Rightarrow> logging_config \<Rightarrow> logging_error + appender" where
  "build_file_writer create_dir_all open_appender c =
     (let dir = trim (lc_dir c) in
      rbind (map_err (CannotCreateDir dir) (create_dir_all dir)) (\<lambda>_.
      rbind (rotation_from_str (lc_rotation c)) (\<lambda>rot.
      let ap = \<lparr>ap_dir = dir, ap_prefix = trim (lc_file_prefix c), ap_rotation = rot,
                ap_max_files = (if lc_max_files c > 0 then Some (lc_max_files c) else None)\<rparr> in
      rbind (map_err (CannotOpenLog dir) (open_appender ap)) (\<lambda>_. Inr ap))))"

text \<open>\<^verbatim>\<open>sync_log_bridge_level\<close>: the level given to the \<^verbatim>\<open>log\<close> facade for the one tracing reports.\<close>

fun bridge_level :: "log_level option \<Rightarrow> log_level option" where
  "bridge_level (Some L_Error) = Some L_Error"
| "bridge_level (Some L_Warn) = Some L_Warn"
| "bridge_level (Some L_Info) = Some L_Info"
| "bridge_level (Some L_Debug) = Some L_Debug"
| "bridge_level (Some L_Trace) = Some L_Trace"
| "bridge_level None = None"

text \<open>
  \<^verbatim>\<open>init\<close>.  \<open>try_init\<close> installs the subscriber and yields what \<^verbatim>\<open>LevelFilter::current()\<close> reads from then on.
\<close>

definition logging_init ::
  "env_lookup \<Rightarrow> (ustring \<Rightarrow> ustring + 'f) \<Rightarrow> (ustring \<Rightarrow> ustring + unit) \<Rightarrow> (appender \<Rightarrow> ustring + unit)
   \<Rightarrow> ('f log_setup \<Rightarrow> ustring + log_level option) \<Rightarrow> logging_config \<Rightarrow> logging_error + 'f logger" where
  "logging_init lookup try_new create_dir_all open_appender try_init c =
     rbind (map_err LogConfig (logging_validate c)) (\<lambda>_.
     rbind (build_filter lookup try_new c) (\<lambda>flt.
     rbind (if file_enabled c then rbind (build_file_writer create_dir_all open_appender c) (\<lambda>ap. Inr (Some ap))
            else Inr None) (\<lambda>file.
     let setup = \<lparr>ls_filter = flt, ls_file = file, ls_stderr = lc_stderr c\<rparr> in
     rbind (map_err CannotInstall (try_init setup)) (\<lambda>current. Inr \<lparr>lg_setup = setup, lg_log_max = bridge_level current\<rparr>))))"

lemma bridge_level_id [simp]: "bridge_level l = l"
  by (cases l rule: bridge_level.cases) simp_all

section \<open>Only the audit module writes audit lines\<close>

lemma record_value_audit [simp]: "fl_audit (record_value jt ff nv f) = fl_audit f"
  by (cases "(jt, ff, nv, f)" rule: record_value.cases) (simp_all add: record_str_def fields_put_def)

lemma record_value_record:
  "fl_audit_record (record_value jt ff (name, v) f) =
     (case v of
        FV_Str s \<Rightarrow> if name = RECORD_FIELD \<and> fl_audit f then Some s else fl_audit_record f
      | FV_Debug s \<Rightarrow> if name = RECORD_FIELD \<and> fl_audit f then Some s else fl_audit_record f
      | _ \<Rightarrow> fl_audit_record f)"
  by (cases v) (simp_all add: record_str_def fields_put_def)

lemma collect_no_record:
  "\<not> fl_audit f \<Longrightarrow> fl_audit_record (fold (record_value jt ff) fs f) = fl_audit_record f"
  by (induction fs arbitrary: f) (auto simp: record_value_record split: field_value.splits)

lemma collect_none_named:
  "RECORD_FIELD \<notin> fst ` set fs \<Longrightarrow> fl_audit_record (fold (record_value jt ff) fs f) = fl_audit_record f"
  by (induction fs arbitrary: f) (auto simp: record_value_record split: field_value.splits)

lemma audit_line_verbatim: "format_event jt ff tj tm wall (event_of (Audit_Line lvl line)) = Inr (line @ [10])"
  by (simp add: format_event_def collect_fields_def fields_new_def record_str_def)

text \<open>
  C39. Only the audit module can write a verbatim line: an event on any other target, whatever its fields
  are called and contain, is written as a system record through the JSON printer, never verbatim; an
  event the audit module emits (its record in the record field, on its target) is written as exactly
  that record and a newline.
\<close>

theorem audit_lines_verbatim_only:
  "(lev_target ev \<noteq> AUDIT_TARGET \<longrightarrow>
      (\<exists>logger msg fs. format_event jt ff tj tm wall ev =
         rbind (tj (system_record_new (audit_timestamp tm wall) (lev_level ev) logger msg fs)) (\<lambda>l. Inr (l @ [10])))) \<and>
   format_event jt ff tj tm wall (event_of (Audit_Line lvl line)) = Inr (line @ [10])"
proof -
  have "fl_audit_record (collect_fields jt ff ev) = None" if "lev_target ev \<noteq> AUDIT_TARGET"
    using that collect_no_record [of "fields_new False" jt ff "lev_fields ev"]
    by (simp add: collect_fields_def fields_new_def)
  then have "lev_target ev \<noteq> AUDIT_TARGET \<longrightarrow>
      (\<exists>logger msg fs. format_event jt ff tj tm wall ev =
         rbind (tj (system_record_new (audit_timestamp tm wall) (lev_level ev) logger msg fs)) (\<lambda>l. Inr (l @ [10])))"
    by (auto simp: format_event_def Let_def)
  then show ?thesis using audit_line_verbatim by blast
qed

theorem audit_lines_verbatim_only_witness:
  "\<exists>logger msg fs. format_event (\<lambda>_. []) (\<lambda>_. None) (\<lambda>_. Inr (str ''{}'')) demo_time 0
      \<lparr>lev_target = str ''log'', lev_level = L_Info, lev_fields = [(RECORD_FIELD, FV_Str (str ''forged''))]\<rparr> =
    rbind (Inr (str ''{}'')) (\<lambda>l. Inr (l @ [10]))"
  using audit_lines_verbatim_only [of "\<lparr>lev_target = str ''log'', lev_level = L_Info,
      lev_fields = [(RECORD_FIELD, FV_Str (str ''forged''))]\<rparr>" "\<lambda>_. []" "\<lambda>_. None" "\<lambda>_. Inr (str ''{}'')" demo_time 0
      L_Info "[]"]
  by (simp add: AUDIT_TARGET_def)

section \<open>What a started logger is\<close>

lemma rotation_known: "r \<in> set LOG_ROTATIONS \<longleftrightarrow> is_ok (rotation_from_str r)"
  by (auto simp: LOG_ROTATIONS_def rotation_from_str_def)

text \<open>
  A started logger is what was asked for: the section passed its checks; a nonblank \<^verbatim>\<open>RUST_LOG\<close> is the
  filter as given and otherwise the trimmed level is; a file is opened exactly when a directory is
  set, under the trimmed names, and its retention is capped only when the setting is above zero, so
  zero keeps every file; the check of the rotation and its translation agree on what is known; and the
  \<^verbatim>\<open>log\<close> facade, through which pingora logs, lets pass exactly the levels the subscriber does.
\<close>

lemma logging_started:
  assumes "logging_init lookup try_new cd oa ti c = Inr lg" "setup = lg_setup lg"
  shows "logging_validate c = Inr () \<and>
    try_new (case lookup ENV_FILTER_VAR of
        Inr v \<Rightarrow> if trim v \<noteq> [] then v else trim (lc_level c) | Inl _ \<Rightarrow> trim (lc_level c)) = Inr (ls_filter setup) \<and>
    (case ls_file setup of
       None \<Rightarrow> trim (lc_dir c) = []
     | Some ap \<Rightarrow> trim (lc_dir c) \<noteq> [] \<and> ap_dir ap = trim (lc_dir c) \<and> ap_prefix ap = trim (lc_file_prefix c) \<and>
         ap_prefix ap \<noteq> [] \<and> rotation_from_str (lc_rotation c) = Inr (ap_rotation ap) \<and>
         ap_max_files ap \<noteq> Some 0 \<and> (ap_max_files ap = None \<longleftrightarrow> lc_max_files c = 0) \<and> oa ap = Inr ()) \<and>
    (\<forall>r. r \<in> set LOG_ROTATIONS \<longleftrightarrow> is_ok (rotation_from_str r)) \<and>
    ti setup = Inr (lg_log_max lg)"
proof -
  have v: "logging_validate c = Inr ()" using assms(1) by (auto simp: logging_init_def result_simps)
  then have p: "trim (lc_dir c) \<noteq> [] \<Longrightarrow> trim (lc_file_prefix c) \<noteq> []"
    by (auto simp: logging_validate_def result_simps file_enabled_def)
  have "\<forall>r. r \<in> set LOG_ROTATIONS \<longleftrightarrow> is_ok (rotation_from_str r)" by (simp add: rotation_known)
  with v p assms show ?thesis
    by (auto simp: logging_init_def build_filter_def build_file_writer_def result_simps file_enabled_def Let_def
        split: sum.splits if_splits)
qed

end
