(* ===== verification/Startup.thy ===== *)
theory Startup
  imports Proxy Tls_Key Logging
begin

text \<open>
  Startup (\<^verbatim>\<open>fn main\<close> of \<^verbatim>\<open>src/proxy/src/main.rs\<close>): every step in order, each with the error that stops the
  process, up to the listener that is handed to pingora.  Files, the environment, TOML, OpenSSL's
  acceptor and pingora's server are parameters (\<open>host_ops\<close>).  The log lines between the steps are not
  modelled.
\<close>

section \<open>Data\<close>

record args =
  ar_config :: ustring
  ar_insecure_upstream :: bool

text \<open>The listener's TLS settings as startup leaves them.\<close>

record 'x listener =
  li_address :: ustring
  li_records_identity :: bool
  li_verify_peer :: bool
  li_fail_if_no_cert :: bool
  li_ca_file :: "ustring option"
  li_client_cas :: "'x list"
  li_session_id_context :: ustring
  li_h2 :: bool

record ('sk, 'net, 'g, 'r, 'x, 'b, 's, 'k, 'f) host_ops =
  ho_read_string :: "ustring \<Rightarrow> ustring + ustring"
  ho_read_file :: "ustring \<Rightarrow> ustring + byte list"
  ho_env :: env_lookup
  ho_toml :: toml_ops
  ho_filter :: "ustring \<Rightarrow> ustring + 'f"
  ho_create_dir :: "ustring \<Rightarrow> ustring + unit"
  ho_open_log :: "appender \<Rightarrow> ustring + unit"
  ho_install_log :: "'f log_setup \<Rightarrow> ustring + log_level option"
  ho_sec1_pem :: "ustring \<Rightarrow> ustring + 'sk"
  ho_openssl :: "('x, 'b, 's) openssl_ops"
  ho_glob :: "'g glob_ops"
  ho_rate :: "'r rate_ops"
  ho_parse_net :: "ustring \<Rightarrow> ustring + 'net"
  ho_same_subject :: "'x \<Rightarrow> 'x \<Rightarrow> bool"
  ho_same_key :: "'x \<Rightarrow> 'x \<Rightarrow> bool"
  ho_server :: "ustring + unit"
  ho_read_key :: "byte list \<Rightarrow> 'k pem_read"
  ho_acceptor :: "bool \<Rightarrow> ustring + unit"
  ho_cert_file :: "ustring \<Rightarrow> ustring + unit"
  ho_set_key :: "'k \<Rightarrow> ustring + unit"
  ho_check_key :: "ustring + unit"
  ho_ca_file :: "ustring \<Rightarrow> ustring + unit"
  ho_add_client_ca :: "'x \<Rightarrow> ustring + unit"
  ho_session_ctx :: "ustring \<Rightarrow> ustring + unit"

datatype startup_error =
    S_Config load_error
  | S_Logging logging_error
  | S_ProxyConfig config_error
  | S_UpstreamTls upstream_error
  | S_AttestationKey key_error
  | S_RateLimiting rate_error
  | S_Mtls mtls_error
  | S_MachineIdentity machine_config_error
  | S_SharedCa
  | S_ProxyBypass bypass_error
  | S_Upstream upstream_parse_error
  | S_Server ustring
  | S_TlsKey tls_key_error
  | S_Acceptor bool ustring
  | S_TlsCert ustring ustring
  | S_KeyMismatch ustring ustring
  | S_ClientCaFile ustring ustring
  | S_ClientCaList ustring
  | S_SessionContext ustring

record ('sk, 'net, 'g, 'r, 'x, 's, 'f) server =
  sv_proxy :: "('g, 'net, 'x, 's) den_browser_proxy"
  sv_state :: "('sk, 'g, 'r) proxy_state"
  sv_listener :: "'x listener"
  sv_log :: "'f logger"

section \<open>Steps\<close>

text \<open>The check that the two client-identity CAs are distinct.\<close>

definition shares_ca ::
  "('sk, 'net, 'g, 'r, 'x, 'b, 's, 'k, 'f) host_ops \<Rightarrow> 'x mtls option \<Rightarrow> ('x, 'g, 's) machine_identity option \<Rightarrow> bool" where
  "shares_ca ho m mi =
     (case (m, mi) of
        (Some m', Some mi') \<Rightarrow>
          list_ex (\<lambda>user_ca. list_ex (\<lambda>machine_ca. ho_same_subject ho user_ca machine_ca \<and> ho_same_key ho user_ca machine_ca)
            (mi_ca_certs mi')) (mtls_ca_certs m')
      | _ \<Rightarrow> False)"

fun add_client_cas ::
  "('sk, 'net, 'g, 'r, 'x, 'b, 's, 'k, 'f) host_ops \<Rightarrow> 'x list \<Rightarrow> startup_error + unit" where
  "add_client_cas ho [] = Inr ()"
| "add_client_cas ho (ca # cas) =
     rbind (map_err S_ClientCaList (ho_add_client_ca ho ca)) (\<lambda>_. add_client_cas ho cas)"

text \<open>The TLS listener.\<close>

definition SESSION_ID_CONTEXT :: ustring where "SESSION_ID_CONTEXT = str ''denbrowser-proxy''"

definition build_listener ::
  "('sk, 'net, 'g, 'r, 'x, 'b, 's, 'k, 'f) host_ops \<Rightarrow> proxy_config \<Rightarrow> 'x mtls option \<Rightarrow> startup_error + 'x listener" where
  "build_listener ho cfg mtls =
     rbind (map_err S_TlsKey (tls_key_load (ho_read_file ho) (ho_read_key ho) cfg)) (\<lambda>(key, _).
     rbind (map_err (S_Acceptor (mtls \<noteq> None)) (ho_acceptor ho (mtls \<noteq> None))) (\<lambda>_.
     rbind (map_err (S_TlsCert (pc_tls_cert cfg)) (ho_cert_file ho (pc_tls_cert cfg))) (\<lambda>_.
     rbind (map_err (S_KeyMismatch (pc_tls_key cfg)) (rbind (ho_set_key ho key) (\<lambda>_. ho_check_key ho))) (\<lambda>_.
     let base = \<lparr>li_address = pc_listen cfg, li_records_identity = (mtls \<noteq> None), li_verify_peer = False,
       li_fail_if_no_cert = False, li_ca_file = None, li_client_cas = [], li_session_id_context = [], li_h2 = False\<rparr> in
     rbind (case mtls of
              None \<Rightarrow> Inr base
            | Some m \<Rightarrow>
                rbind (map_err (S_ClientCaFile (mtls_ca_path m)) (ho_ca_file ho (mtls_ca_path m))) (\<lambda>_.
                rbind (add_client_cas ho (mtls_ca_certs m)) (\<lambda>_.
                Inr (base\<lparr>li_ca_file := Some (mtls_ca_path m), li_client_cas := mtls_ca_certs m,
                     li_verify_peer := True, li_fail_if_no_cert := True\<rparr>)))) (\<lambda>li.
     rbind (map_err S_SessionContext (ho_session_ctx ho SESSION_ID_CONTEXT)) (\<lambda>_.
     Inr (li\<lparr>li_session_id_context := SESSION_ID_CONTEXT, li_h2 := True\<rparr>)))))))"

text \<open>\<^verbatim>\<open>main\<close>.\<close>

definition proxy_main ::
  "('sk, 'net, 'g, 'r, 'x, 'b, 's, 'k, 'f) host_ops \<Rightarrow> instant \<Rightarrow> args
   \<Rightarrow> startup_error + ('sk, 'net, 'g, 'r, 'x, 's, 'f) server" where
  "proxy_main ho now a =
     rbind (map_err S_Config (config_load (ho_toml ho) (ho_read_string ho) (ho_env ho) (ar_config a))) (\<lambda>cfg.
     rbind (map_err S_Logging (logging_init (ho_env ho) (ho_filter ho) (ho_create_dir ho) (ho_open_log ho)
              (ho_install_log ho) (cfg_logging cfg))) (\<lambda>log.
     rbind (map_err S_ProxyConfig (proxy_validate (cfg_proxy cfg))) (\<lambda>_.
     rbind (map_err S_UpstreamTls (upstream_tls_from_config (ho_read_file ho) (os_stack_from_pem (ho_openssl ho))
              (cfg_proxy cfg) (ar_insecure_upstream a))) (\<lambda>up.
     rbind (map_err S_AttestationKey (verifier_from_config (ho_read_string ho) (ho_sec1_pem ho) (cfg_attestation cfg))) (\<lambda>v.
     rbind (map_err S_RateLimiting (ratelimit_from_config (ho_rate ho) (ho_glob ho) now (cfg_rate_limiting cfg))) (\<lambda>limiter.
     rbind (map_err S_Mtls (mtls_from_config (ho_read_file ho) (os_stack_from_pem (ho_openssl ho)) (cfg_mtls cfg))) (\<lambda>mtls.
     rbind (map_err S_MachineIdentity (machine_from_config (ho_openssl ho) (ho_glob ho) (ho_read_file ho)
              (cfg_machine_identity cfg))) (\<lambda>machine.
     rbind (ensure (\<not> shares_ca ho mtls machine) S_SharedCa) (\<lambda>_.
     rbind (map_err S_ProxyBypass (bypass_from_config (ho_parse_net ho) (mtls \<noteq> None) (cfg_proxy_bypass cfg))) (\<lambda>bypass.
     rbind (map_err S_Upstream (den_browser_proxy_new v (pc_upstream (cfg_proxy cfg)) up limiter bypass machine)) (\<lambda>(px, st).
     rbind (map_err S_Server (ho_server ho)) (\<lambda>_.
     rbind (build_listener ho (cfg_proxy cfg) mtls) (\<lambda>li.
     Inr \<lparr>sv_proxy = px, sv_state = st, sv_listener = li, sv_log = log\<rparr>)))))))))))))"

section \<open>What a running proxy guarantees\<close>

lemma build_listener_ok:
  assumes "build_listener ho cfg mtls = Inr li"
  shows "li_address li = pc_listen cfg" and "li_records_identity li \<longleftrightarrow> mtls \<noteq> None"
    and "li_verify_peer li \<longleftrightarrow> mtls \<noteq> None" and "li_fail_if_no_cert li \<longleftrightarrow> mtls \<noteq> None"
    and "li_client_cas li = (case mtls of None \<Rightarrow> [] | Some m \<Rightarrow> mtls_ca_certs m)"
    and "li_ca_file li = map_option mtls_ca_path mtls"
    and "li_session_id_context li = SESSION_ID_CONTEXT" and "li_h2 li"
  using assms by (auto simp: build_listener_def Let_def result_simps split: option.splits)

lemma den_browser_proxy_new_ok:
  "den_browser_proxy_new v u up limiter bypass machine = Inr (px, st) \<Longrightarrow>
     px_bypass px = bypass \<and> px_machine px = machine \<and> px_upstream_tls px = up \<and>
     ps_limiter st = limiter \<and> ps_verifier st = v \<and> ps_dns st = Map.empty"
  by (auto simp: den_browser_proxy_new_def result_simps split: prod.splits)

lemma proxy_main_steps:
  assumes "proxy_main ho now a = Inr sv"
  obtains cfg up v limiter mtls machine bypass where
    "config_load (ho_toml ho) (ho_read_string ho) (ho_env ho) (ar_config a) = Inr cfg"
    "proxy_validate (cfg_proxy cfg) = Inr ()"
    "upstream_tls_from_config (ho_read_file ho) (os_stack_from_pem (ho_openssl ho)) (cfg_proxy cfg)
       (ar_insecure_upstream a) = Inr up"
    "verifier_from_config (ho_read_string ho) (ho_sec1_pem ho) (cfg_attestation cfg) = Inr v"
    "ratelimit_from_config (ho_rate ho) (ho_glob ho) now (cfg_rate_limiting cfg) = Inr limiter"
    "mtls_from_config (ho_read_file ho) (os_stack_from_pem (ho_openssl ho)) (cfg_mtls cfg) = Inr mtls"
    "machine_from_config (ho_openssl ho) (ho_glob ho) (ho_read_file ho) (cfg_machine_identity cfg) = Inr machine"
    "\<not> shares_ca ho mtls machine"
    "bypass_from_config (ho_parse_net ho) (mtls \<noteq> None) (cfg_proxy_bypass cfg) = Inr bypass"
    "den_browser_proxy_new v (pc_upstream (cfg_proxy cfg)) up limiter bypass machine = Inr (sv_proxy sv, sv_state sv)"
    "build_listener ho (cfg_proxy cfg) mtls = Inr (sv_listener sv)"
  using assms by (auto simp: proxy_main_def result_simps)

lemma shares_ca_iff:
  "shares_ca ho (Some m) (Some mi) \<longleftrightarrow>
     (\<exists>u \<in> set (mtls_ca_certs m). \<exists>c \<in> set (mi_ca_certs mi). ho_same_subject ho u c \<and> ho_same_key ho u c)"
  by (auto simp: shares_ca_def list_ex_iff)

text \<open>
  C18. What is guaranteed of a proxy that started.  Each optional layer is on exactly when the loaded
  configuration says so, never silently absent; the listener asks for a client certificate and fails
  the handshake without a valid one exactly when mTLS is on, advertises exactly the CAs it verifies
  against, and records the verified identity then; the bypass only exists with mTLS on; no certificate
  of the machine CA has subject and key of one of the user CA; and the upstream is verified unless the
  operator asked otherwise on the command line.
\<close>

theorem started_proxy:
  assumes "proxy_main ho now a = Inr sv"
  shows "\<exists>cfg. config_load (ho_toml ho) (ho_read_string ho) (ho_env ho) (ar_config a) = Inr cfg \<and>
    (ps_limiter (sv_state sv) \<noteq> None \<longleftrightarrow> rl_enabled (cfg_rate_limiting cfg)) \<and>
    (px_machine (sv_proxy sv) \<noteq> None \<longleftrightarrow> mic_enabled (cfg_machine_identity cfg)) \<and>
    (px_bypass (sv_proxy sv) \<noteq> None \<longleftrightarrow> pb_enabled (cfg_proxy_bypass cfg)) \<and>
    (li_verify_peer (sv_listener sv) \<longleftrightarrow> mtls_enabled (cfg_mtls cfg)) \<and>
    (li_fail_if_no_cert (sv_listener sv) \<longleftrightarrow> mtls_enabled (cfg_mtls cfg)) \<and>
    (li_records_identity (sv_listener sv) \<longleftrightarrow> mtls_enabled (cfg_mtls cfg)) \<and>
    (mtls_enabled (cfg_mtls cfg) \<longleftrightarrow> li_client_cas (sv_listener sv) \<noteq> []) \<and>
    (px_bypass (sv_proxy sv) \<noteq> None \<longrightarrow> li_verify_peer (sv_listener sv) \<and> li_fail_if_no_cert (sv_listener sv)) \<and>
    (\<forall>mi u c. px_machine (sv_proxy sv) = Some mi \<and> u \<in> set (li_client_cas (sv_listener sv)) \<and>
       c \<in> set (mi_ca_certs mi) \<longrightarrow> \<not> (ho_same_subject ho u c \<and> ho_same_key ho u c)) \<and>
    (ut_insecure (px_upstream_tls (sv_proxy sv)) \<longleftrightarrow> ar_insecure_upstream a)"
proof -
  obtain cfg up v limiter mtls machine bypass where s:
    "config_load (ho_toml ho) (ho_read_string ho) (ho_env ho) (ar_config a) = Inr cfg"
    "proxy_validate (cfg_proxy cfg) = Inr ()"
    "upstream_tls_from_config (ho_read_file ho) (os_stack_from_pem (ho_openssl ho)) (cfg_proxy cfg)
       (ar_insecure_upstream a) = Inr up"
    "verifier_from_config (ho_read_string ho) (ho_sec1_pem ho) (cfg_attestation cfg) = Inr v"
    "ratelimit_from_config (ho_rate ho) (ho_glob ho) now (cfg_rate_limiting cfg) = Inr limiter"
    "mtls_from_config (ho_read_file ho) (os_stack_from_pem (ho_openssl ho)) (cfg_mtls cfg) = Inr mtls"
    "machine_from_config (ho_openssl ho) (ho_glob ho) (ho_read_file ho) (cfg_machine_identity cfg) = Inr machine"
    "\<not> shares_ca ho mtls machine"
    "bypass_from_config (ho_parse_net ho) (mtls \<noteq> None) (cfg_proxy_bypass cfg) = Inr bypass"
    "den_browser_proxy_new v (pc_upstream (cfg_proxy cfg)) up limiter bypass machine = Inr (sv_proxy sv, sv_state sv)"
    "build_listener ho (cfg_proxy cfg) mtls = Inr (sv_listener sv)"
    using assms by (rule proxy_main_steps)
  note new = den_browser_proxy_new_ok [OF s(10)] and li = build_listener_ok [OF s(11)]
  have on: "limiter \<noteq> None \<longleftrightarrow> rl_enabled (cfg_rate_limiting cfg)"
    "mtls \<noteq> None \<longleftrightarrow> mtls_enabled (cfg_mtls cfg)"
    "machine \<noteq> None \<longleftrightarrow> mic_enabled (cfg_machine_identity cfg)"
    "bypass \<noteq> None \<longleftrightarrow> pb_enabled (cfg_proxy_bypass cfg)"
    by (rule ratelimit_feature.present_iff_enabled [OF s(5)] mtls_feature.present_iff_enabled [OF s(6)]
        machine_feature.present_iff_enabled [OF s(7)] bypass_feature.present_iff_enabled [OF s(9)])+
  have cas: "li_client_cas (sv_listener sv) \<noteq> [] \<longleftrightarrow> mtls \<noteq> None"
    using mtls_feature.built_valid [of "ho_read_file ho" "os_stack_from_pem (ho_openssl ho)" "cfg_mtls cfg"] s(6) li(5)
    by (cases mtls) auto
  have byp: "bypass \<noteq> None \<longrightarrow> mtls \<noteq> None"
    using bypass_feature.built_valid [of "ho_parse_net ho" "mtls \<noteq> None" "cfg_proxy_bypass cfg"] s(9)
    by (cases bypass) (auto simp: policy_of_def)
  have disjoint: "\<forall>mi u c. machine = Some mi \<and> u \<in> set (li_client_cas (sv_listener sv)) \<and> c \<in> set (mi_ca_certs mi) \<longrightarrow>
      \<not> (ho_same_subject ho u c \<and> ho_same_key ho u c)"
    using s(8) li(5) by (cases mtls) (auto simp: shares_ca_iff)
  have up: "ut_insecure up \<longleftrightarrow> ar_insecure_upstream a"
    using s(3) by (simp add: upstream_tls_from_config_eq)
  show ?thesis
    using s(1) new li on cas byp disjoint up by (intro exI [of _ cfg]) simp
qed

section \<open>An example\<close>

text \<open>A host on which mTLS, machine identity and the bypass are on and every file reads.\<close>

definition demo_config :: config where
  "demo_config =
     \<lparr>cfg_proxy = demo_proxy_config, cfg_attestation = \<lparr>att_private_key = str ''attest.pem''\<rparr>,
      cfg_rate_limiting = demo_limits, cfg_mtls = \<lparr>mtls_enabled = True, mtls_client_ca = str ''users.pem''\<rparr>,
      cfg_machine_identity = mic_default\<lparr>mic_machine_ca := str ''machines.pem''\<rparr>,
      cfg_proxy_bypass = ops_bypass, cfg_logging = lc_default\<rparr>"

definition demo_host :: "(unit, ip_addr, ustring, event_log, unit, unit, unit, unit, ustring) host_ops" where
  "demo_host =
     \<lparr>ho_read_string = (\<lambda>_. Inr []), ho_read_file = (\<lambda>_. Inr []), ho_env = (\<lambda>_. Inl NotPresent),
      ho_toml = \<lparr>toml_config = (\<lambda>_. Inr demo_config), toml_table = (\<lambda>_. Inr []), toml_try_into = (\<lambda>_. Inr demo_config)\<rparr>,
      ho_filter = Inr, ho_create_dir = (\<lambda>_. Inr ()), ho_open_log = (\<lambda>_. Inr ()), ho_install_log = (\<lambda>_. Inr (Some L_Info)),
      ho_sec1_pem = (\<lambda>_. Inr ()), ho_openssl = demo_openssl, ho_glob = literal_globs, ho_rate = event_log_ops,
      ho_parse_net = one_host, ho_same_subject = (\<lambda>_ _. True), ho_same_key = (\<lambda>_ _. False), ho_server = Inr (),
      ho_read_key = (\<lambda>_. Plain (Inr ())), ho_acceptor = (\<lambda>_. Inr ()), ho_cert_file = (\<lambda>_. Inr ()),
      ho_set_key = (\<lambda>_. Inr ()), ho_check_key = Inr (), ho_ca_file = (\<lambda>_. Inr ()),
      ho_add_client_ca = (\<lambda>_. Inr ()), ho_session_ctx = (\<lambda>_. Inr ())\<rparr>"

definition demo_args :: args where
  "demo_args = \<lparr>ar_config = str ''proxy.toml'', ar_insecure_upstream = False\<rparr>"

definition demo_mtls :: "unit mtls" where
  "demo_mtls = \<lparr>mtls_ca_path = str ''users.pem'', mtls_ca_certs = [()]\<rparr>"

lemma demo_steps:
  "config_load (ho_toml demo_host) (ho_read_string demo_host) (ho_env demo_host) (ar_config demo_args) = Inr demo_config"
  "logging_init (ho_env demo_host) (ho_filter demo_host) (ho_create_dir demo_host) (ho_open_log demo_host)
     (ho_install_log demo_host) (cfg_logging demo_config) =
   Inr \<lparr>lg_setup = \<lparr>ls_filter = trim (lc_level lc_default), ls_file = None, ls_stderr = True\<rparr>, lg_log_max = Some L_Info\<rparr>"
  "proxy_validate (cfg_proxy demo_config) = Inr ()"
  "is_ok (upstream_tls_from_config (ho_read_file demo_host) (os_stack_from_pem (ho_openssl demo_host))
     (cfg_proxy demo_config) (ar_insecure_upstream demo_args))"
  "is_ok (verifier_from_config (ho_read_string demo_host) (ho_sec1_pem demo_host) (cfg_attestation demo_config))"
  "ratelimit_from_config (ho_rate demo_host) (ho_glob demo_host) 0 (cfg_rate_limiting demo_config) = Inr (Some demo_limiter)"
  "mtls_from_config (ho_read_file demo_host) (os_stack_from_pem (ho_openssl demo_host)) (cfg_mtls demo_config) =
     Inr (Some demo_mtls)"
  "is_ok (machine_from_config (ho_openssl demo_host) (ho_glob demo_host) (ho_read_file demo_host)
     (cfg_machine_identity demo_config))"
  "is_ok (bypass_from_config (ho_parse_net demo_host) True (cfg_proxy_bypass demo_config))"
  "is_ok (den_browser_proxy_new v (pc_upstream (cfg_proxy demo_config)) up l b m)"
  "is_ok (build_listener demo_host (cfg_proxy demo_config) (Some demo_mtls))"
  "\<not> shares_ca demo_host m' mi'"
  "ho_server demo_host = Inr ()"
proof -
  have d: "trim (lc_dir lc_default) = []" by (simp add: lc_default_def trim_def trim_start_def trim_end_def)
  have p: "parse_upstream (str ''up:8443'') = Inr (str ''up'', 8443)"
    by (simp add: parse_upstream_def rsplit_once_def str_def parse_u16_def parse_int_def to_digit_def is_digit_def Let_def)
  show "config_load (ho_toml demo_host) (ho_read_string demo_host) (ho_env demo_host) (ar_config demo_args) = Inr demo_config"
    by (simp add: config_load_def config_parse_def demo_host_def expand_def)
  show "logging_init (ho_env demo_host) (ho_filter demo_host) (ho_create_dir demo_host) (ho_open_log demo_host)
      (ho_install_log demo_host) (cfg_logging demo_config) =
    Inr \<lparr>lg_setup = \<lparr>ls_filter = trim (lc_level lc_default), ls_file = None, ls_stderr = True\<rparr>, lg_log_max = Some L_Info\<rparr>"
    using d by (simp add: logging_init_def demo_host_def demo_config_def default_logging_valid build_filter_def file_enabled_def)
      (simp add: lc_default_def)
  show "proxy_validate (cfg_proxy demo_config) = Inr ()"
    by (simp add: proxy_validate_def demo_config_def demo_proxy_config_def trim_eq_Nil secret_is_empty_def)
      (simp add: str_def is_whitespace_def)
  show "is_ok (upstream_tls_from_config (ho_read_file demo_host) (os_stack_from_pem (ho_openssl demo_host))
      (cfg_proxy demo_config) (ar_insecure_upstream demo_args))"
    by (simp add: upstream_tls_from_config_def demo_host_def demo_openssl_def demo_config_def demo_proxy_config_def)
  show "is_ok (verifier_from_config (ho_read_string demo_host) (ho_sec1_pem demo_host) (cfg_attestation demo_config))"
    by (simp add: verifier_from_config_def verifier_from_pem_def demo_host_def demo_config_def)
  show "ratelimit_from_config (ho_rate demo_host) (ho_glob demo_host) 0 (cfg_rate_limiting demo_config) = Inr (Some demo_limiter)"
    using demo_limiter_built by (simp add: demo_host_def demo_config_def)
  show "mtls_from_config (ho_read_file demo_host) (os_stack_from_pem (ho_openssl demo_host)) (cfg_mtls demo_config) =
      Inr (Some demo_mtls)"
    by (simp add: mtls_from_config_def demo_host_def demo_openssl_def demo_config_def demo_mtls_def)
  show "is_ok (machine_from_config (ho_openssl demo_host) (ho_glob demo_host) (ho_read_file demo_host)
      (cfg_machine_identity demo_config))"
    by (simp add: machine_from_config_def demo_host_def demo_openssl_def demo_config_def mic_default_def)
  show "is_ok (bypass_from_config (ho_parse_net demo_host) True (cfg_proxy_bypass demo_config))"
    by (simp add: bypass_from_config_def demo_host_def demo_config_def)
  show "is_ok (den_browser_proxy_new v (pc_upstream (cfg_proxy demo_config)) up l b m)"
    using p by (simp add: den_browser_proxy_new_def demo_config_def demo_proxy_config_def)
  show "is_ok (build_listener demo_host (cfg_proxy demo_config) (Some demo_mtls))"
    by (simp add: build_listener_def tls_key_load_def passphrase_def demo_host_def demo_config_def demo_proxy_config_def
        demo_mtls_def secret_is_empty_def Let_def)
  show "\<not> shares_ca demo_host m' mi'"
    by (auto simp: shares_ca_def demo_host_def list_ex_iff split: option.splits)
  show "ho_server demo_host = Inr ()" by (simp add: demo_host_def)
qed

lemma demo_starts: "\<exists>sv. proxy_main demo_host 0 demo_args = Inr sv"
proof -
  obtain up v mi b where *:
    "upstream_tls_from_config (ho_read_file demo_host) (os_stack_from_pem (ho_openssl demo_host))
       (cfg_proxy demo_config) (ar_insecure_upstream demo_args) = Inr up"
    "verifier_from_config (ho_read_string demo_host) (ho_sec1_pem demo_host) (cfg_attestation demo_config) = Inr v"
    "machine_from_config (ho_openssl demo_host) (ho_glob demo_host) (ho_read_file demo_host)
       (cfg_machine_identity demo_config) = Inr mi"
    "bypass_from_config (ho_parse_net demo_host) True (cfg_proxy_bypass demo_config) = Inr b"
    using demo_steps(4,5,8,9) by (auto simp: is_ok_iff)
  obtain px st where new:
    "den_browser_proxy_new v (pc_upstream (cfg_proxy demo_config)) up (Some demo_limiter) b mi = Inr (px, st)"
    using demo_steps(10) [of v up "Some demo_limiter" b mi] by (auto simp: is_ok_iff)
  obtain li where li: "build_listener demo_host (cfg_proxy demo_config) (Some demo_mtls) = Inr li"
    using demo_steps(11) by (auto simp: is_ok_iff)
  show ?thesis
    by (simp add: proxy_main_def demo_steps(1,2,3,6,7,12,13) * new li)
qed

theorem started_proxy_witness:
  "\<exists>sv. proxy_main demo_host 0 demo_args = Inr sv \<and> px_bypass (sv_proxy sv) \<noteq> None \<and>
     li_verify_peer (sv_listener sv) \<and> px_machine (sv_proxy sv) \<noteq> None"
proof -
  obtain sv where sv: "proxy_main demo_host 0 demo_args = Inr sv" using demo_starts by blast
  from started_proxy [OF sv] sv demo_steps(1) show ?thesis
    by (auto simp: demo_config_def mic_default_def)
qed

end
