(* ===== verification/Proxy_Refinement.thy ===== *)
theory Proxy_Refinement
  imports Proxy
begin

text \<open>
  The request path of \<open>Proxy\<close> against the transition system of \<open>Attest_Replay\<close>: whatever one run of
  \<^verbatim>\<open>request_filter\<close> does to the shared verifier, other requests in between included, is a sequence of
  steps of that system, and a request that is forwarded is the latest entry of its log of honoured
  tokens.  So what holds of every reachable verifier holds of the verifier behind the proxy; in
  particular a request whose token has been honoured is not forwarded again.
\<close>

section \<open>The relation\<close>

text \<open>
  A proxy state and a state of the transition system agree when they hold the same verifier; \<open>now\<close> is a
  monotonic instant the system has not passed.
\<close>

definition simulates :: "instant \<Rightarrow> ('sk, 'g, 'r) proxy_state \<Rightarrow> 'sk shared \<Rightarrow> bool" where
  "simulates now st s \<longleftrightarrow> ps_verifier st = sh_verifier s \<and> sh_mono s \<le> now"

text \<open>
  What other requests may do between two critical sections of this one: anything the transition
  system can do up to this request's commit, except taking this request's pending token.
\<close>

definition others_are_requests ::
  "('sk, 'pk, 'x) crypto_scheme \<Rightarrow> instant \<Rightarrow> (nat \<Rightarrow> ('sk, 'g, 'r) proxy_state \<Rightarrow> ('sk, 'g, 'r) proxy_state) \<Rightarrow> bool" where
  "others_are_requests K now others \<longleftrightarrow>
     (\<forall>k st s. simulates now st s \<longrightarrow>
        (\<exists>s'. (verifier_step K)\<^sup>*\<^sup>* s s' \<and> simulates now (others k st) s' \<and>
           set (sh_pending s) \<subseteq> set (sh_pending s')))"

lemma alone_is_requests: "others_are_requests K now alone"
  by (auto simp: others_are_requests_def)

lemma others_step:
  assumes "others_are_requests K now others" "simulates now st s"
  obtains s' where "(verifier_step K)\<^sup>*\<^sup>* s s'" "simulates now (others k st) s'" "set (sh_pending s) \<subseteq> set (sh_pending s')"
  using assms unfolding others_are_requests_def by blast

text \<open>Other requests that honour no token with the nonce of this one.\<close>

abbreviation honoured :: "'sk shared \<Rightarrow> nonce set" where
  "honoured s \<equiv> (\<lambda>e. p1_nonce (ce_p1 e)) ` set (sh_log s)"

definition others_spare ::
  "('sk, 'pk, 'x) crypto_scheme \<Rightarrow> instant \<Rightarrow> nonce \<Rightarrow> (nat \<Rightarrow> ('sk, 'g, 'r) proxy_state \<Rightarrow> ('sk, 'g, 'r) proxy_state) \<Rightarrow> bool" where
  "others_spare K now n others \<longleftrightarrow>
     (\<forall>k st s. simulates now st s \<and> n \<notin> honoured s \<longrightarrow>
        (\<exists>s'. (verifier_step K)\<^sup>*\<^sup>* s s' \<and> simulates now (others k st) s' \<and> n \<notin> honoured s'))"

lemma alone_spares: "others_spare K now n alone"
  by (auto simp: others_spare_def)

section \<open>The critical sections\<close>

lemma steps_reachable: "(verifier_step K)\<^sup>*\<^sup>* s t \<Longrightarrow> verifier_reachable K sk s \<Longrightarrow> verifier_reachable K sk t"
  by (induction rule: rtranclp_induct) (auto intro: verifier_reachable.step)

text \<open>A proxy state behind which is a reachable verifier that has not honoured the nonce \<open>n\<close>.\<close>

definition spared :: "('sk, 'pk, 'x) crypto_scheme \<Rightarrow> 'sk \<Rightarrow> instant \<Rightarrow> nonce \<Rightarrow> ('sk, 'g, 'r) proxy_state \<Rightarrow> bool" where
  "spared K sk now n st \<longleftrightarrow> (\<exists>s. verifier_reachable K sk s \<and> simulates now st s \<and> n \<notin> honoured s)"

lemma spared_others: "others_spare K now n others \<Longrightarrow> spared K sk now n st \<Longrightarrow> spared K sk now n (others k st)"
  unfolding spared_def others_spare_def by (metis steps_reachable)

lemma spared_verifier: "spared K sk now n st \<Longrightarrow> ps_verifier st' = ps_verifier st \<Longrightarrow> spared K sk now n st'"
  by (simp add: spared_def simulates_def)

text \<open>Phase one of a request is a step that leaves its token pending.\<close>

lemma head_refines:
  assumes "simulates now st s" "verify_headers K wall (ps_verifier st) i = Inr p1"
    and "\<forall>c \<in> set (in_nonce_b64 i). is_ascii c"
  obtains s' where "verifier_step K s s'" "simulates now st s'" "(i, p1) \<in> set (sh_pending s')"
proof -
  let ?s = "s\<lparr>sh_pending := (i, p1) # sh_pending s\<rparr>"
  have "verifier_step K s ?s"
    using assms by (intro verifier_step.Head [of i K wall]) (simp_all add: simulates_def)
  from that [OF this] assms(1) show thesis by (simp add: simulates_def)
qed

text \<open>The clock is read inside the critical section of the commit.\<close>

lemma commit_refines:
  assumes "simulates now st s" "(i, p1) \<in> set (sh_pending s)"
    and "verify_body_and_commit wall now p1 h (ps_verifier st) = (r, v)"
  obtains s' where "(verifier_step K)\<^sup>*\<^sup>* s s'" "sh_verifier s' = v" "sh_mono s' = now"
    "r = Inr () \<Longrightarrow> sh_log s' = \<lparr>ce_inputs = i, ce_p1 = p1, ce_wall = wall, ce_mono = now\<rparr> # sh_log s"
proof -
  let ?t = "s\<lparr>sh_mono := now\<rparr>"
  have tick: "verifier_step K s ?t" using assms(1) by (intro verifier_step.Tick) (simp add: simulates_def)
  have pend: "(i, p1) \<in> set (sh_pending ?t)" using assms(2) by simp
  have run: "verify_body_and_commit wall (sh_mono ?t) p1 h (sh_verifier ?t) = (r, v)"
    using assms(1,3) by (simp add: simulates_def)
  have two: "(verifier_step K)\<^sup>*\<^sup>* s u" if "verifier_step K ?t u" for u
    using tick that by (meson rtranclp.rtrancl_refl rtranclp.rtrancl_into_rtrancl)
  show thesis
  proof (cases r)
    case (Inl e)
    from two [OF verifier_step.Commit_err [OF pend run [unfolded Inl]]] show thesis
      by (rule that) (simp_all add: Inl)
  next
    case (Inr u)
    then have ok: "r = Inr ()" by simp
    from two [OF verifier_step.Commit_ok [OF pend run [unfolded ok]]] show thesis
      by (rule that) simp_all
  qed
qed

text \<open>\<^verbatim>\<open>HeaderValue::to_str\<close> gives visible ASCII only.\<close>

definition ascii_values :: "(byte list \<Rightarrow> ustring option) \<Rightarrow> bool" where
  "ascii_values to_str \<longleftrightarrow> (\<forall>b s. to_str b = Some s \<longrightarrow> (\<forall>c \<in> set s. is_ascii c))"

lemma inputs_ascii: "ascii_values to_str \<Longrightarrow> inputs_of to_str req i \<Longrightarrow> \<forall>c \<in> set (in_nonce_b64 i). is_ascii c"
  by (auto simp: ascii_values_def inputs_of_def header_str_def bind_eq_Some_conv)

lemma body_phase_refines:
  assumes "simulates (mo_commit mo) st s" "(i, p1) \<in> set (sh_pending s)"
    and "body_phase d mo se p1 ra st = (v, ra', st')"
  obtains s' where "(verifier_step K)\<^sup>*\<^sup>* s s'" "simulates (mo_commit mo) st' s'"
    "v = Pass \<Longrightarrow> sh_log s' = \<lparr>ce_inputs = i, ce_p1 = p1, ce_wall = mo_commit_wall mo, ce_mono = mo_commit mo\<rparr> # sh_log s"
proof -
  have step: "ps_verifier st' = w \<and> (v = Pass \<longrightarrow> r = Inr ())" if "commit_step (r, w) ra st = (v, ra', st')" for r w
    using that by (cases r) (auto simp: commit_step_def)
  have "(\<exists>h r w. verify_body_and_commit (mo_commit_wall mo) (mo_commit mo) p1 h (ps_verifier st) = (r, w) \<and>
      ps_verifier st' = w \<and> (v = Pass \<longrightarrow> r = Inr ())) \<or> st' = st \<and> v \<noteq> Pass"
  proof (cases "p1_body_binding p1")
    case (Hash h)
    show ?thesis
    proof (cases "read_body 0 [] (se_body se) (se_body_error se)")
      case (Body content)
      obtain r w where c: "verify_body_and_commit (mo_commit_wall mo) (mo_commit mo) p1 (sha256 (d_crypto d) content)
          (ps_verifier st) = (r, w)"
        by fastforce
      with assms(3) Hash Body have "commit_step (r, w) ra st = (v, ra', st')" by (simp add: body_phase_def)
      with step c show ?thesis by blast
    qed (use assms(3) Hash in \<open>auto simp: body_phase_def\<close>)
  next
    case Unbound
    obtain r w where c: "commit_nonce (mo_commit_wall mo) (mo_commit mo) p1 (ps_verifier st) = (r, w)" by fastforce
    with assms(3) Unbound have "commit_step (r, w) ra st = (v, ra', st')" by (simp add: body_phase_def)
    moreover have "verify_body_and_commit (mo_commit_wall mo) (mo_commit mo) p1 [] (ps_verifier st) = (r, w)"
      using c Unbound by (simp add: verify_body_and_commit_def)
    ultimately show ?thesis using step by blast
  qed
  then consider h r w where "verify_body_and_commit (mo_commit_wall mo) (mo_commit mo) p1 h (ps_verifier st) = (r, w)"
      "ps_verifier st' = w" "v = Pass \<longrightarrow> r = Inr ()" | "st' = st" "v \<noteq> Pass"
    by blast
  then show thesis
  proof cases
    case 1
    from commit_refines [OF assms(1,2) 1(1), of K] obtain s' where
      "(verifier_step K)\<^sup>*\<^sup>* s s'" "sh_verifier s' = w" "sh_mono s' = mo_commit mo"
      "r = Inr () \<Longrightarrow> sh_log s' = \<lparr>ce_inputs = i, ce_p1 = p1, ce_wall = mo_commit_wall mo, ce_mono = mo_commit mo\<rparr> # sh_log s"
      by blast
    with 1 that show thesis by (simp add: simulates_def)
  next
    case 2
    with that [of s] assms(1) show thesis by simp
  qed
qed

lemma machine_phase_verifier:
  "machine_phase d mo px oth present ip ra st = Inl (v, ra', st') \<Longrightarrow>
     v \<noteq> Pass \<and> ps_verifier st' \<in> {ps_verifier st, ps_verifier (oth st)}"
  "machine_phase d mo px oth present ip ra st = Inr (ra', st') \<Longrightarrow>
     ps_verifier st' \<in> {ps_verifier st, ps_verifier (oth st)}"
  by (auto simp: machine_phase_def Let_def case_prod_beta split: option.splits if_splits sum.splits)

lemma early_exit:
  "header_phase d req ra st = Inl (v, ra', st') \<Longrightarrow> v \<noteq> Pass \<and> st' = st"
  "preflight px present ra st = Inl (v, ra', st') \<Longrightarrow> v \<noteq> Pass \<and> st' = st"
  "phase_one_step d mo i ra st = Inl (v, ra', st') \<Longrightarrow> v \<noteq> Pass \<and> st' = st"
  by (auto simp: header_phase_def preflight_def phase_one_step_def Let_def split: option.splits if_splits sum.splits)

lemma simulates_verifier: "simulates now st s \<Longrightarrow> ps_verifier st' = ps_verifier st \<Longrightarrow> simulates now st' s"
  by (simp add: simulates_def)

section \<open>The whole path\<close>

text \<open>What one request does to the shared verifier, as seen from a state \<open>s\<close> of the transition system.\<close>

definition refines_to ::
  "('sk, 'pk, 'x) crypto_scheme \<Rightarrow> moments \<Rightarrow> (byte list \<Rightarrow> ustring option) \<Rightarrow> session \<Rightarrow> 'sk shared
   \<Rightarrow> ('sk, 'g, 'r) filter_exit \<Rightarrow> bool" where
  "refines_to K mo to_str se s x \<longleftrightarrow>
     (case x of (v, ra', st') \<Rightarrow>
        \<exists>s'. (verifier_step K)\<^sup>*\<^sup>* s s' \<and> simulates (mo_commit mo) st' s' \<and>
          (v = Pass \<longrightarrow> (\<exists>i p1 s1. inputs_of to_str (se_request se) i \<and> (verifier_step K)\<^sup>*\<^sup>* s s1 \<and>
             sh_log s' = \<lparr>ce_inputs = i, ce_p1 = p1, ce_wall = mo_commit_wall mo, ce_mono = mo_commit mo\<rparr>
               # sh_log s1)))"

lemma refines_refused:
  "(verifier_step K)\<^sup>*\<^sup>* s s' \<Longrightarrow> simulates (mo_commit mo) st' s' \<Longrightarrow> v \<noteq> Pass \<Longrightarrow> refines_to K mo to_str se s (v, ra', st')"
  by (auto simp: refines_to_def)

text \<open>The part of the request path after phase one.\<close>

abbreviation late_path where
  "late_path d mo px others se p1 ra st \<equiv>
     rbind (machine_phase d mo px (others (3::nat)) (contains_key (rq_headers (se_request se)) MACHINE_CERT_HEADER)
       (client_ip se) ra (others 2 st)) (\<lambda>(ra', st'). Inr (body_phase d mo se p1 ra' (others 4 st')))"

lemma attested_path_cases:
  assumes "attested_path d mo px others se ra st = Inl x \<or> attested_path d mo px others se ra st = Inr x"
  obtains (early) "fst x \<noteq> Pass" "snd (snd x) \<in> {st, others 1 st}"
    | (late) i p1 ra2 where "inputs_of (d_to_str d) (se_request se) i"
        "verify_headers (d_crypto d) (mo_head mo) (ps_verifier (others 1 st)) i = Inr p1"
        "late_path d mo px others se p1 ra2 (others 1 st) = Inl x \<or> late_path d mo px others se p1 ra2 (others 1 st) = Inr x"
proof -
  let ?present = "contains_key (rq_headers (se_request se)) MACHINE_CERT_HEADER"
  obtain v ra' st' where x: "x = (v, ra', st')" by (cases x)
  consider "header_phase d (se_request se) ra st = Inl x" | "preflight px ?present ra st = Inl x"
    | i ra1 where "phase_one_step d mo i ra1 (others 1 st) = Inl x"
    | i ra1 p1 ra2 where "header_phase d (se_request se) ra st = Inr i"
        "phase_one_step d mo i ra1 (others 1 st) = Inr (p1, ra2)"
        "late_path d mo px others se p1 ra2 (others 1 st) = Inl x \<or> late_path d mo px others se p1 ra2 (others 1 st) = Inr x"
    using assms by (auto simp: attested_path_def Let_def result_simps)
  then show thesis
  proof cases
    case 4
    have "inputs_of (d_to_str d) (se_request se) i" using 4(1) by (simp add: header_phase_ok)
    moreover have "verify_headers (d_crypto d) (mo_head mo) (ps_verifier (others 1 st)) i = Inr p1"
      using 4(2) by (auto simp: phase_one_step_def split: sum.splits)
    ultimately show thesis using 4(3) by (rule late)
  qed (auto simp: x intro!: early dest: early_exit)
qed

lemma late_path_refines:
  assumes "others_are_requests (d_crypto d) (mo_commit mo) others" "inputs_of (d_to_str d) (se_request se) i"
    and "simulates (mo_commit mo) st s" "(i, p1) \<in> set (sh_pending s)"
    and "late_path d mo px others se p1 ra st = Inl x \<or> late_path d mo px others se p1 ra st = Inr x"
  shows "refines_to (d_crypto d) mo (d_to_str d) se s x"
proof -
  let ?K = "d_crypto d" and ?n = "mo_commit mo"
  let ?present = "contains_key (rq_headers (se_request se)) MACHINE_CERT_HEADER"
  let ?m = "machine_phase d mo px (others 3) ?present (client_ip se) ra (others 2 st)"
  obtain s2 where s2: "(verifier_step ?K)\<^sup>*\<^sup>* s s2" "simulates ?n (others 2 st) s2" "set (sh_pending s) \<subseteq> set (sh_pending s2)"
    using others_step [OF assms(1,3)] by blast
  obtain s3 where s3: "(verifier_step ?K)\<^sup>*\<^sup>* s2 s3" "simulates ?n (others 3 (others 2 st)) s3"
    "set (sh_pending s2) \<subseteq> set (sh_pending s3)"
    using others_step [OF assms(1) s2(2)] by blast
  have after: "\<exists>t. (verifier_step ?K)\<^sup>*\<^sup>* s t \<and> simulates ?n st3 t \<and> set (sh_pending s) \<subseteq> set (sh_pending t)"
    if "ps_verifier st3 \<in> {ps_verifier (others 2 st), ps_verifier (others 3 (others 2 st))}" for st3
    using that s2 s3 rtranclp_trans [OF s2(1) s3(1)] by (auto intro: simulates_verifier)
  show ?thesis
  proof (cases ?m)
    case (Inl y)
    obtain v ra' st' where x: "x = (v, ra', st')" by (cases x)
    have "?m = Inl (v, ra', st')" using Inl assms(5) x by auto
    from machine_phase_verifier(1) [OF this] after [of st'] show ?thesis by (auto simp: x intro: refines_refused)
  next
    case (Inr q)
    obtain ra3 st3 where q: "q = (ra3, st3)" by (cases q)
    obtain v ra' st' where b: "body_phase d mo se p1 ra3 (others 4 st3) = (v, ra', st')" and x: "x = (v, ra', st')"
      using Inr q assms(5) by (cases x) auto
    obtain t where t: "(verifier_step ?K)\<^sup>*\<^sup>* s t" "simulates ?n st3 t" "set (sh_pending s) \<subseteq> set (sh_pending t)"
      using machine_phase_verifier(2) [of d mo px "others 3"] Inr q after [of st3] by blast
    obtain s4 where s4: "(verifier_step ?K)\<^sup>*\<^sup>* t s4" "simulates ?n (others 4 st3) s4" "set (sh_pending t) \<subseteq> set (sh_pending s4)"
      using others_step [OF assms(1) t(2)] by blast
    have pend: "(i, p1) \<in> set (sh_pending s4)" using assms(4) t(3) s4(3) by blast
    have st4: "(verifier_step ?K)\<^sup>*\<^sup>* s s4" using t(1) s4(1) by (rule rtranclp_trans)
    obtain s5 where s5: "(verifier_step ?K)\<^sup>*\<^sup>* s4 s5" "simulates ?n st' s5"
      "v = Pass \<Longrightarrow> sh_log s5 = \<lparr>ce_inputs = i, ce_p1 = p1, ce_wall = mo_commit_wall mo, ce_mono = ?n\<rparr> # sh_log s4"
      using body_phase_refines [OF s4(2) pend b, of ?K] by blast
    show ?thesis
      using s5 st4 rtranclp_trans [OF st4 s5(1)] assms(2) unfolding x refines_to_def by blast
  qed
qed

lemma refines_to_earlier:
  "(verifier_step K)\<^sup>*\<^sup>* s t \<Longrightarrow> refines_to K mo to_str se t x \<Longrightarrow> refines_to K mo to_str se s x"
proof -
  assume st: "(verifier_step K)\<^sup>*\<^sup>* s t" and r: "refines_to K mo to_str se t x"
  have "(verifier_step K)\<^sup>*\<^sup>* s u" if "(verifier_step K)\<^sup>*\<^sup>* t u" for u using st that by (rule rtranclp_trans)
  with r show ?thesis unfolding refines_to_def by (auto split: prod.splits) metis
qed

lemma attested_path_refines:
  assumes "others_are_requests (d_crypto d) (mo_commit mo) others" "ascii_values (d_to_str d)"
    and "simulates (mo_commit mo) st s"
    and "attested_path d mo px others se ra st = Inl x \<or> attested_path d mo px others se ra st = Inr x"
  shows "refines_to (d_crypto d) mo (d_to_str d) se s x"
proof -
  let ?K = "d_crypto d" and ?n = "mo_commit mo"
  obtain s1 where s1: "(verifier_step ?K)\<^sup>*\<^sup>* s s1" "simulates ?n (others 1 st) s1"
    using others_step [OF assms(1,3)] by blast
  from assms(4) show ?thesis
  proof (cases rule: attested_path_cases)
    case early
    then show ?thesis
      using assms(3) s1 refines_refused [of ?K s _ mo "snd (snd x)" "fst x"] by (cases x) auto
  next
    case (late i p1 ra2)
    obtain s2 where s2: "verifier_step ?K s1 s2" "simulates ?n (others 1 st) s2"
      "(i, p1) \<in> set (sh_pending s2)"
      using head_refines [OF s1(2) late(2)] inputs_ascii [OF assms(2) late(1)] by blast
    have "(verifier_step ?K)\<^sup>*\<^sup>* s s2" using s1(1) s2(1) by (rule rtranclp.rtrancl_into_rtrancl)
    then show ?thesis
      using late_path_refines [OF assms(1) late(1) s2(2,3) late(3)] by (rule refines_to_earlier)
  qed
qed


lemma request_filter_refines:
  assumes "calendar_range (d_time d)" "ascii_values (d_to_str d)"
    and "others_are_requests (d_crypto d) (mo_commit mo) others" "simulates (mo_commit mo) st s"
    and "request_filter d mo px others se (proxy_new_ctx now px) st = (v, ra', st')"
  shows "\<exists>s'. (verifier_step (d_crypto d))\<^sup>*\<^sup>* s s' \<and> simulates (mo_commit mo) st' s' \<and>
    (ra_action ra' = Some Act_Forward \<longrightarrow>
       (\<exists>i p1 s1. inputs_of (d_to_str d) (se_request se) i \<and> (verifier_step (d_crypto d))\<^sup>*\<^sup>* s s1 \<and>
          sh_log s' = \<lparr>ce_inputs = i, ce_p1 = p1, ce_wall = mo_commit_wall mo, ce_mono = mo_commit mo\<rparr>
            # sh_log s1))"
proof -
  let ?ra = "record_head d (se_request se) (ra_new now (px_machine px \<noteq> None))"
  let ?K = "d_crypto d" and ?n = "mo_commit mo"
  have f: "request_filter d mo px others se (ra_new now (px_machine px \<noteq> None)) st = (v, ra', st')"
    using assms(5) by (simp add: proxy_new_ctx_def)
  have "decided v ra'" using request_filter_decided [OF assms(1) fresh_undecided f] .
  then have passed: "v = Pass" if "ra_action ra' = Some Act_Forward"
    using that by (cases v) (auto simp: decided_def split: option.splits if_splits)
  obtain s0 where s0: "(verifier_step ?K)\<^sup>*\<^sup>* s s0" "simulates ?n (others 0 st) s0"
    using others_step [OF assms(3,4)] by blast
  have quiet: ?thesis if "ps_verifier st' = ps_verifier (others 0 st)" "ra_action ra' \<noteq> Some Act_Forward"
    using that s0 simulates_verifier [OF s0(2) that(1)] by blast
  show ?thesis
  proof (cases "rate_phase d mo (client_ip se) (se_request se) ?ra (others 0 st)")
    case (Inl x)
    then have "rate_phase d mo (client_ip se) (se_request se) ?ra (others 0 st) = Inl (v, ra', st')"
      using f by (simp add: request_filter_def Let_def)
    then have "ps_verifier st' = ps_verifier (others 0 st)" "ra_action ra' \<noteq> Some Act_Forward"
      by (auto simp: rate_phase_def case_prod_beta Let_def ra_reject_def split: option.splits if_splits)
    then show ?thesis by (rule quiet)
  next
    case rate: (Inr st1)
    have st1: "ps_verifier st1 = ps_verifier (others 0 st)" using rate_phase_ok [OF rate] by simp
    show ?thesis
    proof (cases "bypass_phase d px (client_ip se) (session_client_cert se) ?ra st1")
      case (Inl x)
      then have "bypass_phase d px (client_ip se) (session_client_cert se) ?ra st1 = Inl (v, ra', st')"
        using f rate by (simp add: request_filter_def Let_def)
      from bypass_phase_Pass [OF this] st1 show ?thesis by (intro quiet) (auto simp: ra_bypass_def)
    next
      case (Inr y)
      with rate f have "attested_path d mo px others se ?ra st1 = Inl (v, ra', st') \<or>
          attested_path d mo px others se ?ra st1 = Inr (v, ra', st')"
        by (auto simp: request_filter_def Let_def split: sum.splits)
      from refines_to_earlier [OF s0(1) attested_path_refines [OF assms(3,2) simulates_verifier [OF s0(2) st1] this]]
      show ?thesis
        using passed unfolding refines_to_def prod.case by blast
    qed
  qed
qed



section \<open>No replay through the proxy\<close>

lemma step_log_suffix: "verifier_step K s t \<Longrightarrow> \<exists>es. sh_log t = es @ sh_log s"
  by (erule verifier_stepE) auto

lemma steps_log_suffix: "(verifier_step K)\<^sup>*\<^sup>* s t \<Longrightarrow> \<exists>es. sh_log t = es @ sh_log s"
proof (induction rule: rtranclp_induct)
  case (step t u)
  then show ?case using step_log_suffix [OF step(2)] by auto
qed simp

lemma inputs_of_unique: "inputs_of to_str req i \<Longrightarrow> inputs_of to_str req j \<Longrightarrow> i = j"
  by (auto simp: inputs_of_def)


section \<open>An example\<close>

lemma demo_ascii: "ascii_values (d_to_str demo_deps)"
  by (auto simp: ascii_values_def demo_deps_def demo_to_str_def list_all_iff word_less_nat_alt split: if_splits)

lemma demo_simulates: "simulates (mo_commit demo_moments) demo_state (shared_init ())"
  by (simp add: simulates_def demo_state_def shared_init_def)



end
