(* ===== verification/Browser_Attest.thy ===== *)
theory Browser_Attest
  imports Attest
begin

text \<open>
  The browser's half of attestation: \<^verbatim>\<open>netwerk/base/DenBrowserAttest.cpp\<close> as the patches
  \<^verbatim>\<open>src/patches/006-attest-requests.patch\<close>, \<^verbatim>\<open>012-pin-proxy-tls.patch\<close> and
  \<^verbatim>\<open>024-windows-machine-certificate-header.patch\<close> write it: the build-time proxy table and its lookup, the
  cached public keys, hashing of the body, minting of the three headers (\<open>AddAttestHeaders\<close>), the
  TLS pin (\<open>VerifyProxyPin\<close>) and the workstation certificate taken from the Windows stores.

  Firefox, NSS and Windows are not in the repository.  What the code calls of them is the records
  \<open>nss_ops\<close>, \<open>head_ops\<close>, \<open>pin_ops\<close> and \<open>win_ops\<close>; what one request draws from the clock and the random
  generators is \<open>draws\<close>.  An \<^verbatim>\<open>nsACString\<close> is a list of bytes.
\<close>

section \<open>Strings\<close>

definition bytes :: "string \<Rightarrow> byte list" where
  "bytes s = utf8 (str s)"

definition byte_lower :: "byte \<Rightarrow> byte" where
  "byte_lower b = of_nat (to_ascii_lower (unat b))"

text \<open>\<^verbatim>\<open>nsCaseInsensitiveCStringComparator\<close>.\<close>

definition same_ignoring_case :: "byte list \<Rightarrow> byte list \<Rightarrow> bool" where
  "same_ignoring_case a b \<longleftrightarrow> map byte_lower a = map byte_lower b"

section \<open>The proxy table\<close>

text \<open>A null name ends the table and a null pointer a list of domains, so both are lists here.\<close>

record den_proxy_entry =
  mName :: "byte list"
  mDomains :: "byte list list"
  mAttestKey :: "byte list option"
  mSpkiPin :: "byte list option"

definition ProxyHostMatch :: "byte list \<Rightarrow> byte list \<Rightarrow> bool" where
  "ProxyHostMatch aHost pat =
     (if aHost = pat then True
      else if length aHost > length pat + 1 then
        aHost ! (length aHost - length pat - 1) = 46 \<and> drop (length aHost - length pat) aHost = pat
      else False)"

fun find_proxy_from :: "int \<Rightarrow> den_proxy_entry list \<Rightarrow> byte list \<Rightarrow> int" where
  "find_proxy_from i [] aHost = -1"
| "find_proxy_from i (e # es) aHost =
     (if list_ex (ProxyHostMatch aHost) (mDomains e) then i else find_proxy_from (i + 1) es aHost)"

definition FindProxyForHost :: "den_proxy_entry list \<Rightarrow> byte list \<Rightarrow> int" where
  "FindProxyForHost tbl aHost = find_proxy_from 0 tbl aHost"

section \<open>The cached keys\<close>

datatype ns_error = NS_ERROR_FAILURE | NS_ERROR_INVALID_ARG | NS_ERROR_OTHER nat

text \<open>
  NSS and XPCOM.  The hash object is created, initialised, fed and finished; the symmetric key is
  opaque.
\<close>

record ('esk, 'bpk, 'spki, 'key, 'hs) nss_ops =
  DecodeSubjectPublicKeyInfo :: "byte list \<Rightarrow> 'spki option"
  ExtractPublicKey :: "'spki \<Rightarrow> 'bpk option"
  Base64Encode :: "byte list \<Rightarrow> byte list option"
  CreateHash :: "'hs option"
  HashInit :: "'hs \<Rightarrow> ns_error + 'hs"
  HashUpdate :: "byte list \<Rightarrow> 'hs \<Rightarrow> ns_error + 'hs"
  HashFinish :: "'hs \<Rightarrow> ns_error + byte list"
  PubDeriveWithKDF :: "'esk \<Rightarrow> 'bpk \<Rightarrow> 'key option"
  GcmEncrypt :: "'key \<Rightarrow> byte list \<Rightarrow> byte list \<Rightarrow> byte list option"
  publicValue :: "'bpk \<Rightarrow> byte list"

text \<open>\<open>sProxyPubKeys\<close> has one slot per entry and one for the terminator.\<close>

record 'bpk key_cache =
  sProxyPubKeys :: "'bpk option list"
  sKeysLoaded :: bool

definition keys_init :: "den_proxy_entry list \<Rightarrow> 'bpk key_cache" where
  "keys_init tbl = \<lparr>sProxyPubKeys = replicate (length tbl + 1) None, sKeysLoaded = False\<rparr>"

definition import_key ::
  "('esk, 'bpk, 'spki, 'key, 'hs) nss_ops \<Rightarrow> den_proxy_entry \<Rightarrow> 'bpk option" where
  "import_key N e =
     (case mAttestKey e of
        None \<Rightarrow> None
      | Some der \<Rightarrow>
          if der = [] \<or> hd der \<noteq> 0x30 then None
          else Option.bind (DecodeSubjectPublicKeyInfo N der) (ExtractPublicKey N))"

fun load_keys ::
  "('esk, 'bpk, 'spki, 'key, 'hs) nss_ops \<Rightarrow> nat \<Rightarrow> den_proxy_entry list \<Rightarrow> 'bpk option list \<Rightarrow> 'bpk option list" where
  "load_keys N i [] ks = ks"
| "load_keys N i (e # es) ks =
     load_keys N (Suc i) es (case import_key N e of None \<Rightarrow> ks | Some key \<Rightarrow> ks[i := Some key])"

definition EnsureProxyKeysLoaded ::
  "('esk, 'bpk, 'spki, 'key, 'hs) nss_ops \<Rightarrow> den_proxy_entry list \<Rightarrow> 'bpk key_cache \<Rightarrow> 'bpk key_cache" where
  "EnsureProxyKeysLoaded N tbl kc =
     (if sKeysLoaded kc then kc
      else if tbl = [] then kc\<lparr>sKeysLoaded := True\<rparr>
      else \<lparr>sProxyPubKeys = load_keys N 0 tbl (sProxyPubKeys kc), sKeysLoaded = True\<rparr>)"

definition GetProxyPublicKey ::
  "('esk, 'bpk, 'spki, 'key, 'hs) nss_ops \<Rightarrow> den_proxy_entry list \<Rightarrow> int \<Rightarrow> 'bpk key_cache
   \<Rightarrow> 'bpk option \<times> 'bpk key_cache" where
  "GetProxyPublicKey N tbl aIndex kc =
     (let kc' = EnsureProxyKeysLoaded N tbl kc in
      (if aIndex < 0 \<or> int (length tbl + 1) \<le> aIndex then None else sProxyPubKeys kc' ! nat aIndex, kc'))"

section \<open>The body\<close>

text \<open>
  An upload stream: whether it can be cloned (\<open>None\<close> when it has no such interface) and what cloning
  gives, an error or what the reads of the clone return one after the other; the end of the list
  is a read of nothing.
\<close>

record upload_stream =
  us_cloneable :: "bool option"
  us_clone :: "ns_error + (ns_error + byte list) list"

fun hash_loop ::
  "('esk, 'bpk, 'spki, 'key, 'hs) nss_ops \<Rightarrow> 'hs \<Rightarrow> (ns_error + byte list) list \<Rightarrow> ns_error + 'hs" where
  "hash_loop N h [] = Inr h"
| "hash_loop N h (Inl e # reads) = Inl e"
| "hash_loop N h (Inr buf # reads) =
     (if buf = [] then Inr h else rbind (HashUpdate N buf h) (\<lambda>h'. hash_loop N h' reads))"

definition kHexDigits :: "byte list" where "kHexDigits = bytes ''0123456789abcdef''"

definition hex_pair :: "byte \<Rightarrow> byte list" where
  "hex_pair b = [kHexDigits ! unat (drop_bit 4 b), kHexDigits ! unat (and b 0xf)]"

definition HashBody ::
  "('esk, 'bpk, 'spki, 'key, 'hs) nss_ops \<Rightarrow> upload_stream option \<Rightarrow> ns_error + byte list" where
  "HashBody N stream =
     rbind (ok_or (CreateHash N) NS_ERROR_FAILURE) (\<lambda>h0.
     rbind (HashInit N h0) (\<lambda>h1.
     rbind (case stream of
              None \<Rightarrow> Inr h1
            | Some s \<Rightarrow> rbind (us_clone s) (\<lambda>reads. hash_loop N h1 reads)) (\<lambda>h2.
     rbind (HashFinish N h2) (\<lambda>rawDigest.
     Inr (concat (map hex_pair rawDigest))))))"

definition kMaxBoundBodyBytes :: nat where "kMaxBoundBodyBytes = 64 * 1024"

definition ShouldSkipBodyHash :: "upload_stream option \<Rightarrow> nat \<Rightarrow> bool" where
  "ShouldSkipBodyHash stream aUploadLength =
     (case stream of
        None \<Rightarrow> False
      | Some s \<Rightarrow>
          if aUploadLength > kMaxBoundBodyBytes then True
          else (case us_cloneable s of Some True \<Rightarrow> False | _ \<Rightarrow> True))"

section \<open>Minting the headers\<close>

text \<open>The URI, and what one request draws.  \<open>None\<close> is a failed call.\<close>

record uri =
  GetScheme :: "byte list option"
  GetAsciiHost :: "byte list option"
  GetPathQueryRef :: "byte list option"

record ('esk, 'bpk) draws =
  dr_now :: int
  dr_nonce :: "byte list option"
  dr_slot :: bool
  dr_ephem_priv :: "'esk option"
  dr_ephem_pub :: "'bpk option"
  dr_iv :: "byte list option"

text \<open>\<^verbatim>\<open>PR_Now() / PR_USEC_PER_SEC\<close>: the quotient of signed integers, rounded towards zero.\<close>

definition now_secs :: "int \<Rightarrow> int" where
  "now_secs usec = (if usec < 0 then - (- usec div 1000000) else usec div 1000000)"

definition request_path_of :: "byte list \<Rightarrow> byte list" where
  "request_path_of pathQueryRef =
     (let path = takeWhile (\<lambda>c. c \<noteq> 35) pathQueryRef in if path = [] then bytes ''/'' else path)"

text \<open>
  Steps 1 and 2: the proxy that claims the host, and its key.  On the left is how the function
  returns early: \<open>None\<close> is \<^verbatim>\<open>NS_OK\<close>, the request goes out without a token.
\<close>

definition select_key ::
  "('esk, 'bpk, 'spki, 'key, 'hs) nss_ops \<Rightarrow> den_proxy_entry list \<Rightarrow> uri \<Rightarrow> 'bpk key_cache
   \<Rightarrow> (ns_error option + byte list \<times> 'bpk) \<times> 'bpk key_cache" where
  "select_key N tbl u kc =
     (let kc' = EnsureProxyKeysLoaded N tbl kc in
      case GetAsciiHost u of
        None \<Rightarrow> (Inl None, kc')
      | Some host \<Rightarrow>
          if host = [] then (Inl None, kc')
          else
            let proxyIndex = FindProxyForHost tbl host in
            if proxyIndex < 0 then (Inl None, kc')
            else case GetProxyPublicKey N tbl proxyIndex kc' of
                   (None, kc'') \<Rightarrow> (Inl None, kc'')
                 | (Some proxyPubKey, kc'') \<Rightarrow> (Inr (host, proxyPubKey), kc''))"

definition canonical_plaintext ::
  "byte list \<Rightarrow> byte list \<Rightarrow> byte list \<Rightarrow> byte list \<Rightarrow> byte list \<Rightarrow> byte list \<Rightarrow> byte list" where
  "canonical_plaintext nonceB64 tsStr host meth path bodyHex =
     bytes ''denbrowser-attest:v2'' @ [10] @ nonceB64 @ [10] @ tsStr @ [10] @ host @ [10] @ meth @
     [10] @ path @ [10] @ bodyHex"

text \<open>Steps 9 to 14: seal the plaintext for the proxy's key.\<close>

definition seal_token ::
  "('esk, 'bpk, 'spki, 'key, 'hs) nss_ops \<Rightarrow> ('esk, 'bpk) draws \<Rightarrow> 'bpk \<Rightarrow> byte list
   \<Rightarrow> ns_error option + byte list" where
  "seal_token N dr proxyPubKey plaintext =
     rbind (ensure (dr_slot dr) None) (\<lambda>_.
     rbind (ok_or (dr_ephem_priv dr) None) (\<lambda>ephemPriv.
     rbind (ok_or (dr_ephem_pub dr) None) (\<lambda>ephemPub.
     rbind (ok_or (PubDeriveWithKDF N ephemPriv proxyPubKey) None) (\<lambda>aesKey.
     rbind (ok_or (dr_iv dr) None) (\<lambda>iv.
     rbind (ok_or (GcmEncrypt N aesKey iv plaintext) None) (\<lambda>ct.
     ok_or (Base64Encode N (publicValue N ephemPub @ iv @ ct)) None))))))"

text \<open>Steps 3 to 14: the values of the three headers.\<close>

definition mint_headers ::
  "('esk, 'bpk, 'spki, 'key, 'hs) nss_ops \<Rightarrow> ('esk, 'bpk) draws \<Rightarrow> uri \<Rightarrow> byte list
   \<Rightarrow> upload_stream option \<Rightarrow> nat \<Rightarrow> byte list \<times> 'bpk
   \<Rightarrow> ns_error option + byte list \<times> byte list \<times> byte list" where
  "mint_headers N dr u meth stream aUploadLength = (\<lambda>(host, proxyPubKey).
     let tsStr = utf8 (dec_int (now_secs (dr_now dr))) in
     rbind (ok_or (GetPathQueryRef u) None) (\<lambda>pathQueryRef.
     let path = request_path_of pathQueryRef in
     rbind (ok_or (dr_nonce dr) None) (\<lambda>nonceBytes.
     rbind (ok_or (Base64Encode N nonceBytes) None) (\<lambda>nonceB64.
     rbind (if ShouldSkipBodyHash stream aUploadLength then Inr (bytes ''unbound'')
            else map_err Some (HashBody N stream)) (\<lambda>bodyHex.
     rbind (seal_token N dr proxyPubKey (canonical_plaintext nonceB64 tsStr host meth path bodyHex))
       (\<lambda>tokenB64. Inr (tsStr, nonceB64, tokenB64)))))))"

section \<open>The workstation's certificate\<close>

definition kMaxMachineCertDerBytes :: nat where "kMaxMachineCertDerBytes = 16 * 1024"

datatype name_format = ComputerNameDnsFullyQualified | ComputerNameDnsHostname | ComputerNameNetBIOS

datatype store_location = LocalMachine_GroupPolicy | CurrentUser_GroupPolicy | LocalMachine | CurrentUser

definition kMachineCertStoreLocations :: "store_location list" where
  "kMachineCertStoreLocations =
     [LocalMachine_GroupPolicy, CurrentUser_GroupPolicy, LocalMachine, CurrentUser]"

text \<open>
  One certificate of a store as Windows presents it: the encoding, whether the clock is inside its
  validity, the common name (the counts two successive calls return, both with the final NUL, and the
  characters) and the end of its validity.
\<close>

record cert_context =
  cx_x509 :: bool
  cx_der :: "byte list"
  cx_time_valid :: bool
  cx_cn_count :: nat
  cx_cn_copied :: nat
  cx_cn :: "byte list"
  cx_not_after :: nat

text \<open>
  \<open>win_name_size\<close> is the length asked for when the first call fails with \<^verbatim>\<open>ERROR_MORE_DATA\<close> and
  \<open>None\<close> when it does not; \<open>win_name\<close> is what the second call writes, \<open>None\<close> when it fails.  A store is
  the certificates it enumerates, \<open>None\<close> when it cannot be opened.
\<close>

record win_ops =
  win_name_size :: "name_format \<Rightarrow> nat option"
  win_name :: "name_format \<Rightarrow> byte list option"
  win_store :: "store_location \<Rightarrow> cert_context list option"

definition AppendComputerName :: "win_ops \<Rightarrow> name_format \<Rightarrow> byte list list \<Rightarrow> byte list list" where
  "AppendComputerName W aFormat aNames =
     (case win_name_size W aFormat of
        None \<Rightarrow> aNames
      | Some len \<Rightarrow>
          if len \<le> 1 then aNames
          else (case win_name W aFormat of
                  None \<Rightarrow> aNames
                | Some name \<Rightarrow>
                    if name = [] \<or> list_ex (same_ignoring_case name) aNames then aNames
                    else aNames @ [name]))"

definition CertificateNamesComputer :: "cert_context \<Rightarrow> byte list list \<Rightarrow> byte list option" where
  "CertificateNamesComputer c aNames =
     (if cx_cn_count c \<le> 1 \<or> cx_cn_copied c \<noteq> cx_cn_count c then None
      else let candidate = take (cx_cn_count c - 1) (cx_cn c) in
           if list_ex (same_ignoring_case candidate) aNames then Some candidate else None)"

definition usable_certificate :: "cert_context \<Rightarrow> bool" where
  "usable_certificate c \<longleftrightarrow>
     cx_x509 c \<and> length (cx_der c) \<noteq> 0 \<and> length (cx_der c) \<le> kMaxMachineCertDerBytes \<and> cx_time_valid c"

text \<open>The enumeration: the best certificate so far with the name it matched.\<close>

fun scan_store ::
  "byte list list \<Rightarrow> (cert_context \<times> byte list) option \<Rightarrow> cert_context list
   \<Rightarrow> (cert_context \<times> byte list) option" where
  "scan_store names best [] = best"
| "scan_store names best (c # cs) =
     (if \<not> usable_certificate c then scan_store names best cs
      else case CertificateNamesComputer c names of
             None \<Rightarrow> scan_store names best cs
           | Some matched \<Rightarrow>
               (case best of
                  Some (b, _) \<Rightarrow>
                    if cx_not_after c \<le> cx_not_after b then scan_store names best cs
                    else scan_store names (Some (c, matched)) cs
                | None \<Rightarrow> scan_store names (Some (c, matched)) cs))"

definition FindMachineCertificateInStore ::
  "win_ops \<Rightarrow> store_location \<Rightarrow> byte list list \<Rightarrow> (byte list \<times> byte list) option" where
  "FindMachineCertificateInStore W loc names =
     (case win_store W loc of
        None \<Rightarrow> None
      | Some certs \<Rightarrow> map_option (\<lambda>(c, matched). (cx_der c, matched)) (scan_store names None certs))"

record machine_cache =
  sMachineCertScanned :: bool
  sMachineCertBase64 :: "byte list option"

fun first_store ::
  "(byte list \<Rightarrow> byte list option) \<Rightarrow> win_ops \<Rightarrow> byte list list \<Rightarrow> store_location list \<Rightarrow> byte list option" where
  "first_store encode W names [] = None"
| "first_store encode W names (loc # locs) =
     (case FindMachineCertificateInStore W loc names of
        None \<Rightarrow> first_store encode W names locs
      | Some (der, _) \<Rightarrow> encode der)"

definition computer_names :: "win_ops \<Rightarrow> byte list list" where
  "computer_names W =
     AppendComputerName W ComputerNameNetBIOS
       (AppendComputerName W ComputerNameDnsHostname
         (AppendComputerName W ComputerNameDnsFullyQualified []))"

definition EnsureMachineCertificateLoaded ::
  "(byte list \<Rightarrow> byte list option) \<Rightarrow> win_ops \<Rightarrow> machine_cache \<Rightarrow> machine_cache" where
  "EnsureMachineCertificateLoaded encode W mc =
     (if sMachineCertScanned mc then mc
      else let names = computer_names W in
           if names = [] then mc\<lparr>sMachineCertScanned := True\<rparr>
           else (case first_store encode W names kMachineCertStoreLocations of
                   None \<Rightarrow> mc\<lparr>sMachineCertScanned := True\<rparr>
                 | Some encoded \<Rightarrow> \<lparr>sMachineCertScanned = True, sMachineCertBase64 = Some encoded\<rparr>))"

definition GetMachineCertificateBase64 ::
  "(byte list \<Rightarrow> byte list option) \<Rightarrow> win_ops \<Rightarrow> machine_cache \<Rightarrow> byte list option \<times> machine_cache" where
  "GetMachineCertificateBase64 encode W mc =
     (let mc' = EnsureMachineCertificateLoaded encode W mc in (sMachineCertBase64 mc', mc'))"

section \<open>The whole hook\<close>

text \<open>The request head of Firefox; header names compare without regard to case.\<close>

record 'head head_ops =
  SetHeader :: "ustring \<Rightarrow> byte list \<Rightarrow> 'head \<Rightarrow> 'head"
  ClearHeader :: "ustring \<Rightarrow> 'head \<Rightarrow> 'head"
  GetHeader :: "'head \<Rightarrow> ustring \<Rightarrow> byte list option"
  GetMethod :: "'head \<Rightarrow> byte list"

definition X_TS :: ustring where "X_TS = str ''X-DenBrowser-Ts''"
definition X_NONCE :: ustring where "X_NONCE = str ''X-DenBrowser-Nonce''"
definition X_TOKEN :: ustring where "X_TOKEN = str ''X-DenBrowser-Token''"
definition X_MACHINE :: ustring where "X_MACHINE = str ''X-DenBrowser-Machine-Cert''"

record 'bpk browser_state =
  bs_keys :: "'bpk key_cache"
  bs_machine :: machine_cache

text \<open>On Windows the certificate follows the token (\<open>win = None\<close> is any other platform).\<close>

definition add_machine_header ::
  "(byte list \<Rightarrow> byte list option) \<Rightarrow> 'head head_ops \<Rightarrow> win_ops option \<Rightarrow> 'head \<Rightarrow> machine_cache
   \<Rightarrow> 'head \<times> machine_cache" where
  "add_machine_header encode H win head mc =
     (case win of
        None \<Rightarrow> (head, mc)
      | Some W \<Rightarrow>
          (case GetMachineCertificateBase64 encode W mc of
             (Some cert, mc') \<Rightarrow> (SetHeader H X_MACHINE cert head, mc')
           | (None, mc') \<Rightarrow> (head, mc')))"

definition AddAttestHeaders ::
  "('esk, 'bpk, 'spki, 'key, 'hs) nss_ops \<Rightarrow> 'head head_ops \<Rightarrow> win_ops option \<Rightarrow> den_proxy_entry list
   \<Rightarrow> ('esk, 'bpk) draws \<Rightarrow> uri \<Rightarrow> upload_stream option \<Rightarrow> nat \<Rightarrow> 'head \<Rightarrow> 'bpk browser_state
   \<Rightarrow> (ns_error + unit) \<times> 'head \<times> 'bpk browser_state" where
  "AddAttestHeaders N H win tbl dr u stream aUploadLength head bs =
     (let head1 = ClearHeader H X_MACHINE head;
          (selected, keys) = select_key N tbl u (bs_keys bs);
          bs1 = bs\<lparr>bs_keys := keys\<rparr> in
      case rbind selected (mint_headers N dr u (GetMethod H head1) stream aUploadLength) of
        Inl None \<Rightarrow> (Inr (), head1, bs1)
      | Inl (Some e) \<Rightarrow> (Inl e, head1, bs1)
      | Inr (tsStr, nonceB64, tokenB64) \<Rightarrow>
          let head2 = SetHeader H X_TOKEN tokenB64 (SetHeader H X_NONCE nonceB64 (SetHeader H X_TS tsStr head1));
              (head3, mc) = add_machine_header (Base64Encode N) H win head2 (bs_machine bs1)
          in (Inr (), head3, bs1\<lparr>bs_machine := mc\<rparr>))"

section \<open>The TLS pin\<close>

record 'cert pin_ops =
  NewTempCertificate :: "byte list \<Rightarrow> 'cert option"
  EncodeSubjectPublicKeyInfo :: "'cert \<Rightarrow> byte list option"
  HashBuf :: "byte list \<Rightarrow> byte list option"

definition Sha256OfLeafSpki :: "'cert pin_ops \<Rightarrow> byte list \<Rightarrow> ns_error + byte list" where
  "Sha256OfLeafSpki P aCertDer =
     rbind (ensure (aCertDer \<noteq> []) NS_ERROR_INVALID_ARG) (\<lambda>_.
     rbind (ok_or (NewTempCertificate P aCertDer) NS_ERROR_FAILURE) (\<lambda>cert.
     rbind (ok_or (EncodeSubjectPublicKeyInfo P cert) NS_ERROR_FAILURE) (\<lambda>spkiDer.
     ok_or (HashBuf P spkiDer) NS_ERROR_FAILURE)))"

definition VerifyProxyPin ::
  "'cert pin_ops \<Rightarrow> den_proxy_entry list \<Rightarrow> byte list \<Rightarrow> byte list \<Rightarrow> bool" where
  "VerifyProxyPin P tbl aHost aLeafCertDer =
     (let proxyIndex = FindProxyForHost tbl aHost in
      if proxyIndex < 0 then True
      else case mSpkiPin (tbl ! nat proxyIndex) of
             None \<Rightarrow> True
           | Some pin \<Rightarrow>
               (case Sha256OfLeafSpki P aLeafCertDer of
                  Inl _ \<Rightarrow> False
                | Inr hash \<Rightarrow> hash = take 32 pin))"

text \<open>The check in \<^verbatim>\<open>AuthCertificateHook\<close>: \<open>False\<close> ends the handshake with \<^verbatim>\<open>SSL_ERROR_BAD_CERTIFICATE\<close>.\<close>

definition pin_hook :: "'cert pin_ops \<Rightarrow> den_proxy_entry list \<Rightarrow> byte list \<Rightarrow> byte list list \<Rightarrow> bool" where
  "pin_hook P tbl hostName peerCertsBytes \<longleftrightarrow>
     \<not> (peerCertsBytes \<noteq> [] \<and> \<not> VerifyProxyPin P tbl hostName (hd peerCertsBytes))"

section \<open>Which proxy claims a host\<close>

lemma ProxyHostMatch_iff:
  "ProxyHostMatch aHost pat \<longleftrightarrow> aHost = pat \<or> (\<exists>sub. sub \<noteq> [] \<and> aHost = sub @ 46 # pat)"
  (is "?L \<longleftrightarrow> ?R")
proof
  assume ?L
  show ?R
  proof (cases "aHost = pat")
    case False
    let ?k = "length aHost - length pat - 1"
    have l: "length aHost > length pat + 1" and dot: "aHost ! ?k = 46"
      and tail: "drop (length aHost - length pat) aHost = pat"
      using \<open>?L\<close> False by (auto simp: ProxyHostMatch_def split: if_splits)
    have "aHost = take ?k aHost @ aHost ! ?k # drop (Suc ?k) aHost"
      using l by (simp add: id_take_nth_drop)
    moreover have "Suc ?k = length aHost - length pat" using l by simp
    ultimately have "aHost = take ?k aHost @ 46 # pat" using dot tail by simp
    moreover have "take ?k aHost \<noteq> []" using l by auto
    ultimately show ?R by blast
  qed simp
next
  assume ?R
  then show ?L
  proof
    assume "\<exists>sub. sub \<noteq> [] \<and> aHost = sub @ 46 # pat"
    then obtain sub where "sub \<noteq> []" "aHost = sub @ 46 # pat" by blast
    then show ?L by (simp add: ProxyHostMatch_def nth_append)
  qed (simp add: ProxyHostMatch_def)
qed

definition claims :: "byte list \<Rightarrow> den_proxy_entry \<Rightarrow> bool" where
  "claims aHost e \<longleftrightarrow> (\<exists>d \<in> set (mDomains e). aHost = d \<or> (\<exists>sub. sub \<noteq> [] \<and> aHost = sub @ 46 # d))"

lemma claims_iff: "list_ex (ProxyHostMatch aHost) (mDomains e) \<longleftrightarrow> claims aHost e"
  by (auto simp: claims_def list_ex_iff ProxyHostMatch_iff)

lemma find_proxy_from_spec:
  "find_proxy_from i tbl aHost =
     (case List.find (claims aHost) tbl of None \<Rightarrow> -1
      | Some _ \<Rightarrow> i + int (length (takeWhile (\<lambda>e. \<not> claims aHost e) tbl)))"
  by (induction i tbl aHost rule: find_proxy_from.induct) (auto simp: claims_iff split: option.splits)

lemma nth_first_claim:
  "List.find P xs = Some e \<Longrightarrow>
     length (takeWhile (\<lambda>x. \<not> P x) xs) < length xs \<and> xs ! length (takeWhile (\<lambda>x. \<not> P x) xs) = e"
  by (induction xs) (auto split: if_splits)

lemma FindProxyForHost_spec:
  "FindProxyForHost tbl aHost < 0 \<longleftrightarrow> List.find (claims aHost) tbl = None"
  "List.find (claims aHost) tbl = Some e \<Longrightarrow>
     0 \<le> FindProxyForHost tbl aHost \<and> nat (FindProxyForHost tbl aHost) < length tbl \<and>
     tbl ! nat (FindProxyForHost tbl aHost) = e"
  using nth_first_claim [of "claims aHost" tbl e]
  by (auto simp: FindProxyForHost_def find_proxy_from_spec split: option.splits)

section \<open>The keys are those of the table\<close>

definition keys_inv ::
  "('esk, 'bpk, 'spki, 'key, 'hs) nss_ops \<Rightarrow> den_proxy_entry list \<Rightarrow> 'bpk key_cache \<Rightarrow> bool" where
  "keys_inv N tbl kc \<longleftrightarrow>
     sProxyPubKeys kc = (if sKeysLoaded kc then map (import_key N) tbl @ [None] else replicate (length tbl + 1) None)"

lemma load_keys_spec:
  "load_keys N (length pre) es (pre @ replicate (length es) None @ [None]) = pre @ map (import_key N) es @ [None]"
proof (induction es arbitrary: pre)
  case (Cons e es)
  have "(case import_key N e of None \<Rightarrow> pre @ None # replicate (length es) None @ [None]
      | Some key \<Rightarrow> (pre @ None # replicate (length es) None @ [None])[length pre := Some key]) =
     pre @ import_key N e # replicate (length es) None @ [None]"
    by (simp split: option.split)
  then show ?case using Cons.IH [of "pre @ [import_key N e]"] by simp
qed simp

lemma keys_inv_load: "keys_inv N tbl kc \<Longrightarrow> keys_inv N tbl (EnsureProxyKeysLoaded N tbl kc)"
  using load_keys_spec [of N "[]" tbl]
  by (auto simp: keys_inv_def EnsureProxyKeysLoaded_def replicate_append_same [symmetric])

lemma ensure_loaded: "sKeysLoaded (EnsureProxyKeysLoaded N tbl kc)"
  "EnsureProxyKeysLoaded N tbl (EnsureProxyKeysLoaded N tbl kc) = EnsureProxyKeysLoaded N tbl kc"
  by (simp_all add: EnsureProxyKeysLoaded_def)

lemma keys_inv_init: "keys_inv N tbl (keys_init tbl)"
  by (simp add: keys_inv_def keys_init_def)

lemma GetProxyPublicKey_spec:
  assumes "keys_inv N tbl kc" "0 \<le> i" "nat i < length tbl"
  shows "GetProxyPublicKey N tbl i (EnsureProxyKeysLoaded N tbl kc) =
     (import_key N (tbl ! nat i), EnsureProxyKeysLoaded N tbl kc)"
  using keys_inv_load [OF assms(1)] assms(2,3)
  by (auto simp: GetProxyPublicKey_def Let_def ensure_loaded keys_inv_def nth_append)

lemma select_key_spec:
  assumes "keys_inv N tbl kc"
  shows "select_key N tbl u kc =
    (case GetAsciiHost u of
       None \<Rightarrow> Inl None
     | Some host \<Rightarrow>
         if host = [] then Inl None
         else (case List.find (claims host) tbl of
                 None \<Rightarrow> Inl None
               | Some e \<Rightarrow> (case import_key N e of None \<Rightarrow> Inl None | Some pk \<Rightarrow> Inr (host, pk))),
     EnsureProxyKeysLoaded N tbl kc)"
  using FindProxyForHost_spec [where tbl = tbl]
  by (auto simp: select_key_def Let_def GetProxyPublicKey_spec [OF assms] split: option.splits)

section \<open>What is attached, and to which requests\<close>

text \<open>
  The documented behaviour of the request head: setting without merging replaces a header, clearing
  removes it, names compare without regard to case, and neither touches the method.
\<close>

definition head_laws :: "'head head_ops \<Rightarrow> bool" where
  "head_laws H \<longleftrightarrow>
     (\<forall>n v h m. GetHeader H (SetHeader H n v h) m =
        (if to_ascii_lowercase n = to_ascii_lowercase m then Some v else GetHeader H h m)) \<and>
     (\<forall>n h m. GetHeader H (ClearHeader H n h) m =
        (if to_ascii_lowercase n = to_ascii_lowercase m then None else GetHeader H h m)) \<and>
     (\<forall>n h. GetMethod H (ClearHeader H n h) = GetMethod H h)"

lemma browser_headers_distinct:
  "distinct (map to_ascii_lowercase [X_TS, X_NONCE, X_TOKEN, X_MACHINE])"
  by (simp add: X_TS_def X_NONCE_def X_TOKEN_def X_MACHINE_def to_ascii_lowercase_def to_ascii_lower_def str_def)

text \<open>The values the hook mints for a request, and why it has none.\<close>

definition minted ::
  "('esk, 'bpk, 'spki, 'key, 'hs) nss_ops \<Rightarrow> 'head head_ops \<Rightarrow> den_proxy_entry list \<Rightarrow> ('esk, 'bpk) draws \<Rightarrow> uri
   \<Rightarrow> upload_stream option \<Rightarrow> nat \<Rightarrow> 'head \<Rightarrow> 'bpk key_cache
   \<Rightarrow> ns_error option + byte list \<times> byte list \<times> byte list" where
  "minted N H tbl dr u stream len head kc =
     rbind (fst (select_key N tbl u kc)) (mint_headers N dr u (GetMethod H head) stream len)"

lemma AddAttestHeaders_cases:
  assumes "head_laws H" "AddAttestHeaders N H win tbl dr u stream len head bs = (r, head', bs')"
  shows "case minted N H tbl dr u stream len head (bs_keys bs) of
      Inl None \<Rightarrow> r = Inr () \<and> head' = ClearHeader H X_MACHINE head
    | Inl (Some e) \<Rightarrow> r = Inl e \<and> head' = ClearHeader H X_MACHINE head
    | Inr (ts, nonce, tok) \<Rightarrow> r = Inr () \<and>
        head' = fst (add_machine_header (Base64Encode N) H win
          (SetHeader H X_TOKEN tok (SetHeader H X_NONCE nonce (SetHeader H X_TS ts (ClearHeader H X_MACHINE head))))
          (bs_machine bs))"
  using assms
  by (cases "minted N H tbl dr u stream len head (bs_keys bs)")
    (auto simp: AddAttestHeaders_def minted_def head_laws_def Let_def case_prod_beta split: option.splits)

lemma AddAttestHeaders_keys:
  assumes "keys_inv N tbl (bs_keys bs)" "AddAttestHeaders N H win tbl dr u stream len head bs = (r, head', bs')"
  shows "keys_inv N tbl (bs_keys bs')"
proof -
  have "bs_keys bs' = EnsureProxyKeysLoaded N tbl (bs_keys bs)"
    using assms(2) select_key_spec [OF assms(1), of u]
    by (auto simp: AddAttestHeaders_def Let_def case_prod_beta split: sum.splits option.splits prod.splits)
  then show ?thesis using keys_inv_load [OF assms(1)] by simp
qed

lemma machine_header_only:
  assumes "head_laws H" "to_ascii_lowercase n \<noteq> to_ascii_lowercase X_MACHINE"
  shows "GetHeader H (fst (add_machine_header encode H win head mc)) n = GetHeader H head n"
  using assms by (auto simp: add_machine_header_def head_laws_def split: option.splits prod.splits)

lemma attached_values:
  assumes "head_laws H" "AddAttestHeaders N H win tbl dr u stream len head bs = (r, head', bs')"
    and "minted N H tbl dr u stream len head (bs_keys bs) = Inr (ts, nonce, tok)"
  shows "r = Inr () \<and> GetHeader H head' X_TS = Some ts \<and> GetHeader H head' X_NONCE = Some nonce \<and>
     GetHeader H head' X_TOKEN = Some tok"
  using AddAttestHeaders_cases [OF assms(1,2)] assms(1,3) browser_headers_distinct
  by (auto simp: machine_header_only) (auto simp: head_laws_def)

lemma unattached_values:
  assumes "head_laws H" "AddAttestHeaders N H win tbl dr u stream len head bs = (r, head', bs')"
    and "minted N H tbl dr u stream len head (bs_keys bs) = Inl x"
  shows "head' = ClearHeader H X_MACHINE head \<and> r = (case x of None \<Rightarrow> Inr () | Some e \<Rightarrow> Inl e)"
  using AddAttestHeaders_cases [OF assms(1,2)] assms(3) by (auto split: option.splits)

lemma minted_iff:
  assumes "keys_inv N tbl kc"
  shows "minted N H tbl dr u stream len head kc = Inr (ts, nonceB64, tok) \<longleftrightarrow>
     (\<exists>host e pk pqr nonce body. GetAsciiHost u = Some host \<and> host \<noteq> [] \<and>
        List.find (claims host) tbl = Some e \<and> import_key N e = Some pk \<and>
        GetPathQueryRef u = Some pqr \<and> dr_nonce dr = Some nonce \<and> Base64Encode N nonce = Some nonceB64 \<and>
        (if ShouldSkipBodyHash stream len then body = bytes ''unbound'' else HashBody N stream = Inr body) \<and>
        ts = utf8 (dec_int (now_secs (dr_now dr))) \<and>
        seal_token N dr pk
          (canonical_plaintext nonceB64 ts host (GetMethod H head) (request_path_of pqr) body) = Inr tok)"
  unfolding minted_def select_key_spec [OF assms]
  by (auto simp: mint_headers_def Let_def result_simps split: option.splits if_splits)

text \<open>
  C11. The headers are for the proxy that claims the host and for nobody else.  A host no entry of the
  table claims leaves with the head it came with, less any machine certificate; and whenever one of
  the three headers of a request is changed, the host is one of a listed domain or a proper
  subdomain of it, the first entry that claims it has a usable key, and what was attached is this
  moment, a nonce drawn for this request, and a token sealed for exactly that entry's key over this
  request's nonce, time, host, method, path without fragment, and body hash or the word unbound.
  The key cache stays the import of the table, from the first request to the last.
\<close>

theorem attested_for_claiming_proxy_only:
  assumes "head_laws H" "keys_inv N tbl (bs_keys bs)"
    and "AddAttestHeaders N H win tbl dr u stream len head bs = (r, head', bs')"
  shows "keys_inv N tbl (bs_keys bs') \<and>
     ((\<forall>host. GetAsciiHost u = Some host \<longrightarrow> (\<forall>e \<in> set tbl. \<not> claims host e)) \<longrightarrow>
        r = Inr () \<and> head' = ClearHeader H X_MACHINE head) \<and>
     ((\<exists>n \<in> {X_TS, X_NONCE, X_TOKEN}. GetHeader H head' n \<noteq> GetHeader H head n) \<longrightarrow>
        (\<exists>host e pk pqr nonce nonceB64 body tok.
           GetAsciiHost u = Some host \<and> List.find (claims host) tbl = Some e \<and> import_key N e = Some pk \<and>
           GetPathQueryRef u = Some pqr \<and> dr_nonce dr = Some nonce \<and> Base64Encode N nonce = Some nonceB64 \<and>
           (if ShouldSkipBodyHash stream len then body = bytes ''unbound'' else HashBody N stream = Inr body) \<and>
           seal_token N dr pk
             (canonical_plaintext nonceB64 (utf8 (dec_int (now_secs (dr_now dr)))) host (GetMethod H head)
               (request_path_of pqr) body) = Inr tok \<and>
           GetHeader H head' X_TS = Some (utf8 (dec_int (now_secs (dr_now dr)))) \<and>
           GetHeader H head' X_NONCE = Some nonceB64 \<and> GetHeader H head' X_TOKEN = Some tok))"
    (is "?K \<and> (?U \<longrightarrow> ?R) \<and> (?C \<longrightarrow> ?M)")
proof (cases "minted N H tbl dr u stream len head (bs_keys bs)")
  case (Inl x)
  note un = unattached_values [OF assms(1,3) Inl]
  have "\<not> ?C" using assms(1) browser_headers_distinct un by (auto simp: head_laws_def)
  moreover have "x = None" if ?U
  proof -
    have "List.find (claims host) tbl = None" if "GetAsciiHost u = Some host" for host
      using that \<open>?U\<close> by (auto simp: find_None_iff)
    then show ?thesis using Inl unfolding minted_def select_key_spec [OF assms(2)] by (auto split: option.splits)
  qed
  ultimately show ?thesis using un AddAttestHeaders_keys [OF assms(2,3)] by auto
next
  case (Inr m)
  obtain ts nonceB64 tok where m: "m = (ts, nonceB64, tok)" by (cases m)
  note val = attached_values [OF assms(1,3) Inr [unfolded m]]
  have M: ?M using iffD1 [OF minted_iff [OF assms(2)] Inr [unfolded m]] val by blast
  moreover have "\<not> ?U" using M by (auto simp: find_Some_iff) (metis nth_mem)
  ultimately show ?thesis using AddAttestHeaders_keys [OF assms(2,3)] by blast
qed

lemma seal_token_never_blocks: "seal_token N dr pk pt \<noteq> Inl (Some e)"
  by (auto simp: seal_token_def result_simps)

lemma minted_blocks_iff:
  assumes "keys_inv N tbl kc"
  shows "minted N H tbl dr u stream len head kc = Inl (Some err) \<longleftrightarrow>
     (\<exists>host e pk pqr nonce nonceB64. GetAsciiHost u = Some host \<and> host \<noteq> [] \<and>
        List.find (claims host) tbl = Some e \<and> import_key N e = Some pk \<and>
        GetPathQueryRef u = Some pqr \<and> dr_nonce dr = Some nonce \<and> Base64Encode N nonce = Some nonceB64 \<and>
        \<not> ShouldSkipBodyHash stream len \<and> HashBody N stream = Inl err)"
  unfolding minted_def select_key_spec [OF assms]
  by (auto simp: mint_headers_def Let_def result_simps seal_token_never_blocks split: option.splits if_splits)

text \<open>
  C26. When the browser refuses to send a request.  The hook fails a request in exactly one case: the
  host is claimed by a proxy with a usable key, the upload is one to be bound, and its body cannot be
  hashed; the error is the one of the hash, and nothing has been attached.  Every other failure
  (no key, no nonce, no key pair, a failing derivation or encryption) sends the request on without
  the headers.
\<close>

theorem blocked_only_by_body_hash:
  assumes "head_laws H" "keys_inv N tbl (bs_keys bs)"
    and "AddAttestHeaders N H win tbl dr u stream len head bs = (r, head', bs')"
  shows "(r = Inl err \<longleftrightarrow>
      (\<exists>host e pk pqr nonce nonceB64. GetAsciiHost u = Some host \<and> host \<noteq> [] \<and>
        List.find (claims host) tbl = Some e \<and> import_key N e = Some pk \<and>
        GetPathQueryRef u = Some pqr \<and> dr_nonce dr = Some nonce \<and> Base64Encode N nonce = Some nonceB64 \<and>
        \<not> ShouldSkipBodyHash stream len \<and> HashBody N stream = Inl err)) \<and>
     (r = Inl err \<longrightarrow> head' = ClearHeader H X_MACHINE head)"
  unfolding minted_blocks_iff [OF assms(2), where H = H and head = head, symmetric]
  using unattached_values [OF assms(1,3)] attached_values [OF assms(1,3)]
  by (cases "minted N H tbl dr u stream len head (bs_keys bs)") (auto split: option.splits)

section \<open>The pin\<close>

text \<open>
  C21. A pinned proxy is reached with its own key or not at all.  The hook of the handshake lets a
  certificate chain through exactly when it is empty, the host is claimed by no entry, the entry
  that claims it has no pin, or the hash of the leaf's public key can be computed and is the pin.
  So a request that would be given a token for a pinned entry is never sent over a connection whose
  leaf has another key or cannot be read: both choose the entry by the same rule.
\<close>

theorem pinned_proxy_only:
  "pin_hook P tbl host chain \<longleftrightarrow>
     chain = [] \<or>
     (case List.find (claims host) tbl of
        None \<Rightarrow> True
      | Some e \<Rightarrow>
          (case mSpkiPin e of
             None \<Rightarrow> True
           | Some pin \<Rightarrow> \<exists>cert der h. hd chain \<noteq> [] \<and> NewTempCertificate P (hd chain) = Some cert \<and>
               EncodeSubjectPublicKeyInfo P cert = Some der \<and> HashBuf P der = Some h \<and> h = take 32 pin))"
  using FindProxyForHost_spec [where tbl = tbl and aHost = host]
  by (auto simp: pin_hook_def VerifyProxyPin_def Let_def Sha256OfLeafSpki_def ensure_def ok_or_def
      split: option.splits)

section \<open>Which certificate names the workstation\<close>

definition eligible :: "byte list list \<Rightarrow> cert_context \<Rightarrow> bool" where
  "eligible names c \<longleftrightarrow> usable_certificate c \<and> CertificateNamesComputer c names \<noteq> None"

text \<open>The one certificate to be kept: all before it expire earlier, all after it no later.\<close>

definition latest :: "byte list list \<Rightarrow> cert_context list \<Rightarrow> cert_context \<Rightarrow> bool" where
  "latest names cs c \<longleftrightarrow>
     eligible names c \<and>
     (\<exists>pre post. cs = pre @ c # post \<and>
        (\<forall>c' \<in> set pre. eligible names c' \<longrightarrow> cx_not_after c' < cx_not_after c) \<and>
        (\<forall>c' \<in> set post. eligible names c' \<longrightarrow> cx_not_after c' \<le> cx_not_after c))"

lemma latest_skip: "\<not> eligible names c \<Longrightarrow> latest names cs b \<Longrightarrow> latest names (c # cs) b"
  unfolding latest_def by (metis append_Cons set_ConsD)

lemma latest_later:
  assumes "latest names (x # cs) c" "eligible names x" "cx_not_after b < cx_not_after x"
  shows "latest names (b # x # cs) c"
proof -
  obtain pre post where c: "eligible names c" "x # cs = pre @ c # post"
    "\<forall>c' \<in> set pre. eligible names c' \<longrightarrow> cx_not_after c' < cx_not_after c"
    "\<forall>c' \<in> set post. eligible names c' \<longrightarrow> cx_not_after c' \<le> cx_not_after c"
    using assms(1) unfolding latest_def by blast
  have "cx_not_after x \<le> cx_not_after c" using c(2,3) assms(2) by (cases pre) (auto intro: less_imp_le)
  with assms(3) c show ?thesis
    unfolding latest_def by (intro conjI exI [of _ "b # pre"] exI [of _ post]) auto
qed

lemma latest_no_later:
  assumes "latest names (b # cs) c" "eligible names b" "eligible names x \<longrightarrow> cx_not_after x \<le> cx_not_after b"
  shows "latest names (b # x # cs) c"
proof -
  obtain pre post where c: "eligible names c" "b # cs = pre @ c # post"
    "\<forall>c' \<in> set pre. eligible names c' \<longrightarrow> cx_not_after c' < cx_not_after c"
    "\<forall>c' \<in> set post. eligible names c' \<longrightarrow> cx_not_after c' \<le> cx_not_after c"
    using assms(1) unfolding latest_def by blast
  show ?thesis
  proof (cases pre)
    case Nil
    with c assms(3) show ?thesis
      unfolding latest_def by (intro conjI exI [of _ "[]"] exI [of _ "x # post"]) auto
  next
    case (Cons _ pre')
    with c assms(2,3) show ?thesis
      unfolding latest_def by (intro conjI exI [of _ "b # x # pre'"] exI [of _ post]) auto
  qed
qed

lemma scan_store_keeps:
  "\<exists>c m'. scan_store names (Some (b, m)) cs = Some (c, m') \<and> (eligible names b \<longrightarrow> latest names (b # cs) c)"
proof (induction cs arbitrary: b m)
  case Nil
  then show ?case by (auto simp: latest_def intro: exI [of _ "[]"])
next
  case (Cons x cs)
  show ?case
  proof (cases "eligible names x \<and> \<not> cx_not_after x \<le> cx_not_after b")
    case True
    then obtain k where k: "scan_store names (Some (b, m)) (x # cs) = scan_store names (Some (x, k)) cs"
      by (auto simp: eligible_def)
    show ?thesis unfolding k using Cons.IH [of x k] True latest_later [of names x cs _ b] by auto
  next
    case False
    then have k: "scan_store names (Some (b, m)) (x # cs) = scan_store names (Some (b, m)) cs"
      by (auto simp: eligible_def split: option.splits)
    show ?thesis unfolding k using Cons.IH [of b m] False latest_no_later [of names b cs _ x] by blast
  qed
qed

lemma scan_store_spec:
  "case scan_store names None cs of
     None \<Rightarrow> \<forall>c \<in> set cs. \<not> eligible names c
   | Some (c, m) \<Rightarrow> latest names cs c"
proof (induction cs)
  case (Cons c cs)
  show ?case
  proof (cases "eligible names c")
    case True
    then obtain k where k: "scan_store names None (c # cs) = scan_store names (Some (c, k)) cs"
      by (auto simp: eligible_def)
    from scan_store_keeps [of names c k cs] True show ?thesis unfolding k by auto
  next
    case False
    then have "scan_store names None (c # cs) = scan_store names None cs"
      by (auto simp: eligible_def split: option.splits)
    with Cons False show ?thesis by (auto intro: latest_skip split: option.splits)
  qed
qed simp

text \<open>
  The certificate the documentation promises: the latest eligible one of the first store, in the
  order of \<open>kMachineCertStoreLocations\<close>, that holds an eligible one.
\<close>

definition workstation_certificate :: "win_ops \<Rightarrow> store_location list \<Rightarrow> cert_context \<Rightarrow> bool" where
  "workstation_certificate W locs c \<longleftrightarrow>
     (\<exists>pre loc post certs. locs = pre @ loc # post \<and>
        win_store W loc = Some certs \<and> latest (computer_names W) certs c \<and>
        (\<forall>l \<in> set pre. \<forall>cs. win_store W l = Some cs \<longrightarrow> (\<forall>x \<in> set cs. \<not> eligible (computer_names W) x)))"

lemma find_in_store_None:
  "FindMachineCertificateInStore W loc names = None \<Longrightarrow> win_store W loc = Some cs \<Longrightarrow> x \<in> set cs \<Longrightarrow>
   \<not> eligible names x"
  using scan_store_spec [where names = names and cs = cs] by (auto simp: FindMachineCertificateInStore_def)

lemma find_in_store_Some:
  "FindMachineCertificateInStore W loc names = Some (der, m) \<Longrightarrow>
   \<exists>cs c. win_store W loc = Some cs \<and> latest names cs c \<and> der = cx_der c"
  using scan_store_spec [where names = names and cs = "the (win_store W loc)"]
  by (auto simp: FindMachineCertificateInStore_def split: option.splits)

lemma first_store_spec:
  "first_store encode W (computer_names W) locs = Some v \<Longrightarrow>
   \<exists>c. workstation_certificate W locs c \<and> encode (cx_der c) = Some v"
proof (induction locs)
  case (Cons loc locs)
  show ?case
  proof (cases "FindMachineCertificateInStore W loc (computer_names W)")
    case None
    with Cons obtain c pre l post certs where c: "encode (cx_der c) = Some v" "locs = pre @ l # post"
      "win_store W l = Some certs" "latest (computer_names W) certs c"
      "\<forall>l \<in> set pre. \<forall>cs. win_store W l = Some cs \<longrightarrow> (\<forall>x \<in> set cs. \<not> eligible (computer_names W) x)"
      by (auto simp: workstation_certificate_def)
    then have "workstation_certificate W (loc # locs) c"
      unfolding workstation_certificate_def using find_in_store_None [OF None]
      by (intro exI [of _ "loc # pre"] exI [of _ l] exI [of _ post] exI [of _ certs]) auto
    with c(1) show ?thesis by blast
  next
    case (Some found)
    then obtain cs c where "win_store W loc = Some cs" "latest (computer_names W) cs c" "encode (cx_der c) = Some v"
      using Cons.prems find_in_store_Some [of W loc "computer_names W" "fst found" "snd found"]
      by (auto split: prod.splits)
    then show ?thesis unfolding workstation_certificate_def by (metis append_Nil empty_iff empty_set)
  qed
qed simp

text \<open>The cache: \<open>W0\<close> is what Windows held when it was scanned.\<close>

definition machine_inv :: "(byte list \<Rightarrow> byte list option) \<Rightarrow> win_ops \<Rightarrow> machine_cache \<Rightarrow> bool" where
  "machine_inv encode W0 mc \<longleftrightarrow>
     (\<not> sMachineCertScanned mc \<longrightarrow> sMachineCertBase64 mc = None) \<and>
     (\<forall>v. sMachineCertBase64 mc = Some v \<longrightarrow>
        (\<exists>c. workstation_certificate W0 kMachineCertStoreLocations c \<and> encode (cx_der c) = Some v))"

lemma machine_inv_ensure:
  "machine_inv encode W0 mc \<Longrightarrow> sMachineCertScanned mc \<or> W = W0 \<Longrightarrow>
   machine_inv encode W0 (EnsureMachineCertificateLoaded encode W mc)"
  using first_store_spec [of encode W kMachineCertStoreLocations]
  by (auto simp: EnsureMachineCertificateLoaded_def machine_inv_def Let_def split: option.splits)

lemma add_machine_header_spec:
  assumes "head_laws H" "machine_inv encode W0 mc" "\<forall>W. win = Some W \<longrightarrow> sMachineCertScanned mc \<or> W = W0"
    and "GetHeader H head X_MACHINE = None"
  shows "machine_inv encode W0 (snd (add_machine_header encode H win head mc)) \<and>
     (GetHeader H (fst (add_machine_header encode H win head mc)) X_MACHINE = Some v \<longrightarrow>
      win \<noteq> None \<and> (\<exists>c. workstation_certificate W0 kMachineCertStoreLocations c \<and> encode (cx_der c) = Some v))"
proof (cases win)
  case None
  then show ?thesis using assms by (simp add: add_machine_header_def)
next
  case (Some W)
  let ?mc = "EnsureMachineCertificateLoaded encode W mc"
  have inv: "machine_inv encode W0 ?mc" using machine_inv_ensure assms(2,3) Some by blast
  have "add_machine_header encode H win head mc =
     (case sMachineCertBase64 ?mc of None \<Rightarrow> head | Some cert \<Rightarrow> SetHeader H X_MACHINE cert head, ?mc)"
    by (auto simp: add_machine_header_def Some GetMachineCertificateBase64_def Let_def split: option.splits)
  then show ?thesis
    using inv assms(1,4) Some by (auto simp: machine_inv_def head_laws_def split: option.splits)
qed

lemma AddAttestHeaders_machine:
  assumes "AddAttestHeaders N H win tbl dr u stream len head bs = (r, head', bs')" "head_laws H"
  shows "bs_machine bs' = (case minted N H tbl dr u stream len head (bs_keys bs) of
      Inl _ \<Rightarrow> bs_machine bs
    | Inr (ts, nonce, tok) \<Rightarrow> snd (add_machine_header (Base64Encode N) H win
          (SetHeader H X_TOKEN tok (SetHeader H X_NONCE nonce (SetHeader H X_TS ts (ClearHeader H X_MACHINE head))))
          (bs_machine bs)))"
  using assms
  by (cases "minted N H tbl dr u stream len head (bs_keys bs)")
    (auto simp: AddAttestHeaders_def minted_def head_laws_def Let_def case_prod_beta split: option.splits)

text \<open>
  C20. The machine certificate is the browser's own.  Whatever the page or an earlier redirect had put
  under that name, a machine certificate that leaves with a request leaves on Windows, to a host some
  proxy claims, and is the base64 of a certificate that was valid when Windows was scanned, at
  most 16 KiB, named like the workstation, the latest to expire in the first store that holds such
  a one; and the cache keeps giving that certificate for the life of the process.
\<close>

theorem machine_certificate_genuine:
  assumes "head_laws H" "keys_inv N tbl (bs_keys bs)" "machine_inv (Base64Encode N) W0 (bs_machine bs)"
    and "\<forall>W. win = Some W \<longrightarrow> sMachineCertScanned (bs_machine bs) \<or> W = W0"
    and "AddAttestHeaders N H win tbl dr u stream len head bs = (r, head', bs')"
  shows "machine_inv (Base64Encode N) W0 (bs_machine bs') \<and>
     (\<forall>v. GetHeader H head' X_MACHINE = Some v \<longrightarrow>
        win \<noteq> None \<and> (\<exists>host. GetAsciiHost u = Some host \<and> (\<exists>e \<in> set tbl. claims host e)) \<and>
        (\<exists>c. workstation_certificate W0 kMachineCertStoreLocations c \<and> usable_certificate c \<and>
           Base64Encode N (cx_der c) = Some v))"
proof (cases "minted N H tbl dr u stream len head (bs_keys bs)")
  case (Inl x)
  then show ?thesis
    using assms(1,3) AddAttestHeaders_machine [OF assms(5,1)] unattached_values [OF assms(1,5) Inl]
    by (auto simp: head_laws_def)
next
  case (Inr m)
  obtain ts nonce tok where m: "m = (ts, nonce, tok)" by (cases m)
  let ?h = "SetHeader H X_TOKEN tok (SetHeader H X_NONCE nonce (SetHeader H X_TS ts (ClearHeader H X_MACHINE head)))"
  have none: "GetHeader H ?h X_MACHINE = None"
    using assms(1) browser_headers_distinct by (auto simp: head_laws_def)
  note spec = add_machine_header_spec [OF assms(1,3,4) none]
  have h: "head' = fst (add_machine_header (Base64Encode N) H win ?h (bs_machine bs))"
    "bs_machine bs' = snd (add_machine_header (Base64Encode N) H win ?h (bs_machine bs))"
    using AddAttestHeaders_cases [OF assms(1,5)] AddAttestHeaders_machine [OF assms(5,1)] Inr m by auto
  have "\<exists>host. GetAsciiHost u = Some host \<and> (\<exists>e \<in> set tbl. claims host e)"
    using iffD1 [OF minted_iff [OF assms(2)] Inr [unfolded m]] unfolding find_Some_iff by (metis nth_mem)
  moreover have "usable_certificate c" if "workstation_certificate W0 kMachineCertStoreLocations c" for c
    using that by (auto simp: workstation_certificate_def latest_def eligible_def)
  ultimately show ?thesis unfolding h by (intro conjI allI impI) (use spec in metis)+
qed

end
