(* ===== verification/Browser_Interop.thy ===== *)
theory Browser_Interop
  imports Browser_Attest
begin

text \<open>
  From the browser to the verifier: under the documented behaviour of NSS and of the proxy's crates
  (\<open>nss_interop\<close>) the headers the browser mints pass phase 1 at the proxy whose key sealed them
  (\<open>minted_verifies\<close>).  At the end a concrete browser, on which the properties of \<open>Browser_Attest\<close> are
  exercised.
\<close>

section \<open>The proxy can read what the browser seals\<close>

text \<open>
  NSS and the crates of the proxy implement the same standards.  \<open>nss_reading\<close> says what the opaque
  values of NSS stand for (the public half of a private key, the curve point of a public key, the
  bytes of a symmetric key, what a hash object has been fed), and \<open>nss_interop\<close> that, where a call
  succeeds, it computes base64, P-256 with the X9.63 derivation, AES-128-GCM and SHA-256.
\<close>

record ('esk, 'bpk, 'key, 'hs, 'pk) nss_reading =
  nr_public :: "'esk \<Rightarrow> 'bpk"
  nr_point :: "'bpk \<Rightarrow> 'pk"
  nr_key :: "'key \<Rightarrow> byte list"
  nr_fed :: "'hs \<Rightarrow> byte list"

abbreviation visible :: "byte \<Rightarrow> bool" where
  "visible b \<equiv> 32 < unat b \<and> unat b < 127"

definition nss_interop ::
  "('esk, 'bpk, 'spki, 'key, 'hs) nss_ops \<Rightarrow> ('sk, 'pk, 'x) client_crypto_scheme
   \<Rightarrow> ('esk, 'bpk, 'key, 'hs, 'pk) nss_reading \<Rightarrow> bool" where
  "nss_interop N K R \<longleftrightarrow>
     (\<forall>bs e. Base64Encode N bs = Some e \<longrightarrow> (\<forall>b \<in> set e. visible b) \<and> b64_decode K (map unat e) = Some bs) \<and>
     (\<forall>pk. length (publicValue N pk) = 65 \<and> from_sec1_bytes K (publicValue N pk) = Some (nr_point R pk)) \<and>
     (\<forall>esk pk key sk. PubDeriveWithKDF N esk pk = Some key \<longrightarrow> nr_point R pk = public_key K sk \<longrightarrow>
        nr_key R key = derive_key K sk (nr_point R (nr_public R esk))) \<and>
     (\<forall>key iv m ct. GcmEncrypt N key iv m = Some ct \<longrightarrow> length iv = 12 \<longrightarrow>
        length ct = length m + 16 \<and> aes128_gcm_decrypt K (nr_key R key) iv ct = Some m) \<and>
     (\<forall>h0 h1. HashInit N h0 = Inr h1 \<longrightarrow> nr_fed R h1 = []) \<and>
     (\<forall>buf h h'. HashUpdate N buf h = Inr h' \<longrightarrow> nr_fed R h' = nr_fed R h @ buf) \<and>
     (\<forall>h digest. HashFinish N h = Inr digest \<longrightarrow> digest = sha256 K (nr_fed R h)) \<and>
     (\<forall>m. length (sha256 K m) = 32)"

text \<open>The random generators fill their buffers, and a generated key pair is one.\<close>

definition draws_ok :: "('esk, 'bpk, 'key, 'hs, 'pk) nss_reading \<Rightarrow> ('esk, 'bpk) draws \<Rightarrow> bool" where
  "draws_ok R dr \<longleftrightarrow>
     (\<forall>n. dr_nonce dr = Some n \<longrightarrow> length n = 16) \<and> (\<forall>iv. dr_iv dr = Some iv \<longrightarrow> length iv = 12) \<and>
     (\<forall>esk pk. dr_ephem_priv dr = Some esk \<longrightarrow> dr_ephem_pub dr = Some pk \<longrightarrow> pk = nr_public R esk) \<and>
     0 \<le> dr_now dr \<and> dr_now dr \<le> i64_max"

text \<open>What the reads of a stream add up to, \<open>None\<close> when one fails.\<close>

fun stream_bytes :: "(ns_error + byte list) list \<Rightarrow> byte list option" where
  "stream_bytes [] = Some []"
| "stream_bytes (Inl e # reads) = None"
| "stream_bytes (Inr buf # reads) = (if buf = [] then Some [] else map_option ((@) buf) (stream_bytes reads))"

definition upload_bytes :: "upload_stream option \<Rightarrow> byte list option" where
  "upload_bytes stream =
     (case stream of None \<Rightarrow> Some []
      | Some s \<Rightarrow> (case us_clone s of Inl _ \<Rightarrow> None | Inr reads \<Rightarrow> stream_bytes reads))"

lemma interop_hash:
  assumes "nss_interop N K R"
  shows "HashInit N h0 = Inr h1 \<Longrightarrow> nr_fed R h1 = []"
    and "HashUpdate N buf h = Inr h' \<Longrightarrow> nr_fed R h' = nr_fed R h @ buf"
    and "HashFinish N h = Inr digest \<Longrightarrow> digest = sha256 K (nr_fed R h)"
    and "length (sha256 K m) = 32"
  using assms unfolding nss_interop_def by blast+

lemma interop_token:
  assumes "nss_interop N K R"
  shows "Base64Encode N bs = Some e \<Longrightarrow> (\<forall>b \<in> set e. visible b) \<and> b64_decode K (map unat e) = Some bs"
    and "length (publicValue N pk) = 65" "from_sec1_bytes K (publicValue N pk) = Some (nr_point R pk)"
    and "PubDeriveWithKDF N esk pk = Some key \<Longrightarrow> nr_point R pk = public_key K sk \<Longrightarrow>
      nr_key R key = derive_key K sk (nr_point R (nr_public R esk))"
    and "GcmEncrypt N key iv pt = Some ct \<Longrightarrow> length iv = 12 \<Longrightarrow>
      length ct = length pt + 16 \<and> aes128_gcm_decrypt K (nr_key R key) iv ct = Some pt"
  using assms unfolding nss_interop_def by blast+

lemma hash_loop_fed:
  assumes "nss_interop N K R"
  shows "hash_loop N h reads = Inr h' \<Longrightarrow> \<exists>bs. stream_bytes reads = Some bs \<and> nr_fed R h' = nr_fed R h @ bs"
proof (induction reads arbitrary: h)
  case (Cons x reads)
  show ?case
  proof (cases x)
    case (Inr buf)
    show ?thesis
    proof (cases "buf = []")
      case False
      then obtain h1 where "HashUpdate N buf h = Inr h1" "hash_loop N h1 reads = Inr h'"
        using Cons.prems Inr by (auto simp: result_simps)
      with Cons.IH [of h1] interop_hash(2) [OF assms] False Inr show ?thesis by fastforce
    qed (use Cons.prems Inr in simp)
  qed (use Cons.prems in simp)
qed simp

lemma unat_ascii: "\<forall>c \<in> set s. is_ascii c \<Longrightarrow> map unat (utf8 s) = s"
  by (induction s) (simp_all add: utf8_ascii unat_of_nat_byte)

lemma utf8_unat: "\<forall>b \<in> set bs. unat b < 128 \<Longrightarrow> utf8 (map unat bs) = bs"
  by (induction bs) (simp_all add: utf8_ascii)

lemma kHexDigits_nth: "d < 16 \<Longrightarrow> kHexDigits ! d = of_nat (digit_char d)"
proof -
  have "\<forall>d < 16. kHexDigits ! d = of_nat (digit_char d)"
    unfolding kHexDigits_def bytes_def by code_simp
  then show "d < 16 \<Longrightarrow> kHexDigits ! d = of_nat (digit_char d)" by blast
qed

lemma hex_pair_lower: "hex_pair b = utf8 (hex_lower b)"
proof -
  have "unat (drop_bit 4 b) = unat b div 16" by (simp add: drop_bit_eq_div unat_div)
  moreover have "and b 0xf = b mod 16"
    using take_bit_eq_mask [of 4 b] by (simp add: take_bit_eq_mod mask_eq_exp_minus_1)
  then have "unat (and b 0xf) = unat b mod 16" by (simp add: unat_mod_distrib)
  ultimately show ?thesis
    using unat_byte_less [of b] utf8_hex_lower [of b] by (simp add: hex_pair_def kHexDigits_nth hex_lower_def)
qed

lemma HashBody_spec:
  assumes "nss_interop N K R" "HashBody N stream = Inr hex"
  shows "\<exists>body. upload_bytes stream = Some body \<and> hex = utf8 (sha256_hex K body)"
proof -
  obtain h0 h1 h2 digest where h: "HashInit N h0 = Inr h1" "HashFinish N h2 = Inr digest"
    "hex = concat (map hex_pair digest)"
    "(case stream of None \<Rightarrow> Inr h1 | Some s \<Rightarrow> rbind (us_clone s) (\<lambda>reads. hash_loop N h1 reads)) = Inr h2"
    using assms(2) by (auto simp: HashBody_def result_simps)
  have "\<exists>body. upload_bytes stream = Some body \<and> nr_fed R h2 = body"
    using h(4) interop_hash(1) [OF assms(1) h(1)] hash_loop_fed [OF assms(1)]
    by (fastforce simp: upload_bytes_def result_simps split: option.splits)
  then show ?thesis
    using h(3) interop_hash(3) [OF assms(1) h(2)]
    by (auto simp: sha256_hex_def utf8_concat hex_pair_lower [abs_def] comp_def)
qed

lemma canonical_plaintext_join:
  "canonical_plaintext n t h m p f = join [10] [PLAINTEXT_PREFIX, n, t, h, m, p, f]"
  by (simp add: canonical_plaintext_def PLAINTEXT_PREFIX_def bytes_def)

lemma prefix_no_newline: "10 \<notin> set PLAINTEXT_PREFIX"
  unfolding PLAINTEXT_PREFIX_def using plain_field_prefix by (rule newline_free_utf8)

lemma visible_fields: "\<forall>b \<in> set e. visible b \<Longrightarrow> 10 \<notin> set e \<and> (\<forall>b \<in> set e. unat b < 128)"
  by (auto simp: unat_arith_simps)

lemma seal_token_opens:
  assumes "nss_interop N K R" "draws_ok R dr" "nr_point R pk = public_key K sk"
    and "seal_token N dr pk pt = Inr tok" "pt \<noteq> []"
  shows "decrypt_token K sk (map unat tok) = Inr pt \<and> (\<forall>b \<in> set tok. visible b)"
proof -
  obtain esk epk key iv ct where s: "dr_ephem_priv dr = Some esk" "dr_ephem_pub dr = Some epk"
    "PubDeriveWithKDF N esk pk = Some key" "dr_iv dr = Some iv" "GcmEncrypt N key iv pt = Some ct"
    "Base64Encode N (publicValue N epk @ iv @ ct) = Some tok"
    using assms(4) unfolding seal_token_def result_simps by blast
  have "epk = nr_public R esk" "length iv = 12" using assms(2) s(1,2,4) unfolding draws_ok_def by blast+
  note d = s(1,2,3,4) this(2) s(5,6) [unfolded this(1)]
  have ct: "length ct = length pt + 16" "aes128_gcm_decrypt K (derive_key K sk (nr_point R (nr_public R esk))) iv ct = Some pt"
    using interop_token(5) [OF assms(1) d(6,5)] interop_token(4) [OF assms(1) d(3) assms(3)] by simp_all
  have "1 \<le> length pt" using assms(5) by (cases pt) auto
  then have "17 \<le> length ct" using ct(1) by simp
  note b64 = interop_token(1) [OF assms(1) d(7)]
  have "decrypt_token K sk (map unat tok) = Inr pt"
    by (rule decrypt_token_sealed [OF conjunct2 [OF b64] interop_token(2) [OF assms(1)] d(5) \<open>17 \<le> length ct\<close>
        interop_token(3) [OF assms(1)] ct(2)])
  with b64 show ?thesis by blast
qed

lemma body_field_read:
  assumes "nss_interop N K R"
    and "if ShouldSkipBodyHash stream len then f = bytes ''unbound'' else HashBody N stream = Inr f"
  shows "10 \<notin> set f \<and> parse_body_binding f =
     Inr (if ShouldSkipBodyHash stream len then Unbound else Hash (sha256 K (the (upload_bytes stream)))) \<and>
     (\<not> ShouldSkipBodyHash stream len \<longrightarrow> upload_bytes stream \<noteq> None)"
proof (cases "ShouldSkipBodyHash stream len")
  case True
  have "plain_field (str ''unbound'')" by (simp add: plain_field_def str_def)
  with True assms(2) show ?thesis by (auto simp: bytes_def parse_body_binding_unbound newline_free_utf8)
next
  case False
  then obtain body where "upload_bytes stream = Some body" "f = utf8 (sha256_hex K body)"
    using HashBody_spec [OF assms(1)] assms(2) by auto
  with False show ?thesis
    using parse_body_binding_hex [OF interop_hash(4) [OF assms(1), of body]]
    by (auto simp: sha256_hex_def newline_free_utf8 plain_field_hex)
qed

lemma dec_int_field:
  assumes "is_i64 i"
  shows "10 \<notin> set (utf8 (dec_int i)) \<and> map unat (utf8 (dec_int i)) = dec_int i"
proof -
  have "\<forall>c \<in> set (dec_int i). is_ascii c"
    using parse_i64_dec_int [OF assms] by (auto simp: parse_i64_def dest: parse_int_ascii)
  moreover have "10 \<notin> set (dec_int i)"
    using dec_int_chars [of 10 i] by (auto simp: digit_char_def split: if_splits)
  ultimately have "plain_field (dec_int i)" by (force simp: plain_field_def)
  with \<open>\<forall>c \<in> set (dec_int i). is_ascii c\<close> show ?thesis by (simp add: unat_ascii newline_free_utf8)
qed

text \<open>
  The three headers, presented with the request they were minted for, pass phase 1 at the proxy
  that holds the private key.
\<close>

lemma minted_verifies:
  assumes "nss_interop N K R" "draws_ok R dr" "nr_point R pk = public_key K (private_key v)"
    and "Base64Encode N nonce = Some nonceB64" "dr_nonce dr = Some nonce"
    and "if ShouldSkipBodyHash stream len then f = bytes ''unbound'' else HashBody N stream = Inr f"
    and "seal_token N dr pk
          (canonical_plaintext nonceB64 (utf8 (dec_int (now_secs (dr_now dr)))) (utf8 host) (utf8 meth) (utf8 path) f) = Inr tok"
    and "10 \<notin> set (utf8 host)" "10 \<notin> set (utf8 meth)" "10 \<notin> set (utf8 path)"
    and "\<bar>unix_now wall - now_secs (dr_now dr)\<bar> \<le> 30" "\<not> nc_contains (v_cache v) nonce"
  shows "verify_headers K wall v
      \<lparr>in_ts = dec_int (now_secs (dr_now dr)), in_nonce_b64 = map unat nonceB64, in_token_b64 = map unat tok,
       in_host = host, in_method = meth, in_path = path\<rparr> =
     Inr \<lparr>p1_nonce = nonce,
       p1_body_binding = (if ShouldSkipBodyHash stream len then Unbound else Hash (sha256 K (the (upload_bytes stream)))),
       p1_ts = now_secs (dr_now dr)\<rparr>"
proof -
  let ?pt = "canonical_plaintext nonceB64 (utf8 (dec_int (now_secs (dr_now dr)))) (utf8 host) (utf8 meth) (utf8 path) f"
  note b64 = interop_token(1) [OF assms(1,4)]
  have "decrypt_token K (private_key v) (map unat tok) = Inr ?pt"
    using seal_token_opens [OF assms(1-3,7)] by (simp add: canonical_plaintext_def)
  moreover have ts: "is_i64 (now_secs (dr_now dr))" "length nonce = 16"
    using assms(2,5) by (auto simp: draws_ok_def now_secs_def i64_defs)
  moreover have "split_on 10 ?pt = [PLAINTEXT_PREFIX, nonceB64, utf8 (dec_int (now_secs (dr_now dr))), utf8 host,
      utf8 meth, utf8 path, f]"
    unfolding canonical_plaintext_join
    using visible_fields b64 body_field_read [OF assms(1,6)] prefix_no_newline dec_int_field [OF ts(1)] assms(8-10)
    by (intro split_on_join) auto
  moreover have "utf8 (map unat nonceB64) = nonceB64" using b64 visible_fields utf8_unat by blast
  ultimately show ?thesis
    using assms(11,12) b64 body_field_read [OF assms(1,6)]
    by (auto simp: verify_headers_eq_Inr parse_i64_dec_int)
qed

lemma print_radix_digit: "2 \<le> r \<Longrightarrow> r \<le> 10 \<Longrightarrow> c \<in> set (print_radix r n) \<Longrightarrow> 48 \<le> c \<and> c < 58"
proof (induction r n rule: print_radix.induct)
  case (1 r n)
  show ?case
  proof (cases "n < r")
    case False
    have "n mod r < 10" using "1.prems"(1,2) mod_less_divisor [of r n] by linarith
    then have "48 \<le> digit_char (n mod r) \<and> digit_char (n mod r) < 58" by (simp add: digit_char_def)
    then show ?thesis using 1 False by (auto simp: print_radix.simps [of r n])
  qed (use "1.prems" in \<open>auto simp: print_radix.simps [of r n] digit_char_def\<close>)
qed

lemma now_secs_nonneg: "draws_ok R dr \<Longrightarrow> now_secs (dr_now dr) = dr_now dr div 1000000 \<and> 0 \<le> now_secs (dr_now dr)"
  by (auto simp: draws_ok_def now_secs_def pos_imp_zdiv_nonneg_iff)

lemma ts_visible: "draws_ok R dr \<Longrightarrow> b \<in> set (utf8 (dec_int (now_secs (dr_now dr)))) \<Longrightarrow> visible b"
proof -
  assume "draws_ok R dr" and b: "b \<in> set (utf8 (dec_int (now_secs (dr_now dr))))"
  define n where "n = nat (now_secs (dr_now dr))"
  have n: "dec_int (now_secs (dr_now dr)) = dec_nat n"
    using now_secs_nonneg [OF \<open>draws_ok R dr\<close>] by (simp add: dec_int_def n_def)
  have digit: "\<forall>c \<in> set (dec_nat n). 48 \<le> c \<and> c < 58" using print_radix_digit [of 10] by (simp add: dec_nat_def)
  then have "utf8 (dec_nat n) = map of_nat (dec_nat n)" by (intro utf8_ascii) fastforce
  then show "visible b" using b digit by (force simp: n unat_of_nat_byte)
qed

section \<open>A concrete browser\<close>

text \<open>
  Each byte as two letters stands in for base64; the rest of the cryptography is transparent.  One
  proxy is configured for \<^verbatim>\<open>host\<close> and one, with a pin, for \<^verbatim>\<open>pinned\<close>.
\<close>

definition letters :: "byte list \<Rightarrow> byte list" where
  "letters bs = concat (map (\<lambda>b. [65 + b div 16, 65 + b mod 16]) bs)"

fun unletters :: "ustring \<Rightarrow> byte list option" where
  "unletters [] = Some []"
| "unletters [c] = None"
| "unletters (c # d # s) = map_option ((#) (of_nat ((c - 65) * 16 + (d - 65)))) (unletters s)"

definition wire_crypto :: "(unit, unit) client_crypto" where
  "wire_crypto =
     \<lparr>b64_decode = unletters, from_sec1_bytes = (\<lambda>_. Some ()),
      diffie_hellman = (\<lambda>_ _. []), sha256 = (\<lambda>_. replicate 32 0),
      aes128_gcm_decrypt = (\<lambda>_ _ c. Some (take (length c - 16) c)),
      b64_encode = (\<lambda>bs. map unat (letters bs)), public_key = (\<lambda>_. ()), to_encoded_point = (\<lambda>_. replicate 65 0),
      aes128_gcm_encrypt = (\<lambda>_ _ m. m @ replicate 16 0)\<rparr>"

definition demo_nss :: "(unit, unit, unit, unit, byte list) nss_ops" where
  "demo_nss =
     \<lparr>DecodeSubjectPublicKeyInfo = (\<lambda>_. Some ()), ExtractPublicKey = Some, Base64Encode = (\<lambda>bs. Some (letters bs)),
      CreateHash = Some [], HashInit = (\<lambda>_. Inr []), HashUpdate = (\<lambda>buf h. Inr (h @ buf)),
      HashFinish = (\<lambda>_. Inr (replicate 32 0)), PubDeriveWithKDF = (\<lambda>_ _. Some ()),
      GcmEncrypt = (\<lambda>_ _ m. Some (m @ replicate 16 0)), publicValue = (\<lambda>_. replicate 65 0)\<rparr>"

definition demo_reading :: "(unit, unit, unit, byte list, unit) nss_reading" where
  "demo_reading = \<lparr>nr_public = id, nr_point = id, nr_key = (\<lambda>_. replicate 16 0), nr_fed = id\<rparr>"

lemma letter_nibbles:
  "unat (65 + b div 16 :: byte) = 65 + unat b div 16" "unat (65 + b mod 16 :: byte) = 65 + unat b mod 16"
proof -
  have "unat b div 16 < 16" "unat b mod 16 < 16" using unat_byte_less [of b] by auto
  then show "unat (65 + b div 16 :: byte) = 65 + unat b div 16" "unat (65 + b mod 16 :: byte) = 65 + unat b mod 16"
    by (simp_all add: unat_word_ariths unat_div_distrib unat_mod_distrib)
qed

lemma letters_roundtrip: "unletters (map unat (letters bs)) = Some bs"
proof (induction bs)
  case (Cons b bs)
  have "of_nat (unat b div 16 * 16 + unat b mod 16) = b" by (simp add: div_mult_mod_eq)
  with Cons show ?case by (simp add: letters_def letter_nibbles)
qed (simp add: letters_def)

lemma letters_visible: "b \<in> set (letters bs) \<Longrightarrow> visible b"
proof -
  assume "b \<in> set (letters bs)"
  then obtain a where "b = 65 + a div 16 \<or> b = 65 + a mod 16" by (auto simp: letters_def)
  moreover have "unat a div 16 < 16" "unat a mod 16 < 16" using unat_byte_less [of a] by auto
  ultimately show "visible b" by (auto simp: letter_nibbles)
qed

lemma demo_interop: "nss_interop demo_nss wire_crypto demo_reading"
  using letters_roundtrip letters_visible
  by (auto simp: nss_interop_def demo_nss_def wire_crypto_def demo_reading_def derive_key_def)

definition demo_table :: "den_proxy_entry list" where
  "demo_table =
     [\<lparr>mName = bytes ''a'', mDomains = [bytes ''host''], mAttestKey = Some [0x30], mSpkiPin = None\<rparr>,
      \<lparr>mName = bytes ''b'', mDomains = [bytes ''pinned''], mAttestKey = Some [0x30], mSpkiPin = Some (replicate 32 0)\<rparr>]"

type_synonym demo_head = "ustring \<rightharpoonup> byte list"

definition demo_head_ops :: "demo_head head_ops" where
  "demo_head_ops =
     \<lparr>SetHeader = (\<lambda>n v h. h(to_ascii_lowercase n \<mapsto> v)), ClearHeader = (\<lambda>n h. h(to_ascii_lowercase n := None)),
      GetHeader = (\<lambda>h n. h (to_ascii_lowercase n)), GetMethod = (\<lambda>_. bytes ''GET'')\<rparr>"

lemma demo_head_laws: "head_laws demo_head_ops"
  by (auto simp: head_laws_def demo_head_ops_def)

definition demo_draws :: "(unit, unit) draws" where
  "demo_draws = \<lparr>dr_now = 1000000000, dr_nonce = Some (replicate 16 65), dr_slot = True, dr_ephem_priv = Some (),
     dr_ephem_pub = Some (), dr_iv = Some (replicate 12 7)\<rparr>"

lemma demo_draws_ok: "draws_ok demo_reading demo_draws"
  by (simp add: draws_ok_def demo_draws_def demo_reading_def i64_max_def)

definition demo_uri :: uri where
  "demo_uri = \<lparr>GetScheme = Some (bytes ''https''), GetAsciiHost = Some (bytes ''host''), GetPathQueryRef = Some (bytes ''/#top'')\<rparr>"

definition demo_upload :: "upload_stream option" where
  "demo_upload = Some \<lparr>us_cloneable = Some True, us_clone = Inr [Inr [1, 2], Inr [3]]\<rparr>"

definition demo_browser :: "unit browser_state" where
  "demo_browser = \<lparr>bs_keys = keys_init demo_table, bs_machine = \<lparr>sMachineCertScanned = False, sMachineCertBase64 = None\<rparr>\<rparr>"

definition demo_run_browser :: "(ns_error + unit) \<times> demo_head \<times> unit browser_state" where
  "demo_run_browser = AddAttestHeaders demo_nss demo_head_ops None demo_table demo_draws demo_uri demo_upload 3 Map.empty demo_browser"

lemma demo_keys: "keys_inv demo_nss demo_table (bs_keys demo_browser)"
  by (simp add: demo_browser_def keys_inv_init)

lemma demo_claim: "List.find (claims (bytes ''host'')) demo_table = Some (hd demo_table)"
  by (simp add: demo_table_def claims_def)

lemma demo_import: "import_key demo_nss (hd demo_table) = Some ()"
  by (simp add: import_key_def demo_table_def demo_nss_def)

lemma demo_minted:
  obtains ts nonce tok where "minted demo_nss demo_head_ops demo_table demo_draws demo_uri demo_upload 3 Map.empty
    (bs_keys demo_browser) = Inr (ts, nonce, tok)"
proof -
  have "bytes ''host'' \<noteq> []" by (simp add: bytes_def utf8_ascii str_def)
  then show thesis
    using that demo_claim demo_import
    unfolding minted_iff [OF demo_keys]
    by (simp add: demo_uri_def demo_draws_def demo_upload_def ShouldSkipBodyHash_def kMaxBoundBodyBytes_def HashBody_def
        seal_token_def) (simp add: demo_nss_def)
qed

theorem attested_for_claiming_proxy_only_witness:
  "\<exists>head' bs' tok. AddAttestHeaders demo_nss demo_head_ops None demo_table demo_draws demo_uri demo_upload 3 Map.empty
     demo_browser = (Inr (), head', bs') \<and> keys_inv demo_nss demo_table (bs_keys bs') \<and>
     GetHeader demo_head_ops head' X_TOKEN = Some tok"
proof -
  obtain r head' bs' where a: "AddAttestHeaders demo_nss demo_head_ops None demo_table demo_draws demo_uri demo_upload 3
      Map.empty demo_browser = (r, head', bs')"
    using prod_cases3 by blast
  obtain ts nonce tok where m: "minted demo_nss demo_head_ops demo_table demo_draws demo_uri demo_upload 3 Map.empty
      (bs_keys demo_browser) = Inr (ts, nonce, tok)"
    by (rule demo_minted)
  from attached_values [OF demo_head_laws a m] attested_for_claiming_proxy_only [OF demo_head_laws demo_keys a] a
  show ?thesis by blast
qed

definition broken_upload :: "upload_stream option" where
  "broken_upload = Some \<lparr>us_cloneable = Some True, us_clone = Inr [Inr [1], Inl NS_ERROR_FAILURE]\<rparr>"

theorem blocked_only_by_body_hash_witness:
  "\<exists>bs'. AddAttestHeaders demo_nss demo_head_ops None demo_table demo_draws demo_uri broken_upload 3 Map.empty
     demo_browser = (Inl NS_ERROR_FAILURE, ClearHeader demo_head_ops X_MACHINE Map.empty, bs')"
proof -
  obtain r head' bs' where a: "AddAttestHeaders demo_nss demo_head_ops None demo_table demo_draws demo_uri broken_upload 3
      Map.empty demo_browser = (r, head', bs')"
    using prod_cases3 by blast
  have "GetAsciiHost demo_uri = Some (bytes ''host'')" "bytes ''host'' \<noteq> []" "GetPathQueryRef demo_uri = Some (bytes ''/#top'')"
    "dr_nonce demo_draws = Some (replicate 16 65)" "Base64Encode demo_nss (replicate 16 65) = Some (letters (replicate 16 65))"
    "\<not> ShouldSkipBodyHash broken_upload 3" "HashBody demo_nss broken_upload = Inl NS_ERROR_FAILURE"
    by (simp_all add: demo_uri_def bytes_def utf8_ascii str_def demo_draws_def demo_nss_def ShouldSkipBodyHash_def
        kMaxBoundBodyBytes_def HashBody_def broken_upload_def)
  then have "r = Inl NS_ERROR_FAILURE \<and> head' = ClearHeader demo_head_ops X_MACHINE Map.empty"
    using blocked_only_by_body_hash [OF demo_head_laws demo_keys a, of NS_ERROR_FAILURE] demo_claim demo_import by blast
  with a show ?thesis by blast
qed

definition demo_windows :: win_ops where
  "demo_windows = \<lparr>win_name_size = (\<lambda>_. Some 3), win_name = (\<lambda>_. Some (bytes ''pc'')),
     win_store = (\<lambda>l. if l = LocalMachine then
       Some [\<lparr>cx_x509 = True, cx_der = [48, 1], cx_time_valid = True, cx_cn_count = 3, cx_cn_copied = 3,
         cx_cn = bytes ''PC'', cx_not_after = 9\<rparr>] else None)\<rparr>"

lemma demo_certificate: "first_store (\<lambda>bs. Some (letters bs)) demo_windows (computer_names demo_windows)
    kMachineCertStoreLocations = Some (letters [48, 1])"
proof -
  have names: "computer_names demo_windows = [bytes ''pc'']"
    by (simp add: computer_names_def AppendComputerName_def demo_windows_def bytes_def utf8_ascii str_def same_ignoring_case_def)
  have "same_ignoring_case (bytes ''PC'') (bytes ''pc'')"
    by (simp add: same_ignoring_case_def bytes_def utf8_ascii str_def byte_lower_def to_ascii_lower_def)
  moreover have "length (bytes ''PC'') = 2" by (simp add: bytes_def utf8_ascii str_def)
  ultimately show ?thesis
    unfolding names by (simp add: kMachineCertStoreLocations_def Let_def FindMachineCertificateInStore_def demo_windows_def
        usable_certificate_def kMaxMachineCertDerBytes_def CertificateNamesComputer_def)
qed

theorem machine_certificate_genuine_witness:
  "\<exists>head' bs'. AddAttestHeaders demo_nss demo_head_ops (Some demo_windows) demo_table demo_draws demo_uri demo_upload 3
      Map.empty demo_browser = (Inr (), head', bs') \<and>
     machine_inv (Base64Encode demo_nss) demo_windows (bs_machine bs') \<and>
     GetHeader demo_head_ops head' X_MACHINE = Some (letters [48, 1])"
proof -
  obtain r head' bs' where a: "AddAttestHeaders demo_nss demo_head_ops (Some demo_windows) demo_table demo_draws demo_uri
      demo_upload 3 Map.empty demo_browser = (r, head', bs')"
    using prod_cases3 by blast
  obtain ts nonce tok where m: "minted demo_nss demo_head_ops demo_table demo_draws demo_uri demo_upload 3 Map.empty
      (bs_keys demo_browser) = Inr (ts, nonce, tok)"
    by (rule demo_minted)
  have inv: "machine_inv (Base64Encode demo_nss) demo_windows (bs_machine demo_browser)"
    by (simp add: machine_inv_def demo_browser_def)
  have names: "computer_names demo_windows \<noteq> []"
    by (simp add: computer_names_def AppendComputerName_def demo_windows_def bytes_def utf8_ascii str_def same_ignoring_case_def)
  have "GetHeader demo_head_ops head' X_MACHINE = Some (letters [48, 1])"
    using AddAttestHeaders_cases [OF demo_head_laws a] m demo_certificate names
    by (simp add: add_machine_header_def GetMachineCertificateBase64_def EnsureMachineCertificateLoaded_def demo_browser_def
        Let_def demo_nss_def) (simp add: demo_head_ops_def)
  with attached_values [OF demo_head_laws a m] a machine_certificate_genuine [OF demo_head_laws demo_keys inv _ a]
  show ?thesis by blast
qed

end
