(* ===== verification/Site_Filter.thy ===== *)
theory Site_Filter
  imports Browser_Attest
begin

text \<open>
  The browser's compile-time site filter (\<^verbatim>\<open>netwerk/base/DenBrowserSiteFilter.h\<close> of
  \<^verbatim>\<open>src/patches/014-site-filter.patch\<close>), which every HTTP channel passes before anything is sent.  The
  lists are what the build injects; a null pointer ends each, so they are lists here.
\<close>

section \<open>The filter\<close>

definition SiteHostMatches :: "byte list \<Rightarrow> byte list \<Rightarrow> bool" where
  "SiteHostMatches aHost pat =
     (if aHost = pat then True
      else if length aHost > length pat + 1 then
        aHost ! (length aHost - length pat - 1) = 46 \<and> drop (length aHost - length pat) aHost = pat
      else False)"

fun whitelisted :: "byte list list \<Rightarrow> byte list \<Rightarrow> bool" where
  "whitelisted [] host = False"
| "whitelisted (d # ds) host = (if SiteHostMatches host d then True else whitelisted ds host)"

fun not_blacklisted :: "byte list list \<Rightarrow> byte list \<Rightarrow> bool" where
  "not_blacklisted [] host = True"
| "not_blacklisted (d # ds) host = (if SiteHostMatches host d then False else not_blacklisted ds host)"

definition SiteAllowed :: "byte list list \<Rightarrow> byte list list \<Rightarrow> uri option \<Rightarrow> bool" where
  "SiteAllowed wl bl aURI =
     (case aURI of
        None \<Rightarrow> False
      | Some u \<Rightarrow>
          (case GetScheme u of
             None \<Rightarrow> False
           | Some scheme \<Rightarrow>
               if scheme \<noteq> bytes ''http'' \<and> scheme \<noteq> bytes ''https'' then True
               else (case GetAsciiHost u of
                       None \<Rightarrow> False
                     | Some host \<Rightarrow>
                         if host = [] then False
                         else if wl \<noteq> [] then whitelisted wl host else not_blacklisted bl host)))"

section \<open>What it lets through\<close>

lemma SiteHostMatches_iff:
  "SiteHostMatches aHost pat \<longleftrightarrow> aHost = pat \<or> (\<exists>sub. sub \<noteq> [] \<and> aHost = sub @ 46 # pat)"
  unfolding SiteHostMatches_def using ProxyHostMatch_iff [of aHost pat] unfolding ProxyHostMatch_def .

definition within :: "byte list \<Rightarrow> byte list list \<Rightarrow> bool" where
  "within host ds \<longleftrightarrow> (\<exists>d \<in> set ds. host = d \<or> (\<exists>sub. sub \<noteq> [] \<and> host = sub @ 46 # d))"

lemma whitelisted_within: "whitelisted ds host \<longleftrightarrow> within host ds"
  by (induction ds host rule: whitelisted.induct) (auto simp: within_def SiteHostMatches_iff)

lemma not_blacklisted_within: "not_blacklisted ds host \<longleftrightarrow> \<not> within host ds"
  by (induction ds host rule: not_blacklisted.induct) (auto simp: within_def SiteHostMatches_iff)

text \<open>
  C33. The site filter.  A channel for http or https is let through exactly when its URI has a host
  that lies within the whitelist, or, when there is no whitelist, outside the blacklist; other
  schemes pass, a missing URI, scheme or host does not.  Lying within a list is the rule by which
  the attestation table claims a host, so with the table's domains as whitelist every http or https
  request that is let through is one some proxy claims.
\<close>

theorem site_filter_decides:
  "SiteAllowed wl bl aURI =
     (\<exists>u scheme. aURI = Some u \<and> GetScheme u = Some scheme \<and>
       (if scheme \<in> {bytes ''http'', bytes ''https''}
        then \<exists>host. GetAsciiHost u = Some host \<and> host \<noteq> [] \<and>
          (if wl = [] then \<not> within host bl else within host wl)
        else True)) \<and>
   (within host (concat (map mDomains tbl)) = (List.find (claims host) tbl \<noteq> None)) \<and>
   SiteHostMatches host d = ProxyHostMatch host d"
proof -
  have "within host (concat (map mDomains tbl)) = (List.find (claims host) tbl \<noteq> None)"
    unfolding find_None_iff by (auto simp: within_def claims_def)
  moreover have "SiteHostMatches host d = ProxyHostMatch host d"
    by (simp add: SiteHostMatches_def ProxyHostMatch_def)
  moreover have "SiteAllowed wl bl aURI =
     (\<exists>u scheme. aURI = Some u \<and> GetScheme u = Some scheme \<and>
       (if scheme \<in> {bytes ''http'', bytes ''https''}
        then \<exists>host. GetAsciiHost u = Some host \<and> host \<noteq> [] \<and>
          (if wl = [] then \<not> within host bl else within host wl)
        else True))"
    by (auto simp: SiteAllowed_def whitelisted_within not_blacklisted_within split: option.splits)
  ultimately show ?thesis by blast
qed

end
