(* ===== verification/Launch_Policy.thy ===== *)
theory Launch_Policy
  imports Prelude
begin

text \<open>
  The command lines DenBrowser accepts on Windows: \<^verbatim>\<open>DenBrowserLaunchPolicy.h\<close> and the gate at the start
  of \<^verbatim>\<open>LauncherMain\<close> (\<^verbatim>\<open>src/patches/015-strip-blocked-args.patch\<close>), and the same grammar applied to what another
  process sends to a running browser (\<^verbatim>\<open>src/patches/026-restrict-remote-commands.patch\<close>).

  A \<^verbatim>\<open>wchar_t*\<close> is the list of 16-bit units before the terminating zero, a null pointer \<open>None\<close>; \<^verbatim>\<open>argc\<close> is the
  length of \<^verbatim>\<open>argv\<close>.  The comparisons that ignore case fold ASCII letters: no other unit folds to a letter
  of the words compared with.
\<close>

type_synonym wstr = "16 word list"

section \<open>Wide strings\<close>

definition wide :: "string \<Rightarrow> wstr" where
  "wide s = map of_char s"

definition wchar_lower :: "16 word \<Rightarrow> 16 word" where
  "wchar_lower c = of_nat (to_ascii_lower (unat c))"

text \<open>\<^verbatim>\<open>_wcsicmp\<close> and \<^verbatim>\<open>_wcsnicmp\<close> finding no difference; past its end a string has the terminating zero.\<close>

definition wcsieq :: "wstr \<Rightarrow> wstr \<Rightarrow> bool" where
  "wcsieq a b \<longleftrightarrow> map wchar_lower a = map wchar_lower b"

definition wcsnieq :: "wstr \<Rightarrow> wstr \<Rightarrow> nat \<Rightarrow> bool" where
  "wcsnieq a b n \<longleftrightarrow> map wchar_lower (take n a) = map wchar_lower (take n b)"

section \<open>The policy\<close>

definition kMaximumLaunchUrlLength :: nat where
  "kMaximumLaunchUrlLength = 8192"

text \<open>The units no launch URL contains: up to the space, delete, quotes, angle brackets, backslash.\<close>

definition refused_unit :: "16 word \<Rightarrow> bool" where
  "refused_unit ch \<longleftrightarrow> ch \<le> 0x20 \<or> ch = 0x7f \<or> ch = 34 \<or> ch = 60 \<or> ch = 62 \<or> ch = 92"

text \<open>The first loop: the length found, which stops just above the maximum, or \<open>None\<close> at a refused unit.\<close>

fun scan_units :: "wstr \<Rightarrow> nat \<Rightarrow> nat option" where
  "scan_units [] len = Some len"
| "scan_units (ch # rest) len =
     (if len \<le> kMaximumLaunchUrlLength
      then if refused_unit ch then None else scan_units rest (len + 1)
      else Some len)"

text \<open>The second loop: the authority, up to a slash, a question mark or a hash; \<open>None\<close> at an at sign.\<close>

fun scan_authority :: "wstr \<Rightarrow> wstr option" where
  "scan_authority [] = Some []"
| "scan_authority (ch # rest) =
     (if ch = 47 \<or> ch = 63 \<or> ch = 35 then Some []
      else if ch = 64 then None else map_option ((#) ch) (scan_authority rest))"

definition scheme_length :: "wstr \<Rightarrow> nat \<Rightarrow> nat option" where
  "scheme_length v len =
     (if len \<ge> 7 \<and> wcsnieq v (wide ''http://'') 7 then Some 7
      else if len \<ge> 8 \<and> wcsnieq v (wide ''https://'') 8 then Some 8 else None)"

definition IsAllowedWebUrl :: "wstr option \<Rightarrow> bool" where
  "IsAllowedWebUrl aValue =
     (case aValue of
        None \<Rightarrow> False
      | Some v \<Rightarrow>
          (case scan_units v 0 of
             None \<Rightarrow> False
           | Some len \<Rightarrow>
               if len = 0 \<or> len > kMaximumLaunchUrlLength then False
               else (case scheme_length v len of
                       None \<Rightarrow> False
                     | Some schemeLength \<Rightarrow>
                         (case scan_authority (drop schemeLength v) of
                            None \<Rightarrow> False
                          | Some authority \<Rightarrow>
                              if authority = [] \<or> hd authority = 58 then False
                              else if hd authority = 91 then
                                (let inside = takeWhile (\<lambda>ch. ch \<noteq> 93) (tl authority)
                                 in \<not> (length inside = length (tl authority) \<or> inside = []))
                              else True))))"

definition UnwrapDenLinkUrl :: "wstr option \<Rightarrow> wstr option" where
  "UnwrapDenLinkUrl aValue =
     (case aValue of
        None \<Rightarrow> None
      | Some v \<Rightarrow>
          if \<not> wcsnieq v (wide ''den:'') 4 then None
          else (let inner = drop 4 v in Some (if take 2 inner = wide ''//'' then drop 2 inner else inner)))"

definition UnwrapDenLinkArgument :: "wstr option list \<Rightarrow> wstr option list" where
  "UnwrapDenLinkArgument argv =
     (let argc = length argv in
      if argc < 4 \<or> argv ! (argc - 3) \<noteq> Some (wide ''-osint'') \<or> argv ! (argc - 2) \<noteq> Some (wide ''-url'') then argv
      else (case UnwrapDenLinkUrl (argv ! (argc - 1)) of
              None \<Rightarrow> argv
            | Some inner \<Rightarrow> argv[argc - 1 := Some inner]))"

definition IsAllowedBrowserCommandLine :: "wstr option list \<Rightarrow> bool" where
  "IsAllowedBrowserCommandLine argv =
     (if length argv < 1 \<or> argv ! 0 = None then False
      else if length argv = 1 then True
      else length argv = 4 \<and> argv ! 1 = Some (wide ''-osint'') \<and> argv ! 2 = Some (wide ''-url'') \<and>
        IsAllowedWebUrl (argv ! 3))"

definition IsContentProcessFlag :: "wstr option \<Rightarrow> bool" where
  "IsContentProcessFlag aArg =
     (case aArg of
        Some (c # rest) \<Rightarrow>
          if c = 47 then wcsieq rest (wide ''contentproc'')
          else if c = 45 then
            wcsieq (case rest of d # rest' \<Rightarrow> if d = 45 then rest' else rest | [] \<Rightarrow> rest) (wide ''contentproc'')
          else False
      | _ \<Rightarrow> False)"

definition HasContentProcessFlag :: "wstr option list \<Rightarrow> bool" where
  "HasContentProcessFlag argv = list_ex IsContentProcessFlag (drop 1 argv)"

definition IsCanonicalContentProcessCommandLine :: "wstr option list \<Rightarrow> bool" where
  "IsCanonicalContentProcessCommandLine argv =
     (if length argv < 4 \<or> argv ! 1 \<noteq> Some (wide ''-contentproc'') then False
      else \<not> list_ex IsContentProcessFlag (drop 2 argv))"

text \<open>
  The gate of \<^verbatim>\<open>LauncherMain\<close>: the process exits, goes on as a child of the browser, or goes on to launch
  with the arguments given.  Whether the process was authorised by a launcher, whether the build has
  the launcher process, and what \<^verbatim>\<open>IsSameBinaryAsParentProcess\<close> answers (\<open>None\<close> an error) are parameters.
\<close>

datatype gate = Exit int | Child | Launch "wstr option list"

definition LauncherMain_gate :: "bool \<Rightarrow> bool \<Rightarrow> bool option \<Rightarrow> wstr option list \<Rightarrow> gate" where
  "LauncherMain_gate launcher_process authorizedBrowser sameParent argv =
     (if HasContentProcessFlag argv then
        if authorizedBrowser \<or> \<not> IsCanonicalContentProcessCommandLine argv then Exit 127
        else if launcher_process then
          (case sameParent of
             None \<Rightarrow> Exit 127
           | Some same \<Rightarrow> if \<not> same then Exit 127 else Child)
        else Exit 127
      else (let argv' = UnwrapDenLinkArgument argv in
            if \<not> IsAllowedBrowserCommandLine argv' then Exit 127 else Launch argv'))"

text \<open>
  \<^verbatim>\<open>IsAllowedDenBrowserRemoteArguments\<close>; \<open>IsUtf8\<close> and the conversion to UTF-16 are Firefox's.  An argument that
  is converted is not null.
\<close>

fun wide_args :: "(byte list \<Rightarrow> bool) \<Rightarrow> (byte list \<Rightarrow> wstr) \<Rightarrow> byte list list \<Rightarrow> wstr list option" where
  "wide_args is_utf8 to_utf16 [] = Some []"
| "wide_args is_utf8 to_utf16 (arg # args) =
     (if \<not> is_utf8 arg then None else map_option ((#) (to_utf16 arg)) (wide_args is_utf8 to_utf16 args))"

definition IsAllowedDenBrowserRemoteArguments ::
  "(byte list \<Rightarrow> bool) \<Rightarrow> (byte list \<Rightarrow> wstr) \<Rightarrow> byte list list \<Rightarrow> bool" where
  "IsAllowedDenBrowserRemoteArguments is_utf8 to_utf16 aArgv =
     (if length aArgv > 4 then False
      else (case wide_args is_utf8 to_utf16 aArgv of
              None \<Rightarrow> False
            | Some wideArgv \<Rightarrow> IsAllowedBrowserCommandLine (map Some wideArgv)))"

section \<open>The URLs that can be launched\<close>

text \<open>What the header calls the grammar, without loops: a scheme, a plain authority and the rest.\<close>

definition bracketed :: "wstr \<Rightarrow> bool" where
  "bracketed authority \<longleftrightarrow> (\<exists>inside after. authority = 91 # inside @ 93 # after \<and> inside \<noteq> [] \<and> 93 \<notin> set inside)"

definition web_url :: "wstr \<Rightarrow> bool" where
  "web_url v \<longleftrightarrow> length v \<le> kMaximumLaunchUrlLength \<and> (\<forall>ch \<in> set v. \<not> refused_unit ch) \<and>
     (\<exists>scheme authority rest. v = scheme @ authority @ rest \<and>
        (wcsieq scheme (wide ''http://'') \<or> wcsieq scheme (wide ''https://'')) \<and>
        set authority \<inter> {47, 63, 35, 64} = {} \<and> (rest = [] \<or> hd rest \<in> {47, 63, 35}) \<and>
        authority \<noteq> [] \<and> hd authority \<noteq> 58 \<and> (hd authority = 91 \<longrightarrow> bracketed authority))"

lemma scan_units_Some:
  "scan_units v len = Some n \<and> len \<le> kMaximumLaunchUrlLength \<and> n \<le> kMaximumLaunchUrlLength \<longleftrightarrow>
     n = len + length v \<and> n \<le> kMaximumLaunchUrlLength \<and> (\<forall>ch \<in> set v. \<not> refused_unit ch)"
proof (induction v len rule: scan_units.induct)
  case (2 ch rest len)
  then show ?case by (cases "len + 1 \<le> kMaximumLaunchUrlLength"; cases rest) auto
qed auto

lemma scan_authority_Some:
  "scan_authority v = Some a \<longleftrightarrow>
     (\<exists>rest. v = a @ rest \<and> set a \<inter> {47, 63, 35, 64} = {} \<and> (rest = [] \<or> hd rest \<in> {47, 63, 35}))"
proof (induction v arbitrary: a)
  case (Cons ch v)
  show ?case
  proof (cases a)
    case Nil
    then show ?thesis by auto
  next
    case (Cons b a')
    then show ?thesis using Cons.IH [of a'] by auto
  qed
qed auto

lemma takeWhile_until: "x \<notin> set xs \<Longrightarrow> takeWhile (\<lambda>c. c \<noteq> x) (xs @ x # ys) = xs"
  by (induction xs) auto

lemma bracket_closes:
  "bracketed authority \<longleftrightarrow>
     authority \<noteq> [] \<and> hd authority = 91 \<and> length (takeWhile (\<lambda>ch. ch \<noteq> 93) (tl authority)) \<noteq> length (tl authority) \<and>
     takeWhile (\<lambda>ch. ch \<noteq> 93) (tl authority) \<noteq> ([] :: wstr)" (is "?l \<longleftrightarrow> ?r")
proof
  assume ?l
  then obtain i r where "authority = 91 # i @ 93 # r" "i \<noteq> []" "93 \<notin> set i" unfolding bracketed_def by blast
  moreover from this(3) have "takeWhile (\<lambda>ch. ch \<noteq> 93) (i @ 93 # r) = i" by (rule takeWhile_until)
  ultimately show ?r by simp
next
  assume r: ?r
  let ?t = "tl authority"
  have "dropWhile (\<lambda>ch. ch \<noteq> 93) ?t \<noteq> []"
    using r takeWhile_dropWhile_id [of "\<lambda>ch. ch \<noteq> 93" ?t] by (metis append_Nil2)
  then obtain after where "dropWhile (\<lambda>ch. ch \<noteq> 93) ?t = 93 # after"
    by (metis (mono_tags) hd_dropWhile list.collapse)
  then have "?t = takeWhile (\<lambda>ch. ch \<noteq> 93) ?t @ 93 # after" by (metis takeWhile_dropWhile_id)
  moreover have "93 \<notin> set (takeWhile (\<lambda>ch. ch \<noteq> 93) ?t)" by (auto dest: set_takeWhileD)
  moreover have "authority = 91 # ?t" using r by (metis list.collapse)
  ultimately show ?l using r unfolding bracketed_def by metis
qed

lemma wcsieq_length: "wcsieq a b \<Longrightarrow> length a = length b"
  unfolding wcsieq_def by (metis length_map)

lemma length_wide [simp]: "length (wide s) = length s"
  by (simp add: wide_def)

lemma schemes_differ: "wcsnieq v (wide ''https://'') 8 \<Longrightarrow> \<not> wcsnieq v (wide ''http://'') 7"
proof
  assume a: "wcsnieq v (wide ''https://'') 8" "wcsnieq v (wide ''http://'') 7"
  have "map wchar_lower (take 7 v) = take 7 (map wchar_lower (take 8 v))" by (simp add: take_map)
  with a have "take 7 (map wchar_lower (take 8 (wide ''https://''))) = map wchar_lower (take 7 (wide ''http://''))"
    by (simp only: wcsnieq_def)
  then show False by (simp add: wide_def wchar_lower_def to_ascii_lower_def)
qed

lemma scheme_length_Some:
  "scheme_length v (length v) = Some n \<longleftrightarrow> n \<le> length v \<and>
     (wcsieq (take n v) (wide ''http://'') \<or> wcsieq (take n v) (wide ''https://''))"
proof -
  have e: "wcsnieq v (wide ''http://'') 7 = wcsieq (take 7 v) (wide ''http://'')"
    "wcsnieq v (wide ''https://'') 8 = wcsieq (take 8 v) (wide ''https://'')"
    by (simp_all add: wcsnieq_def wcsieq_def)
  have l: "n \<le> length v \<Longrightarrow> wcsieq (take n v) (wide ''http://'') \<Longrightarrow> n = 7"
    "n \<le> length v \<Longrightarrow> wcsieq (take n v) (wide ''https://'') \<Longrightarrow> n = 8"
    by (drule wcsieq_length, simp)+
  show ?thesis
    using l schemes_differ [of v] unfolding scheme_length_def e by (auto split: if_splits)
qed

lemma IsAllowedWebUrl_unfolded:
  "IsAllowedWebUrl (Some v) \<longleftrightarrow> length v \<le> kMaximumLaunchUrlLength \<and> (\<forall>ch \<in> set v. \<not> refused_unit ch) \<and>
     (\<exists>n authority. scheme_length v (length v) = Some n \<and> scan_authority (drop n v) = Some authority \<and>
        authority \<noteq> [] \<and> hd authority \<noteq> 58 \<and> (hd authority = 91 \<longrightarrow> bracketed authority))"
proof (cases "length v \<le> kMaximumLaunchUrlLength \<and> (\<forall>ch \<in> set v. \<not> refused_unit ch)")
  case True
  then have "scan_units v 0 = Some (length v)"
    using scan_units_Some [of v 0 "length v"] by simp
  moreover have "scheme_length v (length v) = None" if "v = []" using that by (simp add: scheme_length_def)
  ultimately show ?thesis
    using True by (auto simp: IsAllowedWebUrl_def Let_def bracket_closes simp del: length_tl split: option.splits)
next
  case False
  then have "scan_units v 0 = Some n \<Longrightarrow> n > kMaximumLaunchUrlLength" for n
    using scan_units_Some [of v 0 n] by (cases "n \<le> kMaximumLaunchUrlLength") auto
  then have "\<not> IsAllowedWebUrl (Some v)" by (auto simp: IsAllowedWebUrl_def split: option.splits)
  with False show ?thesis by blast
qed

lemma IsAllowedWebUrl_iff: "IsAllowedWebUrl (Some v) \<longleftrightarrow> web_url v"
proof -
  have "(\<exists>n authority. scheme_length v (length v) = Some n \<and> scan_authority (drop n v) = Some authority \<and> P authority) \<longleftrightarrow>
      (\<exists>scheme authority rest. v = scheme @ authority @ rest \<and>
        (wcsieq scheme (wide ''http://'') \<or> wcsieq scheme (wide ''https://'')) \<and>
        set authority \<inter> {47, 63, 35, 64} = {} \<and> (rest = [] \<or> hd rest \<in> {47, 63, 35}) \<and> P authority)" (is "?l \<longleftrightarrow> ?r") for P
  proof
    assume ?l
    then obtain n a rest where "n \<le> length v" "wcsieq (take n v) (wide ''http://'') \<or> wcsieq (take n v) (wide ''https://'')"
      "drop n v = a @ rest" "set a \<inter> {47, 63, 35, 64} = {}" "rest = [] \<or> hd rest \<in> {47, 63, 35}" "P a"
      unfolding scheme_length_Some scan_authority_Some by (elim exE conjE) (rule that)
    moreover from this(3) have "v = take n v @ a @ rest" by (metis append_take_drop_id)
    ultimately show ?r by (intro exI [of _ "take n v"] exI [of _ a] exI [of _ rest]) simp
  next
    assume ?r
    then obtain scheme a rest where "v = scheme @ a @ rest"
      "wcsieq scheme (wide ''http://'') \<or> wcsieq scheme (wide ''https://'')"
      "set a \<inter> {47, 63, 35, 64} = {}" "rest = [] \<or> hd rest \<in> {47, 63, 35}" "P a" by (elim exE conjE) (rule that)
    then have "scheme_length v (length v) = Some (length scheme)" "scan_authority (drop (length scheme) v) = Some a" "P a"
      unfolding scheme_length_Some scan_authority_Some by auto
    then show ?l by blast
  qed
  then show ?thesis unfolding IsAllowedWebUrl_unfolded web_url_def by simp
qed

section \<open>The command lines that launch\<close>

lemma web_url_head: "web_url u \<Longrightarrow> \<exists>c r. u = c # r \<and> wchar_lower c = 104"
proof -
  assume "web_url u"
  then obtain scheme rest where u: "u = scheme @ rest"
    "wcsieq scheme (wide ''http://'') \<or> wcsieq scheme (wide ''https://'')"
    unfolding web_url_def by (elim exE conjE) (rule that)
  have "map wchar_lower (wide ''http://'') = 104 # map wchar_lower (wide ''ttp://'')"
    "map wchar_lower (wide ''https://'') = 104 # map wchar_lower (wide ''ttps://'')"
    by (simp_all add: wide_def wchar_lower_def to_ascii_lower_def)
  with u show ?thesis unfolding wcsieq_def by (cases scheme) auto
qed

lemma web_url_no_flag: "web_url u \<Longrightarrow> \<not> IsContentProcessFlag (Some u) \<and> take 2 u \<noteq> wide ''//'' \<and> UnwrapDenLinkUrl (Some u) = None"
  by (drule web_url_head)
    (auto simp: IsContentProcessFlag_def UnwrapDenLinkUrl_def wcsnieq_def wide_def wchar_lower_def to_ascii_lower_def)

text \<open>An argument of \<^verbatim>\<open>-url\<close> that stands for a URL: the URL itself or one \<^verbatim>\<open>den:\<close> link around it.\<close>

definition stands_for :: "wstr \<Rightarrow> wstr \<Rightarrow> bool" where
  "stands_for arg u \<longleftrightarrow> arg = u \<or> (\<exists>den. wcsieq den (wide ''den:'') \<and> (arg = den @ u \<or> arg = den @ wide ''//'' @ u))"

lemma unwrap_Some:
  assumes "web_url u"
  shows "UnwrapDenLinkUrl (Some arg) = Some u \<longleftrightarrow>
     (\<exists>den. wcsieq den (wide ''den:'') \<and> (arg = den @ u \<or> arg = den @ wide ''//'' @ u))" (is "?l \<longleftrightarrow> ?r")
proof
  assume ?l
  then have "wcsieq (take 4 arg) (wide ''den:'')" "drop 4 arg = u \<or> drop 4 arg = wide ''//'' @ u"
    using append_take_drop_id [of 2 "drop 4 arg"]
    by (auto simp: UnwrapDenLinkUrl_def wcsnieq_def wcsieq_def Let_def simp del: append_take_drop_id split: if_splits)
  then show ?r by (metis append_take_drop_id)
next
  assume ?r
  then obtain den where d: "wcsieq den (wide ''den:'')" "arg = den @ u \<or> arg = den @ wide ''//'' @ u" by blast
  moreover have "length den = 4" using wcsieq_length [OF d(1)] by simp
  moreover have "length (wide ''//'') = 2" by simp
  ultimately show ?l
    using web_url_no_flag [OF assms] by (auto simp: UnwrapDenLinkUrl_def wcsnieq_def wcsieq_def Let_def)
qed

lemma stands_for_no_flag:
  assumes "web_url u" "stands_for arg u"
  shows "\<not> IsContentProcessFlag (Some arg)"
proof (cases "arg = u")
  case False
  then obtain den rest where "wcsieq den (wide ''den:'')" "arg = den @ rest" using assms(2) by (auto simp: stands_for_def)
  moreover have "map wchar_lower (wide ''den:'') = 100 # map wchar_lower (wide ''en:'')"
    by (simp add: wide_def wchar_lower_def to_ascii_lower_def)
  ultimately obtain c r where "arg = c # r" "wchar_lower c = 100" unfolding wcsieq_def by (cases den) auto
  then show ?thesis by (auto simp: IsContentProcessFlag_def wchar_lower_def to_ascii_lower_def)
qed (use assms web_url_no_flag in simp)

lemma own_flags: "\<not> IsContentProcessFlag (Some (wide ''-osint''))" "\<not> IsContentProcessFlag (Some (wide ''-url''))"
    "IsContentProcessFlag (Some (wide ''-contentproc''))"
  by (simp_all add: IsContentProcessFlag_def wcsieq_def wide_def wchar_lower_def to_ascii_lower_def)

abbreviation os_launch :: "wstr \<Rightarrow> wstr \<Rightarrow> wstr option list" where
  "os_launch exe url \<equiv> [Some exe, Some (wide ''-osint''), Some (wide ''-url''), Some url]"

lemma four_arguments: "length xs = 4 \<Longrightarrow> \<exists>a b c d. xs = [a, b, c, d]"
  by (auto simp: numeral_eq_Suc length_Suc_conv)

lemma IsAllowedBrowserCommandLine_iff:
  "IsAllowedBrowserCommandLine argv \<longleftrightarrow> (\<exists>exe. argv = [Some exe] \<or> (\<exists>u. argv = os_launch exe u \<and> web_url u))"
proof -
  consider "length argv = 0" | "length argv = 1" | "length argv = 4" | "length argv \<notin> {0, 1, 4}" by auto
  then show ?thesis
  proof cases
    case 2
    then obtain a where "argv = [a]" by (auto simp: length_Suc_conv)
    then show ?thesis by (auto simp: IsAllowedBrowserCommandLine_def)
  next
    case 3
    then obtain a b c d where "argv = [a, b, c, d]" using four_arguments by blast
    then show ?thesis
      by (cases d) (auto simp: IsAllowedBrowserCommandLine_def IsAllowedWebUrl_iff, simp add: IsAllowedWebUrl_def)
  qed (auto simp: IsAllowedBrowserCommandLine_def)
qed

lemma length_unwrap [simp]: "length (UnwrapDenLinkArgument argv) = length argv"
  by (auto simp: UnwrapDenLinkArgument_def Let_def split: option.splits)

lemma unwrap_os_launch:
  "web_url u \<Longrightarrow> UnwrapDenLinkArgument argv = os_launch exe u \<longleftrightarrow> (\<exists>arg. argv = os_launch exe arg \<and> stands_for arg u)"
proof -
  assume u: "web_url u"
  have "UnwrapDenLinkArgument (os_launch exe arg) = os_launch exe u \<longleftrightarrow> stands_for arg u" for arg
    using web_url_no_flag [OF u] unwrap_Some [OF u, of arg]
    by (auto simp: UnwrapDenLinkArgument_def stands_for_def Let_def split: option.splits)
  moreover have "\<exists>arg. argv = os_launch exe arg" if "UnwrapDenLinkArgument argv = os_launch exe u"
  proof -
    have "length argv = length (os_launch exe u)" by (simp only: that [symmetric] length_unwrap)
    then have "length argv = 4" by simp
    then obtain a b c d where argv: "argv = [a, b, c, d]" using four_arguments by blast
    show ?thesis
      using that unfolding argv by (cases d) (auto simp: UnwrapDenLinkArgument_def UnwrapDenLinkUrl_def Let_def split: if_splits option.splits)
  qed
  ultimately show ?thesis by blast
qed

lemma unwrap_single: "UnwrapDenLinkArgument argv = [Some exe] \<longleftrightarrow> argv = [Some exe]"
proof
  assume a: "UnwrapDenLinkArgument argv = [Some exe]"
  have "length argv = length [Some exe]" by (simp only: a [symmetric] length_unwrap)
  with a show "argv = [Some exe]" by (auto simp: UnwrapDenLinkArgument_def)
qed (simp add: UnwrapDenLinkArgument_def)

lemma gate_Launch:
  "LauncherMain_gate lp auth same argv = Launch argv' \<longleftrightarrow>
     (\<exists>exe. argv = [Some exe] \<and> argv' = [Some exe]) \<or>
     (\<exists>exe arg u. argv = os_launch exe arg \<and> stands_for arg u \<and> web_url u \<and> argv' = os_launch exe u)" (is "?l \<longleftrightarrow> ?r")
proof -
  have gate: "?l \<longleftrightarrow> \<not> HasContentProcessFlag argv \<and> UnwrapDenLinkArgument argv = argv' \<and> IsAllowedBrowserCommandLine argv'"
    by (auto simp: LauncherMain_gate_def Let_def split: option.splits)
  have "UnwrapDenLinkArgument argv = argv' \<and> IsAllowedBrowserCommandLine argv' \<longleftrightarrow>
      (\<exists>exe. UnwrapDenLinkArgument argv = [Some exe] \<and> argv' = [Some exe]) \<or>
      (\<exists>exe u. web_url u \<and> UnwrapDenLinkArgument argv = os_launch exe u \<and> argv' = os_launch exe u)"
    unfolding IsAllowedBrowserCommandLine_iff by auto
  then have unwrapped: "UnwrapDenLinkArgument argv = argv' \<and> IsAllowedBrowserCommandLine argv' \<longleftrightarrow> ?r"
    unfolding unwrap_single by (auto simp: unwrap_os_launch)
  have "?r \<Longrightarrow> \<not> HasContentProcessFlag argv"
    using stands_for_no_flag own_flags by (auto simp: HasContentProcessFlag_def)
  with gate unwrapped show ?thesis by argo
qed

lemma gate_Child:
  "LauncherMain_gate lp auth same argv = Child \<longleftrightarrow>
     lp \<and> \<not> auth \<and> same = Some True \<and> IsCanonicalContentProcessCommandLine argv"
proof -
  have "IsCanonicalContentProcessCommandLine argv \<Longrightarrow> HasContentProcessFlag argv"
  proof -
    assume "IsCanonicalContentProcessCommandLine argv"
    then have "4 \<le> length argv" "argv ! 1 = Some (wide ''-contentproc'')"
      by (auto simp: IsCanonicalContentProcessCommandLine_def split: if_splits)
    moreover from this have "argv ! 1 \<in> set (drop 1 argv)" by (metis Cons_nth_drop_Suc One_nat_def list.set_intros(1) less_le_trans one_less_numeral_iff semiring_norm(76))
    ultimately show ?thesis using own_flags(3) by (auto simp: HasContentProcessFlag_def list_ex_iff)
  qed
  then show ?thesis by (auto simp: LauncherMain_gate_def Let_def split: option.splits if_splits)
qed

lemma wide_args_Some: "wide_args is_utf8 to_utf16 args = (if list_all is_utf8 args then Some (map to_utf16 args) else None)"
  by (induction args) auto

text \<open>
  C34. The launch grammar.  A start goes on to launch the browser exactly for a command line without
  arguments and for \<^verbatim>\<open>-osint -url\<close> with a web URL or one \<^verbatim>\<open>den:\<close> link around a web URL, and the browser then gets
  the URL itself: http or https, at most 8192 units, without user information, white space, quotes,
  angle brackets or backslashes.  It goes on as a child process exactly for a canonical command line
  whose parent is the same binary.  Every other start exits with 127.  A running browser accepts from
  another process exactly the valid UTF-8 command lines that the launcher would launch unchanged.
\<close>

theorem launch_grammar:
  "(LauncherMain_gate lp auth same argv = Launch argv' \<longleftrightarrow>
      (\<exists>exe. argv = [Some exe] \<and> argv' = [Some exe]) \<or>
      (\<exists>exe arg u. argv = os_launch exe arg \<and> stands_for arg u \<and> web_url u \<and> argv' = os_launch exe u)) \<and>
   (LauncherMain_gate lp auth same argv = Child \<longleftrightarrow>
      lp \<and> \<not> auth \<and> same = Some True \<and> IsCanonicalContentProcessCommandLine argv) \<and>
   LauncherMain_gate lp auth same argv \<in> {Exit 127, Child} \<union> range Launch \<and>
   (IsAllowedDenBrowserRemoteArguments is_utf8 to_utf16 args \<longleftrightarrow>
      list_all is_utf8 args \<and>
      LauncherMain_gate lp auth same (map (Some \<circ> to_utf16) args) = Launch (map (Some \<circ> to_utf16) args))"
proof (intro conjI)
  show "LauncherMain_gate lp auth same argv \<in> {Exit 127, Child} \<union> range Launch"
    by (auto simp: LauncherMain_gate_def Let_def split: option.splits)
  let ?w = "map (Some \<circ> to_utf16) args"
  have "IsAllowedBrowserCommandLine ?w \<Longrightarrow> length args \<le> 4"
    by (auto simp: IsAllowedBrowserCommandLine_def split: if_splits)
  then have "IsAllowedDenBrowserRemoteArguments is_utf8 to_utf16 args \<longleftrightarrow> list_all is_utf8 args \<and> IsAllowedBrowserCommandLine ?w"
    by (auto simp: IsAllowedDenBrowserRemoteArguments_def wide_args_Some)
  moreover have "IsAllowedBrowserCommandLine ?w \<longleftrightarrow> LauncherMain_gate lp auth same ?w = Launch ?w"
    unfolding IsAllowedBrowserCommandLine_iff gate_Launch by (auto simp: stands_for_def)
  ultimately show "IsAllowedDenBrowserRemoteArguments is_utf8 to_utf16 args \<longleftrightarrow>
      list_all is_utf8 args \<and> LauncherMain_gate lp auth same ?w = Launch ?w" by simp
qed (rule gate_Launch, rule gate_Child)

end
