(* ===== verification/Launch_Environment.thy ===== *)
theory Launch_Environment
  imports Launch_Policy Browser_Attest
begin

text \<open>
  The environment of the browser on Windows (\<^verbatim>\<open>LauncherProcessWin.cpp\<close> as
  \<^verbatim>\<open>src/patches/015-strip-blocked-args.patch\<close> writes it): the variables a launch is given, the block they are
  serialised into for the new process, how the launcher replaces its own environment by them, and
  \<^verbatim>\<open>LauncherMain\<close> from its gate up to the choice of its role.

  Windows and the C run-time library enter as the records \<open>folder_ops\<close> (the directories the system names)
  and \<open>env_api\<close> (the two environments of a process, of which \<open>env_reading\<close> says what they hold).
\<close>

section \<open>The variables\<close>

type_synonym environment = "(wstr \<times> wstr) list"

datatype known_folder = FOLDERID_LocalAppData | FOLDERID_ProgramFiles

text \<open>
  The two directory functions give the length they report and the text in the buffer;
  \<^verbatim>\<open>SHGetKnownFolderPath\<close> whether it failed and the path, if any.
\<close>

record 'tok folder_ops =
  GetWindowsDirectoryW :: "nat \<times> wstr"
  GetSystemDirectoryW :: "nat \<times> wstr"
  SHGetKnownFolderPath :: "known_folder \<Rightarrow> 'tok option \<Rightarrow> bool \<times> wstr option"

definition kBufferSize :: nat where
  "kBufferSize = 260 + 1"

definition DenBrowserGetKnownFolder :: "'tok folder_ops \<Rightarrow> known_folder \<Rightarrow> 'tok option \<Rightarrow> wstr option" where
  "DenBrowserGetKnownFolder w aFolder aToken =
     (case SHGetKnownFolderPath w aFolder aToken of
        (failed, rawPath) \<Rightarrow> if failed \<or> rawPath = None \<or> rawPath = Some [] then None else rawPath)"

text \<open>\<^verbatim>\<open>find_last_of\<close> with a backslash or a slash.\<close>

fun last_separator :: "wstr \<Rightarrow> nat option" where
  "last_separator [] = None"
| "last_separator (ch # rest) =
     (case last_separator rest of
        Some i \<Rightarrow> Some (Suc i)
      | None \<Rightarrow> if ch = 92 \<or> ch = 47 then Some 0 else None)"

definition DenBrowserGetApplicationDirectory :: "wstr option \<Rightarrow> wstr option" where
  "DenBrowserGetApplicationDirectory aBinaryPath =
     (case aBinaryPath of
        None \<Rightarrow> None
      | Some p \<Rightarrow>
          if p = [] then None
          else (case last_separator p of
                  None \<Rightarrow> None
                | Some separator \<Rightarrow>
                    if separator < 2 then None
                    else if 59 \<in> set (take separator p) then None else Some (take separator p)))"

text \<open>\<^verbatim>\<open>_wcsicmp\<close> below zero.\<close>

fun wcsicmp_less :: "wstr \<Rightarrow> wstr \<Rightarrow> bool" where
  "wcsicmp_less _ [] = False"
| "wcsicmp_less [] (_ # _) = True"
| "wcsicmp_less (a # as) (b # bs) =
     (wchar_lower a < wchar_lower b \<or> wchar_lower a = wchar_lower b \<and> wcsicmp_less as bs)"

text \<open>\<^verbatim>\<open>std::sort\<close>; the names are pairwise different, so every sort gives the same list.\<close>

fun insert_entry :: "wstr \<times> wstr \<Rightarrow> environment \<Rightarrow> environment" where
  "insert_entry e [] = [e]"
| "insert_entry e (x # xs) = (if wcsicmp_less (fst x) (fst e) then x # insert_entry e xs else e # x # xs)"

definition sort_entries :: "environment \<Rightarrow> environment" where
  "sort_entries env = foldr insert_entry env []"

fun neighbours_differ :: "environment \<Rightarrow> bool" where
  "neighbours_differ (a # b # rest) = (if wcsieq (fst a) (fst b) then False else neighbours_differ (b # rest))"
| "neighbours_differ _ = True"

definition DenBrowserBuildEnvironment :: "'tok folder_ops \<Rightarrow> 'tok option \<Rightarrow> wstr \<Rightarrow> environment option" where
  "DenBrowserBuildEnvironment w aToken aApplicationDirectory =
     (case GetWindowsDirectoryW w of (windowsLength, windowsBuffer) \<Rightarrow>
      if windowsLength = 0 \<or> windowsLength \<ge> kBufferSize then None else
      case GetSystemDirectoryW w of (systemLength, systemBuffer) \<Rightarrow>
      if systemLength = 0 \<or> systemLength \<ge> kBufferSize then None else
      let windowsDirectory = take windowsLength (windowsBuffer @ replicate kBufferSize 0) in
      if length windowsDirectory < 3 \<or> windowsDirectory ! 1 \<noteq> 58 then None else
      Option.bind (DenBrowserGetKnownFolder w FOLDERID_LocalAppData aToken) (\<lambda>localAppData.
      Option.bind (DenBrowserGetKnownFolder w FOLDERID_ProgramFiles aToken) (\<lambda>programFiles.
      let path = aApplicationDirectory @ wide '';'' @ systemBuffer @ wide '';'' @ windowsBuffer;
          temp = localAppData @ 92 # wide ''Temp'';
          env = sort_entries
            [(wide ''LOCALAPPDATA'', localAppData),
             (wide ''Path'', path),
             (wide ''ProgramFiles'', programFiles),
             (wide ''ProgramW6432'', programFiles),
             (wide ''SystemDrive'', take 2 windowsDirectory),
             (wide ''SystemRoot'', windowsDirectory),
             (wide ''TEMP'', temp),
             (wide ''TMP'', temp)]
      in if neighbours_differ env then Some env else None)))"

section \<open>The block for the new process\<close>

text \<open>The first loop of \<^verbatim>\<open>DenBrowserSerializeEnvironment\<close>: the total length, or a refusal.\<close>

fun block_length :: "environment \<Rightarrow> nat \<Rightarrow> nat option" where
  "block_length [] totalLength = Some totalLength"
| "block_length ((name, value) # rest) totalLength =
     (if name = [] \<or> 61 \<in> set name then None
      else let entryLength = length name + 1 + length value + 1 in
           if entryLength > 32767 \<or> totalLength > 32767 - entryLength then None
           else block_length rest (totalLength + entryLength))"

text \<open>Writing at the cursor; \<open>None\<close> when a unit would fall outside the allocated array.\<close>

definition poke :: "wstr \<Rightarrow> nat \<Rightarrow> wstr \<Rightarrow> wstr option" where
  "poke block cursor xs =
     (if cursor + length xs \<le> length block
      then Some (take cursor block @ xs @ drop (cursor + length xs) block) else None)"

fun write_entries :: "environment \<Rightarrow> nat \<Rightarrow> wstr \<Rightarrow> (nat \<times> wstr) option" where
  "write_entries [] cursor block = Some (cursor, block)"
| "write_entries ((name, value) # rest) cursor block =
     Option.bind (poke block cursor name) (\<lambda>block1.
     Option.bind (poke block1 (cursor + length name) [61]) (\<lambda>block2.
     Option.bind (poke block2 (cursor + length name + 1) value) (\<lambda>block3.
     Option.bind (poke block3 (cursor + length name + 1 + length value) [0]) (\<lambda>block4.
     write_entries rest (cursor + length name + 1 + length value + 1) block4))))"

datatype serialized = NoBlock | OutOfBounds | Block wstr

text \<open>\<open>allocated\<close> says whether the array could be had; it comes filled with zeros.\<close>

definition DenBrowserSerializeEnvironment :: "(nat \<Rightarrow> bool) \<Rightarrow> environment \<Rightarrow> serialized" where
  "DenBrowserSerializeEnvironment allocated aEnvironment =
     (case block_length aEnvironment 1 of
        None \<Rightarrow> NoBlock
      | Some totalLength \<Rightarrow>
          if \<not> allocated totalLength then NoBlock
          else (case Option.bind (write_entries aEnvironment 0 (replicate totalLength 0)) (\<lambda>(cursor, block).
                  poke block cursor [0]) of
                  None \<Rightarrow> OutOfBounds
                | Some block \<Rightarrow> Block block))"

section \<open>The launcher's own environment\<close>

text \<open>
  The C library's narrow environment and the native one.  \<open>putenv_s\<close> and \<open>SetEnvironmentVariableW\<close> give the
  process after a successful call; an empty value removes a variable from the former, a null one from
  the latter.  \<open>WideCharToMultiByte\<close> converts to UTF-8 and fails on units that are not UTF-16.
\<close>

record 's env_api =
  environ :: "'s \<Rightarrow> byte list list"
  putenv_s :: "byte list \<Rightarrow> byte list \<Rightarrow> 's \<Rightarrow> 's option"
  GetEnvironmentStringsW :: "'s \<Rightarrow> wstr option"
  SetEnvironmentVariableW :: "wstr \<Rightarrow> wstr option \<Rightarrow> 's \<Rightarrow> 's option"
  WideCharToMultiByte :: "wstr \<Rightarrow> byte list option"

text \<open>What stands before the first separator of an entry, unless it has none or begins with it.\<close>

definition name_before :: "'a \<Rightarrow> 'a list \<Rightarrow> 'a list option" where
  "name_before separator item =
     (if separator \<in> set item \<and> takeWhile (\<lambda>c. c \<noteq> separator) item \<noteq> []
      then Some (takeWhile (\<lambda>c. c \<noteq> separator) item) else None)"

text \<open>The walk over a block of strings, each ended by a zero, up to an empty one.\<close>

function block_items :: "wstr \<Rightarrow> wstr list" where
  "block_items raw =
     (let item = takeWhile (\<lambda>c. c \<noteq> 0) raw in
      if item = [] then [] else item # block_items (drop (length item + 1) raw))"
  by pat_completeness auto
termination
proof (relation "measure length")
  fix raw :: wstr and item
  assume "item = takeWhile (\<lambda>c. c \<noteq> 0) raw" "item \<noteq> []"
  then show "(drop (length item + 1) raw, raw) \<in> measure length" by (cases raw) auto
qed simp

declare block_items.simps [simp del]

definition DenBrowserWideToUtf8 :: "'s env_api \<Rightarrow> wstr \<Rightarrow> byte list option" where
  "DenBrowserWideToUtf8 api aValue =
     (if aValue = [] then Some []
      else if length aValue > 32767 then None
      else (case WideCharToMultiByte api aValue of
              None \<Rightarrow> None
            | Some r \<Rightarrow> if length r \<le> 0 then None else Some r))"

fun clear_narrow :: "'s env_api \<Rightarrow> byte list list \<Rightarrow> 's \<Rightarrow> 's option" where
  "clear_narrow api [] s = Some s"
| "clear_narrow api (name # names) s = Option.bind (putenv_s api name [] s) (clear_narrow api names)"

fun clear_wide :: "'s env_api \<Rightarrow> wstr list \<Rightarrow> 's \<Rightarrow> 's option" where
  "clear_wide api [] s = Some s"
| "clear_wide api (name # names) s = Option.bind (SetEnvironmentVariableW api name None s) (clear_wide api names)"

fun set_approved :: "'s env_api \<Rightarrow> environment \<Rightarrow> 's \<Rightarrow> 's option" where
  "set_approved api [] s = Some s"
| "set_approved api ((name, value) # rest) s =
     Option.bind (DenBrowserWideToUtf8 api name) (\<lambda>narrowName.
     Option.bind (DenBrowserWideToUtf8 api value) (\<lambda>narrowValue.
     Option.bind (putenv_s api narrowName narrowValue s) (\<lambda>s1.
     Option.bind (SetEnvironmentVariableW api name (Some value) s1) (set_approved api rest))))"

definition DenBrowserApplyCurrentEnvironment :: "'s env_api \<Rightarrow> environment \<Rightarrow> 's \<Rightarrow> 's option" where
  "DenBrowserApplyCurrentEnvironment api aEnvironment s =
     Option.bind (clear_narrow api (List.map_filter (name_before 61) (environ api s)) s) (\<lambda>s1.
     Option.bind (GetEnvironmentStringsW api s1) (\<lambda>rawEnvironment.
     Option.bind (clear_wide api (List.map_filter (name_before 61) (block_items rawEnvironment)) s1)
       (set_approved api aEnvironment)))"

section \<open>LauncherMain up to the choice of its role\<close>

text \<open>
  The process exits, continues into the browser (as a child process or as the authorised browser), or
  continues as the launcher with these arguments.  \<open>setArgv0\<close> is \<^verbatim>\<open>SetArgv0ToFullBinaryPath\<close>.
\<close>

datatype 's start = Ends int | Browser_Child | Browser_Main 's | Launcher "wstr option list" 's

definition LauncherMain_start ::
  "'tok folder_ops \<Rightarrow> 's env_api \<Rightarrow> (wstr option list \<Rightarrow> wstr option list option) \<Rightarrow> bool \<Rightarrow> bool
   \<Rightarrow> bool option \<Rightarrow> wstr option list \<Rightarrow> 's \<Rightarrow> 's start" where
  "LauncherMain_start w api setArgv0 launcher_process authorizedBrowser sameParent argv s =
     (case LauncherMain_gate launcher_process authorizedBrowser sameParent argv of
        Exit n \<Rightarrow> Ends n
      | Child \<Rightarrow> Browser_Child
      | Launch argv1 \<Rightarrow>
          (case setArgv0 argv1 of
             None \<Rightarrow> Ends 127
           | Some argv2 \<Rightarrow>
               (case Option.bind (DenBrowserGetApplicationDirectory (argv2 ! 0)) (\<lambda>dir.
                       Option.bind (DenBrowserBuildEnvironment w None dir) (\<lambda>env.
                       DenBrowserApplyCurrentEnvironment api env s)) of
                  None \<Rightarrow> Ends 127
                | Some s1 \<Rightarrow>
                    if authorizedBrowser then Browser_Main s1
                    else (case Option.bind (putenv_s api (bytes ''MOZ_LAUNCHER_PROCESS'') (bytes ''1'') s1)
                                 (SetEnvironmentVariableW api (wide ''MOZ_LAUNCHER_PROCESS'') (Some (wide ''1''))) of
                            None \<Rightarrow> Ends 127
                          | Some s2 \<Rightarrow> Launcher argv2 s2))))"

section \<open>The eight variables\<close>

lemma eight_sorted:
  "sort_entries [(wide ''LOCALAPPDATA'', a), (wide ''Path'', b), (wide ''ProgramFiles'', c), (wide ''ProgramW6432'', d),
     (wide ''SystemDrive'', e), (wide ''SystemRoot'', f), (wide ''TEMP'', g), (wide ''TMP'', h)] =
   [(wide ''LOCALAPPDATA'', a), (wide ''Path'', b), (wide ''ProgramFiles'', c), (wide ''ProgramW6432'', d),
     (wide ''SystemDrive'', e), (wide ''SystemRoot'', f), (wide ''TEMP'', g), (wide ''TMP'', h)]"
  by (simp add: sort_entries_def wide_def wchar_lower_def to_ascii_lower_def)

lemma eight_differ:
  "neighbours_differ [(wide ''LOCALAPPDATA'', a), (wide ''Path'', b), (wide ''ProgramFiles'', c), (wide ''ProgramW6432'', d),
     (wide ''SystemDrive'', e), (wide ''SystemRoot'', f), (wide ''TEMP'', g), (wide ''TMP'', h)]"
  by (simp add: wcsieq_def wide_def wchar_lower_def to_ascii_lower_def)

definition eight_names :: "wstr list" where
  "eight_names = map wide [''LOCALAPPDATA'', ''Path'', ''ProgramFiles'', ''ProgramW6432'', ''SystemDrive'', ''SystemRoot'',
     ''TEMP'', ''TMP'']"

definition ascii_name :: "wstr \<Rightarrow> bool" where
  "ascii_name n \<longleftrightarrow> n \<noteq> [] \<and> (\<forall>c \<in> set n. unat c < 128 \<and> c \<noteq> 0 \<and> c \<noteq> 61)"

lemma eight_ascii: "n \<in> set eight_names \<Longrightarrow> ascii_name n"
  by (auto simp: eight_names_def ascii_name_def wide_def)

lemma known_folder_nonempty: "DenBrowserGetKnownFolder w f t = Some p \<Longrightarrow> p \<noteq> []"
  by (auto simp: DenBrowserGetKnownFolder_def split: prod.splits if_splits)

lemma wide_eq_Nil [simp]: "wide s = [] \<longleftrightarrow> s = []"
  by (simp add: wide_def)

text \<open>Which variables a launch is given, and from where.\<close>

definition launch_environment :: "wstr \<Rightarrow> wstr \<Rightarrow> wstr \<Rightarrow> wstr \<Rightarrow> wstr \<Rightarrow> wstr \<Rightarrow> environment" where
  "launch_environment dir windowsDirectory systemBuffer windowsBuffer localAppData programFiles =
     [(wide ''LOCALAPPDATA'', localAppData), (wide ''Path'', dir @ wide '';'' @ systemBuffer @ wide '';'' @ windowsBuffer),
      (wide ''ProgramFiles'', programFiles), (wide ''ProgramW6432'', programFiles),
      (wide ''SystemDrive'', take 2 windowsDirectory), (wide ''SystemRoot'', windowsDirectory),
      (wide ''TEMP'', localAppData @ 92 # wide ''Temp''), (wide ''TMP'', localAppData @ 92 # wide ''Temp'')]"

lemma build_Some:
  assumes "DenBrowserBuildEnvironment w tok dir = Some env"
  shows "\<exists>wd sb wb lad pf. env = launch_environment dir wd sb wb lad pf \<and> 3 \<le> length wd \<and> lad \<noteq> [] \<and> pf \<noteq> []"
proof -
  obtain wl wb where wd: "GetWindowsDirectoryW w = (wl, wb)" by fastforce
  obtain sl sb where sd: "GetSystemDirectoryW w = (sl, sb)" by fastforce
  define d where "d = take wl (wb @ replicate kBufferSize 0)"
  obtain lad pf where "DenBrowserGetKnownFolder w FOLDERID_LocalAppData tok = Some lad"
      "DenBrowserGetKnownFolder w FOLDERID_ProgramFiles tok = Some pf" "3 \<le> length d"
      "env = launch_environment dir d sb wb lad pf"
    using assms unfolding DenBrowserBuildEnvironment_def wd sd prod.case d_def [symmetric] Let_def bind_eq_Some_conv
      eight_sorted eight_differ launch_environment_def
    by (auto simp: bind_eq_Some_conv eight_sorted split: if_splits)
  then show ?thesis using known_folder_nonempty by metis
qed

lemma build_eight:
  assumes "DenBrowserBuildEnvironment w tok dir = Some env"
  shows "map fst env = eight_names" "\<forall>(n, v) \<in> set env. ascii_name n \<and> v \<noteq> []"
proof -
  obtain wd sb wb lad pf where e: "env = launch_environment dir wd sb wb lad pf" "3 \<le> length wd" "lad \<noteq> []" "pf \<noteq> []"
    using build_Some [OF assms] by blast
  then show names: "map fst env = eight_names" by (simp add: launch_environment_def eight_names_def)
  have "n \<in> set eight_names" if "(n, v) \<in> set env" for n v using that names by (metis fst_conv image_eqI list.set_map)
  moreover have "\<forall>(n, v) \<in> set env. v \<noteq> []" using e(2-4) unfolding e(1) launch_environment_def by (cases wd) auto
  ultimately show "\<forall>(n, v) \<in> set env. ascii_name n \<and> v \<noteq> []" using eight_ascii by auto
qed

section \<open>What the new process reads from its block\<close>

definition entry_text :: "wstr \<times> wstr \<Rightarrow> wstr" where
  "entry_text e = fst e @ 61 # snd e"

definition entries_text :: "environment \<Rightarrow> wstr" where
  "entries_text env = concat (map (\<lambda>e. entry_text e @ [0]) env)"

lemma entries_text_simps [simp]:
  "entries_text [] = []" "entries_text (e # env) = fst e @ 61 # snd e @ 0 # entries_text env"
  by (simp_all add: entries_text_def entry_text_def)

definition named :: "wstr \<times> wstr \<Rightarrow> bool" where
  "named e \<longleftrightarrow> fst e \<noteq> [] \<and> 61 \<notin> set (fst e)"

lemma block_length_eq:
  assumes "t \<le> 32767"
  shows "block_length env t =
     (if list_all named env \<and> t + length (entries_text env) \<le> 32767 then Some (t + length (entries_text env)) else None)"
  using assms
proof (induction env t rule: block_length.induct)
  case (2 name v rest t)
  then show ?case by (auto simp: Let_def named_def)
qed simp

text \<open>Two writes one after the other are one write.\<close>

lemma poke_poke: "Option.bind (poke b c xs) (\<lambda>b1. poke b1 (c + length xs) ys) = poke b c (xs @ ys)"
  by (auto simp: poke_def add_ac)

lemma poke_inside: "poke b c xs = Some b' \<Longrightarrow> c + length xs \<le> length b'"
  by (auto simp: poke_def split: if_splits)

lemma write_entries_eq:
  "c \<le> length b \<Longrightarrow>
     write_entries env c b = map_option (Pair (c + length (entries_text env))) (poke b c (entries_text env))"
proof (induction env arbitrary: c b)
  case Nil
  then show ?case by (simp add: poke_def)
next
  case (Cons e rest)
  obtain name v where e: "e = (name, v)" by fastforce
  let ?r = "entries_text rest" and ?d = "c + length name + 1 + length v + 1"
  have "write_entries (e # rest) c b =
      Option.bind (poke b c name) (\<lambda>b1. Option.bind (poke b1 (c + length name) [61]) (\<lambda>b2.
      Option.bind (poke b2 (c + length name + 1) v) (\<lambda>b3. Option.bind (poke b3 (c + length name + 1 + length v) [0]) (\<lambda>b4.
      map_option (Pair (?d + length ?r)) (poke b4 ?d ?r)))))"
    unfolding e write_entries.simps
  proof (intro bind_option_cong refl)
    fix b3 b4
    assume "b4 \<in> set_option (poke b3 (c + length name + 1 + length v) [0])"
    then have "poke b3 (c + length name + 1 + length v) [0] = Some b4" by simp
    from poke_inside [OF this] have "?d \<le> length b4" by simp
    then show "write_entries rest ?d b4 = map_option (Pair (?d + length ?r)) (poke b4 ?d ?r)" by (rule Cons.IH)
  qed
  also have "\<dots> = map_option (Pair (?d + length ?r)) (poke b c (name @ [61] @ v @ [0] @ ?r))"
    unfolding map_conv_bind_option poke_poke [symmetric] by (simp add: bind_assoc add.assoc)
  finally show ?case by (simp add: e add.assoc)
qed

definition total_length :: "environment \<Rightarrow> nat" where
  "total_length env = length (entries_text env) + 1"

lemma serialize_eq:
  "DenBrowserSerializeEnvironment allocated env =
     (if list_all named env \<and> total_length env \<le> 32767 \<and> allocated (total_length env)
      then Block (entries_text env @ [0]) else NoBlock)"
proof -
  let ?t = "entries_text env"
  have "Option.bind (write_entries env 0 (replicate (1 + length ?t) 0)) (\<lambda>(c, b). poke b c [0]) =
      Option.bind (poke (replicate (1 + length ?t) 0) 0 ?t) (\<lambda>b. poke b (0 + length ?t) [0])"
    unfolding write_entries_eq [OF le0] by (simp add: map_conv_bind_option bind_assoc)
  then have "Option.bind (write_entries env 0 (replicate (1 + length ?t) 0)) (\<lambda>(c, b). poke b c [0]) = Some (?t @ [0])"
    unfolding poke_poke by (simp add: poke_def)
  then show ?thesis
    unfolding DenBrowserSerializeEnvironment_def total_length_def by (auto simp: block_length_eq)
qed

lemma block_items_Cons:
  "item \<noteq> [] \<Longrightarrow> 0 \<notin> set item \<Longrightarrow> block_items (item @ 0 # rest) = item # block_items rest"
  by (subst block_items.simps) (simp add: Let_def takeWhile_until)

lemma block_items_entries:
  "list_all (\<lambda>(n, v). 0 \<notin> set n \<and> 0 \<notin> set v) env \<Longrightarrow> block_items (entries_text env @ [0]) = map entry_text env"
proof (induction env)
  case Nil
  show ?case by (subst block_items.simps) (simp add: Let_def)
next
  case (Cons e env)
  then have "entry_text e \<noteq> []" "0 \<notin> set (entry_text e)" by (auto simp: entry_text_def)
  from block_items_Cons [OF this, of "entries_text env @ [0]"] Cons show ?case by (simp add: entry_text_def)
qed

lemma name_before_entry: "named e \<Longrightarrow> name_before 61 (entry_text e) = Some (fst e)"
  by (simp add: named_def name_before_def entry_text_def takeWhile_until)

text \<open>
  C36. The environment block.  Serialising an environment never writes outside the array it allocated:
  it is refused (a name that is empty or contains an equals sign, more than 32767 units, no memory) or
  gives a block of exactly the computed length, from which the walk over an environment reads
  back the same entries in the same order, and their names.
\<close>

theorem environment_block_roundtrip:
  assumes "list_all (\<lambda>(n, v). 0 \<notin> set n \<and> 0 \<notin> set v) env"
  shows "case DenBrowserSerializeEnvironment allocated env of
      OutOfBounds \<Rightarrow> False
    | NoBlock \<Rightarrow> \<not> list_all named env \<or> total_length env > 32767 \<or> \<not> allocated (total_length env)
    | Block block \<Rightarrow> length block = total_length env \<and> total_length env \<le> 32767 \<and>
        block_items block = map (\<lambda>(n, v). n @ 61 # v) env \<and>
        List.map_filter (name_before 61) (block_items block) = map fst env"
proof -
  have "List.map_filter (name_before 61) (map entry_text es) = map fst es" if "list_all named es" for es
    using that by (induction es) (auto simp: name_before_entry map_filter_simps)
  moreover have "entry_text = (\<lambda>(n, v). n @ 61 # v)" by (auto simp: entry_text_def)
  ultimately show ?thesis
    using block_items_entries [OF assms] by (auto simp: serialize_eq total_length_def)
qed

section \<open>Nothing of the caller's environment is left\<close>

text \<open>
  What a process can look up in its two environments, and the documented behaviour of the calls: names
  are found whatever their case, a call changes the variable it names, \<open>_putenv_s\<close> passes its change on to
  the native variable of the name \<open>widen\<close> gives, the entries listed are the ones that can be looked up, and
  ASCII is the same in UTF-8 and in UTF-16.
\<close>

record 's env_reading =
  crt_vars :: "'s \<Rightarrow> byte list \<Rightarrow> byte list option"
  native_vars :: "'s \<Rightarrow> wstr \<Rightarrow> wstr option"
  widen :: "byte list \<Rightarrow> wstr"

text \<open>Names of the entries Windows keeps for the current directory of each drive.\<close>

definition pseudo :: "wstr \<Rightarrow> bool" where
  "pseudo m \<longleftrightarrow> m = [] \<or> hd m = 61"

definition env_laws :: "'s env_api \<Rightarrow> 's env_reading \<Rightarrow> bool" where
  "env_laws api R \<longleftrightarrow>
     (\<forall>n v s s'. putenv_s api n v s = Some s' \<longrightarrow>
        (\<forall>m. crt_vars R s' m =
           (if same_ignoring_case m n then if v = [] then None else Some v else crt_vars R s m)) \<and>
        (\<forall>m. \<not> wcsieq m (widen R n) \<longrightarrow> native_vars R s' m = native_vars R s m)) \<and>
     (\<forall>n v s s'. SetEnvironmentVariableW api n v s = Some s' \<longrightarrow>
        (\<forall>m. native_vars R s' m = (if wcsieq m n then v else native_vars R s m)) \<and> crt_vars R s' = crt_vars R s) \<and>
     (\<forall>s m. crt_vars R s m \<noteq> None \<longrightarrow>
        (\<exists>item \<in> set (environ api s). \<exists>n. name_before 61 item = Some n \<and> same_ignoring_case m n)) \<and>
     (\<forall>s m raw. GetEnvironmentStringsW api s = Some raw \<longrightarrow> native_vars R s m \<noteq> None \<longrightarrow> \<not> pseudo m \<longrightarrow>
        (\<exists>item \<in> set (block_items raw). \<exists>n. name_before 61 item = Some n \<and> wcsieq m n)) \<and>
     (\<forall>n. ascii_name n \<longrightarrow> WideCharToMultiByte api n = Some (map ucast n) \<and> widen R (map ucast n) = n)"

text \<open>The value of a variable in a list of settings made in order.\<close>

definition value_in :: "('k \<Rightarrow> 'k \<Rightarrow> bool) \<Rightarrow> ('k \<times> 'v) list \<Rightarrow> 'k \<Rightarrow> 'v option" where
  "value_in same env m = map_option snd (List.find (\<lambda>e. same m (fst e)) (rev env))"

lemma value_in_simps [simp]:
  "value_in same [] m = None"
  "value_in same (env @ [e]) m = (if same m (fst e) then Some (snd e) else value_in same env m)"
  by (simp_all add: value_in_def)

definition narrow_entry :: "'s env_api \<Rightarrow> wstr \<times> wstr \<Rightarrow> byte list \<times> byte list" where
  "narrow_entry api e = (map ucast (fst e), the (DenBrowserWideToUtf8 api (snd e)))"

text \<open>
  Both environments hold these settings and nothing else, the per-drive entries of Windows apart (the
  walk over the block skips them, as the code does).  Names are compared without regard to ASCII case,
  which is exact for the names the launcher sets.
\<close>

definition holds_only :: "'s env_api \<Rightarrow> 's env_reading \<Rightarrow> 's \<Rightarrow> environment \<Rightarrow> bool" where
  "holds_only api R s env \<longleftrightarrow>
     (\<forall>m. crt_vars R s m = value_in same_ignoring_case (map (narrow_entry api) env) m) \<and>
     (\<forall>m. \<not> pseudo m \<longrightarrow> native_vars R s m = value_in wcsieq env m)"

lemma clear_narrow_removes:
  "env_laws api R \<Longrightarrow> clear_narrow api names s = Some s' \<Longrightarrow>
     crt_vars R s' m = (if \<exists>n \<in> set names. same_ignoring_case m n then None else crt_vars R s m)"
proof (induction names arbitrary: s)
  case (Cons n names)
  then obtain s1 where s1: "putenv_s api n [] s = Some s1" "clear_narrow api names s1 = Some s'"
    by (auto simp: bind_eq_Some_conv)
  have "crt_vars R s1 m = (if same_ignoring_case m n then None else crt_vars R s m)"
    using Cons.prems(1) s1(1) unfolding env_laws_def by (metis (no_types, lifting))
  with Cons.IH [OF Cons.prems(1) s1(2)] show ?case by auto
qed simp

lemma clear_wide_removes:
  "env_laws api R \<Longrightarrow> clear_wide api names s = Some s' \<Longrightarrow>
     crt_vars R s' = crt_vars R s \<and>
     native_vars R s' m = (if \<exists>n \<in> set names. wcsieq m n then None else native_vars R s m)"
proof (induction names arbitrary: s)
  case (Cons n names)
  then obtain s1 where s1: "SetEnvironmentVariableW api n None s = Some s1" "clear_wide api names s1 = Some s'"
    by (auto simp: bind_eq_Some_conv)
  have "crt_vars R s1 = crt_vars R s \<and> native_vars R s1 m = (if wcsieq m n then None else native_vars R s m)"
    using Cons.prems(1) s1(1) unfolding env_laws_def by (metis (no_types, lifting))
  with Cons.IH [OF Cons.prems(1) s1(2)] show ?case by auto
qed simp

lemma setting_made:
  assumes laws: "env_laws api R" and "holds_only api R s env" "ascii_name n"
    and "putenv_s api (map ucast n) nv s = Some s1" "nv \<noteq> []" "SetEnvironmentVariableW api n (Some v) s1 = Some s2"
    and "DenBrowserWideToUtf8 api v = Some nv"
  shows "holds_only api R s2 (env @ [(n, v)])"
proof -
  have w: "widen R (map ucast n) = n" using laws assms(3) unfolding env_laws_def by blast
  have 1: "crt_vars R s1 m = (if same_ignoring_case m (map ucast n) then Some nv else crt_vars R s m)"
      "\<not> wcsieq m' n \<Longrightarrow> native_vars R s1 m' = native_vars R s m'" for m m'
    using laws assms(4,5) w unfolding env_laws_def by (metis (no_types, lifting))+
  have 2: "native_vars R s2 m' = (if wcsieq m' n then Some v else native_vars R s1 m')" "crt_vars R s2 = crt_vars R s1" for m'
    using laws assms(6) unfolding env_laws_def by (metis (no_types, lifting))+
  show ?thesis
    using assms(2,7) by (auto simp: holds_only_def 1 2 narrow_entry_def)
qed

lemma wide_to_utf8_nonempty: "DenBrowserWideToUtf8 api v = Some nv \<Longrightarrow> v \<noteq> [] \<Longrightarrow> nv \<noteq> []"
  by (auto simp: DenBrowserWideToUtf8_def split: if_splits option.splits)

lemma wide_to_utf8_name: "env_laws api R \<Longrightarrow> ascii_name n \<Longrightarrow> DenBrowserWideToUtf8 api n = Some nn \<Longrightarrow> nn = map ucast n"
  unfolding env_laws_def DenBrowserWideToUtf8_def ascii_name_def by (auto split: if_splits option.splits)

lemma set_approved_holds:
  assumes "env_laws api R" "holds_only api R s made" "\<forall>(n, v) \<in> set env. ascii_name n \<and> v \<noteq> []"
    and "set_approved api env s = Some s'"
  shows "holds_only api R s' (made @ env)"
  using assms(2-)
proof (induction env arbitrary: made s)
  case (Cons e env)
  obtain n v where e: "e = (n, v)" by fastforce
  then obtain nn nv s1 s2 where step: "DenBrowserWideToUtf8 api n = Some nn" "DenBrowserWideToUtf8 api v = Some nv"
      "putenv_s api nn nv s = Some s1" "SetEnvironmentVariableW api n (Some v) s1 = Some s2" "set_approved api env s2 = Some s'"
    using Cons.prems(3) by (auto simp: bind_eq_Some_conv)
  have nv: "ascii_name n" "v \<noteq> []" using Cons.prems(2) e by auto
  have "nn = map ucast n" using wide_to_utf8_name [OF assms(1) nv(1) step(1)] .
  then have "holds_only api R s2 (made @ [(n, v)])"
    using setting_made [OF assms(1) Cons.prems(1) nv(1) _ _ step(4,2)] step(3) wide_to_utf8_nonempty [OF step(2) nv(2)] by blast
  from Cons.IH [OF this _ step(5)] Cons.prems(2) show ?case by (simp add: e)
qed simp

lemma apply_holds:
  assumes laws: "env_laws api R" and "\<forall>(n, v) \<in> set env. ascii_name n \<and> v \<noteq> []"
    and "DenBrowserApplyCurrentEnvironment api env s = Some s'"
  shows "holds_only api R s' env"
proof -
  obtain s1 raw s2 where s1: "clear_narrow api (List.map_filter (name_before 61) (environ api s)) s = Some s1"
    and raw: "GetEnvironmentStringsW api s1 = Some raw"
    and s2: "clear_wide api (List.map_filter (name_before 61) (block_items raw)) s1 = Some s2"
    and s': "set_approved api env s2 = Some s'"
    using assms(3) by (auto simp: DenBrowserApplyCurrentEnvironment_def bind_eq_Some_conv)
  have names: "(\<exists>n \<in> set (List.map_filter f xs). P n) \<longleftrightarrow> (\<exists>x \<in> set xs. \<exists>n. f x = Some n \<and> P n)" for f :: "'x \<Rightarrow> 'y option" and xs P
    unfolding List.map_filter_def by (auto, force)
  have "crt_vars R s1 m = None" for m
  proof -
    have "crt_vars R s m \<noteq> None \<Longrightarrow> \<exists>item \<in> set (environ api s). \<exists>n. name_before 61 item = Some n \<and> same_ignoring_case m n"
      using laws unfolding env_laws_def by blast
    then show ?thesis using clear_narrow_removes [OF laws s1, of m] unfolding names by (cases "crt_vars R s m") (auto split: if_splits)
  qed
  moreover have "native_vars R s2 m = None" if "\<not> pseudo m" for m
  proof -
    have "native_vars R s1 m \<noteq> None \<Longrightarrow> \<exists>item \<in> set (block_items raw). \<exists>n. name_before 61 item = Some n \<and> wcsieq m n"
      using laws raw that unfolding env_laws_def by blast
    then show ?thesis using clear_wide_removes [OF laws s2, of m] unfolding names by (cases "native_vars R s1 m") (auto split: if_splits)
  qed
  ultimately have "holds_only api R s2 []"
    using clear_wide_removes [OF laws s2] by (simp add: holds_only_def)
  from set_approved_holds [OF laws this assms(2) s'] show ?thesis by simp
qed

lemma marker_name: "ascii_name (wide ''MOZ_LAUNCHER_PROCESS'')" "ascii_name (wide ''1'')"
    "bytes ''MOZ_LAUNCHER_PROCESS'' = map ucast (wide ''MOZ_LAUNCHER_PROCESS'')" "bytes ''1'' = map ucast (wide ''1'')"
  by (auto simp: ascii_name_def wide_def bytes_def str_def utf8_def utf8_char_def utf8_units_def)

lemma marker_value: "env_laws api R \<Longrightarrow> DenBrowserWideToUtf8 api (wide ''1'') = Some (bytes ''1'')"
  using marker_name(2) unfolding env_laws_def DenBrowserWideToUtf8_def by (simp add: marker_name)

lemma application_directory_plain: "DenBrowserGetApplicationDirectory p = Some dir \<Longrightarrow> 59 \<notin> set dir"
  by (auto simp: DenBrowserGetApplicationDirectory_def split: option.splits if_splits)

lemma gate_Exit: "LauncherMain_gate lp auth same argv = Exit n \<Longrightarrow> n = 127"
  by (auto simp: LauncherMain_gate_def Let_def split: if_splits option.splits)

lemma approved_holds:
  assumes "env_laws api R" "DenBrowserGetApplicationDirectory p = Some dir" "DenBrowserBuildEnvironment w tok dir = Some env"
    and "DenBrowserApplyCurrentEnvironment api env s = Some s1"
  shows "59 \<notin> set dir \<and> map fst env = eight_names \<and> holds_only api R s1 env"
  using application_directory_plain [OF assms(2)] build_eight [OF assms(3)]
    apply_holds [OF assms(1) build_eight(2) [OF assms(3)] assms(4)] by simp

lemma marker_holds:
  assumes laws: "env_laws api R" and "holds_only api R s1 env"
    and "putenv_s api (bytes ''MOZ_LAUNCHER_PROCESS'') (bytes ''1'') s1 = Some s2"
    and "SetEnvironmentVariableW api (wide ''MOZ_LAUNCHER_PROCESS'') (Some (wide ''1'')) s2 = Some s3"
  shows "holds_only api R s3 (env @ [(wide ''MOZ_LAUNCHER_PROCESS'', wide ''1'')])"
proof -
  have "putenv_s api (map ucast (wide ''MOZ_LAUNCHER_PROCESS'')) (bytes ''1'') s1 = Some s2"
    using assms(3) by (simp only: marker_name(3))
  moreover have "bytes ''1'' \<noteq> []" by (simp add: marker_name(4))
  ultimately show ?thesis by (rule setting_made [OF laws assms(2) marker_name(1) _ _ assms(4) marker_value [OF laws]])
qed

text \<open>
  C35. A clean start.  When \<^verbatim>\<open>LauncherMain\<close> goes past its checks, whatever the environment the caller passed,
  both environments of the process hold exactly the eight variables built from what the system
  reports, with the directory of the binary as one element of the path, and, in the launcher, the
  marker of its role.  A child process is recognised by its command line alone; every failure
  ends the process with 127.
\<close>

theorem clean_start:
  assumes "env_laws api R"
  shows "case LauncherMain_start w api fullPath lp auth same argv s of
      Ends n \<Rightarrow> n = 127
    | Browser_Child \<Rightarrow> LauncherMain_gate lp auth same argv = Child
    | Browser_Main s' \<Rightarrow> auth \<and>
        (\<exists>argv1 argv2 dir env. LauncherMain_gate lp auth same argv = Launch argv1 \<and> fullPath argv1 = Some argv2 \<and>
           DenBrowserGetApplicationDirectory (argv2 ! 0) = Some dir \<and> 59 \<notin> set dir \<and>
           DenBrowserBuildEnvironment w None dir = Some env \<and> map fst env = eight_names \<and> holds_only api R s' env)
    | Launcher argv2 s' \<Rightarrow> \<not> auth \<and>
        (\<exists>argv1 dir env. LauncherMain_gate lp auth same argv = Launch argv1 \<and> fullPath argv1 = Some argv2 \<and>
           DenBrowserGetApplicationDirectory (argv2 ! 0) = Some dir \<and> 59 \<notin> set dir \<and>
           DenBrowserBuildEnvironment w None dir = Some env \<and> map fst env = eight_names \<and>
           holds_only api R s' (env @ [(wide ''MOZ_LAUNCHER_PROCESS'', wide ''1'')]))"
proof (cases "LauncherMain_gate lp auth same argv")
  case (Exit n)
  then show ?thesis using gate_Exit [OF Exit] by (simp add: LauncherMain_start_def)
next
  case Child
  then show ?thesis by (simp add: LauncherMain_start_def)
next
  case (Launch argv1)
  show ?thesis
  proof (cases "fullPath argv1")
    case None
    with Launch show ?thesis by (simp add: LauncherMain_start_def)
  next
    case (Some argv2)
    let ?apply = "Option.bind (DenBrowserGetApplicationDirectory (argv2 ! 0)) (\<lambda>dir.
      Option.bind (DenBrowserBuildEnvironment w None dir) (\<lambda>env. DenBrowserApplyCurrentEnvironment api env s))"
    show ?thesis
    proof (cases ?apply)
      case None
      with Launch Some show ?thesis by (simp add: LauncherMain_start_def)
    next
      case (Some s1)
      then obtain dir env where d: "DenBrowserGetApplicationDirectory (argv2 ! 0) = Some dir"
          "DenBrowserBuildEnvironment w None dir = Some env" "DenBrowserApplyCurrentEnvironment api env s = Some s1"
        by (auto simp: bind_eq_Some_conv)
      note a = approved_holds [OF assms d]
      show ?thesis
      proof (cases auth)
        case True
        with Launch Some \<open>fullPath argv1 = Some argv2\<close> d a show ?thesis by (simp add: LauncherMain_start_def)
      next
        case False
        with Launch Some \<open>fullPath argv1 = Some argv2\<close> d a marker_holds [OF assms] show ?thesis
          by (auto simp: LauncherMain_start_def bind_eq_Some_conv split: option.splits)
      qed
    qed
  qed
qed

section \<open>A concrete process\<close>

text \<open>A process as the lists of its narrow and its native settings, on a system with plain directories.\<close>

type_synonym demo_process = "(byte list \<times> byte list) list \<times> environment"

definition demo_valid :: "wstr \<times> wstr \<Rightarrow> bool" where
  "demo_valid e \<longleftrightarrow> named e \<and> 0 \<notin> set (fst e) \<and> 0 \<notin> set (snd e)"

definition demo_narrow :: "byte list \<times> byte list \<Rightarrow> bool" where
  "demo_narrow e \<longleftrightarrow> fst e \<noteq> [] \<and> 61 \<notin> set (fst e)"

definition demo_env_api :: "demo_process env_api" where
  "demo_env_api = \<lparr>
     environ = (\<lambda>(nw, wd). map (\<lambda>e. fst e @ 61 # snd e) nw),
     putenv_s = (\<lambda>n v (nw, wd).
       if demo_narrow (n, v)
       then Some ((if v = [] then [] else [(n, v)]) @ filter (\<lambda>e. \<not> same_ignoring_case (fst e) n) nw, wd) else None),
     GetEnvironmentStringsW = (\<lambda>(nw, wd). if list_all demo_valid wd then Some (entries_text wd @ [0]) else None),
     SetEnvironmentVariableW = (\<lambda>n v (nw, wd).
       if n \<noteq> []
       then Some (nw, (case v of None \<Rightarrow> [] | Some x \<Rightarrow> [(n, x)]) @ filter (\<lambda>e. \<not> wcsieq (fst e) n) wd) else None),
     WideCharToMultiByte = (\<lambda>n. if list_all (\<lambda>c. unat c < 128) n then Some (map ucast n) else None)\<rparr>"

definition demo_env_reading :: "demo_process env_reading" where
  "demo_env_reading = \<lparr>
     crt_vars = (\<lambda>(nw, wd) m. map_option snd (List.find (\<lambda>e. demo_narrow e \<and> same_ignoring_case m (fst e)) nw)),
     native_vars = (\<lambda>(nw, wd) m. map_option snd (List.find (\<lambda>e. wcsieq m (fst e)) wd)),
     widen = map ucast\<rparr>"

lemma find_found: "List.find P xs \<noteq> None \<Longrightarrow> \<exists>e \<in> set xs. P e"
  by (meson find_None_iff)

lemma find_unless: "(\<And>e. Q e \<Longrightarrow> P e = b) \<Longrightarrow> List.find Q (filter (\<lambda>e. \<not> P e) xs) = (if b then None else List.find Q xs)"
  by (induction xs) auto

lemma ucast_ascii: "unat (c :: 16 word) < 128 \<Longrightarrow> ucast (ucast c :: 8 word) = c"
  by (simp add: word_unat_eq_iff unsigned_ucast_eq unsigned_take_bit_eq take_bit_nat_eq_self)

lemma demo_putenv_law:
  assumes "putenv_s demo_env_api n v s = Some s'"
  shows "crt_vars demo_env_reading s' m =
      (if same_ignoring_case m n then if v = [] then None else Some v else crt_vars demo_env_reading s m)"
    and "native_vars demo_env_reading s' = native_vars demo_env_reading s"
proof -
  obtain nw wd where s: "s = (nw, wd)" by fastforce
  have "List.find (\<lambda>e. demo_narrow e \<and> same_ignoring_case m (fst e)) (filter (\<lambda>e. \<not> same_ignoring_case (fst e) n) nw) =
      (if same_ignoring_case m n then None else List.find (\<lambda>e. demo_narrow e \<and> same_ignoring_case m (fst e)) nw)"
    by (rule find_unless) (simp add: same_ignoring_case_def)
  with assms show "crt_vars demo_env_reading s' m =
      (if same_ignoring_case m n then if v = [] then None else Some v else crt_vars demo_env_reading s m)"
    by (auto simp: demo_env_api_def demo_env_reading_def s demo_narrow_def split: if_splits)
  from assms show "native_vars demo_env_reading s' = native_vars demo_env_reading s"
    by (auto simp: demo_env_api_def demo_env_reading_def s split: if_splits)
qed

lemma demo_setenv_law:
  assumes "SetEnvironmentVariableW demo_env_api n v s = Some s'"
  shows "native_vars demo_env_reading s' m = (if wcsieq m n then v else native_vars demo_env_reading s m)"
    and "crt_vars demo_env_reading s' = crt_vars demo_env_reading s"
proof -
  obtain nw wd where s: "s = (nw, wd)" by fastforce
  have "List.find (\<lambda>e. wcsieq m (fst e)) (filter (\<lambda>e. \<not> wcsieq (fst e) n) wd) =
      (if wcsieq m n then None else List.find (\<lambda>e. wcsieq m (fst e)) wd)"
    by (rule find_unless) (simp add: wcsieq_def)
  with assms show "native_vars demo_env_reading s' m = (if wcsieq m n then v else native_vars demo_env_reading s m)"
    by (auto simp: demo_env_api_def demo_env_reading_def s split: if_splits option.splits)
  from assms show "crt_vars demo_env_reading s' = crt_vars demo_env_reading s"
    by (auto simp: demo_env_api_def demo_env_reading_def s split: if_splits)
qed

lemma demo_env_laws: "env_laws demo_env_api demo_env_reading"
proof -
  have listed: "\<exists>item \<in> set (environ demo_env_api s). \<exists>n. name_before 61 item = Some n \<and> same_ignoring_case m n"
    if set: "crt_vars demo_env_reading s m \<noteq> None" for s m
  proof -
    obtain nw wd where s: "s = (nw, wd)" by fastforce
    then have "List.find (\<lambda>e. demo_narrow e \<and> same_ignoring_case m (fst e)) nw \<noteq> None"
      using set by (simp add: demo_env_reading_def)
    from find_found [OF this] obtain e where "e \<in> set nw" "demo_narrow e" "same_ignoring_case m (fst e)" by blast
    moreover from this(2) have "name_before 61 (fst e @ 61 # snd e) = Some (fst e)"
      by (simp add: demo_narrow_def name_before_def takeWhile_until)
    ultimately show ?thesis by (force simp: s demo_env_api_def)
  qed
  have wlisted: "\<exists>item \<in> set (block_items raw). \<exists>n. name_before 61 item = Some n \<and> wcsieq m n"
    if "GetEnvironmentStringsW demo_env_api s = Some raw" and set: "native_vars demo_env_reading s m \<noteq> None" for s m raw
  proof -
    obtain nw wd where s: "s = (nw, wd)" by fastforce
    have v: "list_all demo_valid wd" "raw = entries_text wd @ [0]" using that(1) by (auto simp: s demo_env_api_def split: if_splits)
    have "List.find (\<lambda>e. wcsieq m (fst e)) wd \<noteq> None" using set by (simp add: s demo_env_reading_def)
    from find_found [OF this] obtain e where e: "e \<in> set wd" "wcsieq m (fst e)" by blast
    have "block_items raw = map entry_text wd"
      unfolding v(2) by (rule block_items_entries) (use v(1) in \<open>auto simp: list_all_iff demo_valid_def\<close>)
    moreover have "name_before 61 (entry_text e) = Some (fst e)"
      by (rule name_before_entry) (use v(1) e(1) in \<open>auto simp: list_all_iff demo_valid_def\<close>)
    ultimately show ?thesis using e by force
  qed
  have ascii: "WideCharToMultiByte demo_env_api n = Some (map ucast n) \<and> widen demo_env_reading (map ucast n) = n"
    if "ascii_name n" for n
    using that by (auto simp: demo_env_api_def demo_env_reading_def ascii_name_def list_all_iff ucast_ascii map_idI)
  show ?thesis
    unfolding env_laws_def
    by (intro conjI allI impI; (erule demo_putenv_law | erule demo_setenv_law | erule listed | erule (1) wlisted | drule ascii; simp | drule demo_putenv_law(2); simp))
qed

definition demo_folders :: "unit folder_ops" where
  "demo_folders = \<lparr>GetWindowsDirectoryW = (6, wide ''C:/Win''), GetSystemDirectoryW = (10, wide ''C:/Win/Sys''),
     SHGetKnownFolderPath = (\<lambda>f _. (False, Some (case f of
       FOLDERID_LocalAppData \<Rightarrow> wide ''C:/u/Local'' | FOLDERID_ProgramFiles \<Rightarrow> wide ''C:/Programs'')))\<rparr>"

definition demo_caller :: demo_process where
  "demo_caller = ([(bytes ''MOZ_LOG'', bytes ''5'')], [(wide ''MOZ_LOG'', wide ''5''), (wide ''PATH'', wide ''D:/evil'')])"

text \<open>On this system every approved setting can be made.\<close>

definition plain :: "wstr \<Rightarrow> bool" where
  "plain v \<longleftrightarrow> v \<noteq> [] \<and> length v \<le> 32767 \<and> list_all (\<lambda>c. unat c < 128) v"

lemma plain_utf8: "plain v \<Longrightarrow> DenBrowserWideToUtf8 demo_env_api v = Some (map ucast v)"
  by (auto simp: plain_def DenBrowserWideToUtf8_def demo_env_api_def)

lemma ucast_eq_61: "unat (c :: 16 word) < 128 \<Longrightarrow> (ucast c :: 8 word) = 61 \<longleftrightarrow> c = 61"
  using ucast_ascii [of c] by auto

lemma demo_putenv: "demo_narrow (n, v) \<Longrightarrow> \<exists>s1. putenv_s demo_env_api n v s = Some s1 \<and> snd s1 = snd s"
  by (cases s) (simp add: demo_env_api_def)

lemma demo_setenv: "n \<noteq> [] \<Longrightarrow> \<exists>s1. SetEnvironmentVariableW demo_env_api n v s = Some s1"
  by (cases s) (simp add: demo_env_api_def)

lemma demo_set_succeeds:
  "\<forall>(n, v) \<in> set env. plain n \<and> plain v \<and> 61 \<notin> set n \<Longrightarrow> \<exists>s'. set_approved demo_env_api env s = Some s'"
proof (induction env arbitrary: s)
  case (Cons e env)
  obtain n v where e: "e = (n, v)" by fastforce
  then have nv: "plain n" "plain v" "61 \<notin> set n" and rest: "\<forall>(n, v) \<in> set env. plain n \<and> plain v \<and> 61 \<notin> set n"
    using Cons.prems by auto
  from nv have "demo_narrow (map ucast n, map ucast v)"
    using ucast_eq_61 by (force simp: demo_narrow_def plain_def list_all_iff)
  moreover have "n \<noteq> []" using nv(1) by (simp add: plain_def)
  ultimately obtain s1 s2 where "putenv_s demo_env_api (map ucast n) (map ucast v) s = Some s1"
      "SetEnvironmentVariableW demo_env_api n (Some v) s1 = Some s2"
    using demo_putenv demo_setenv by metis
  moreover obtain s' where "set_approved demo_env_api env s2 = Some s'" using Cons.IH [OF rest] by blast
  ultimately show ?case using nv by (simp add: e plain_utf8)
qed simp

lemma demo_clear_narrow:
  "list_all (\<lambda>n. demo_narrow (n, [])) ns \<Longrightarrow> \<exists>s'. clear_narrow demo_env_api ns s = Some s' \<and> snd s' = snd s"
proof (induction ns arbitrary: s)
  case (Cons n ns)
  then obtain s1 where "putenv_s demo_env_api n [] s = Some s1" "snd s1 = snd s" using demo_putenv by fastforce
  with Cons.IH [of s1] Cons.prems show ?case by auto
qed simp

lemma demo_clear_wide: "list_all (\<lambda>n. n \<noteq> []) ns \<Longrightarrow> \<exists>s'. clear_wide demo_env_api ns s = Some s'"
proof (induction ns arbitrary: s)
  case (Cons n ns)
  then have "n \<noteq> []" by simp
  from demo_setenv [OF this] obtain s1 where "SetEnvironmentVariableW demo_env_api n None s = Some s1" by blast
  with Cons.IH [of s1] Cons.prems show ?case by auto
qed simp

lemma names_before: "list_all (\<lambda>n. n \<noteq> [] \<and> c \<notin> set n) (List.map_filter (name_before c) items)"
  by (auto simp: list_all_iff List.map_filter_def name_before_def dest: set_takeWhileD)

lemma demo_apply_succeeds:
  assumes "list_all demo_valid (snd s)" "\<forall>(n, v) \<in> set env. plain n \<and> plain v \<and> 61 \<notin> set n"
  shows "\<exists>s'. DenBrowserApplyCurrentEnvironment demo_env_api env s = Some s'"
proof -
  have narrow: "list_all (\<lambda>n. demo_narrow (n, [])) (List.map_filter (name_before 61) (environ demo_env_api s))"
    using names_before [of 61 "environ demo_env_api s"] by (simp add: demo_narrow_def)
  obtain s1 where s1: "clear_narrow demo_env_api (List.map_filter (name_before 61) (environ demo_env_api s)) s = Some s1" "snd s1 = snd s"
    using demo_clear_narrow [OF narrow] by blast
  moreover obtain raw where "GetEnvironmentStringsW demo_env_api s1 = Some raw"
    using assms(1) s1(2) by (cases s1) (auto simp: demo_env_api_def)
  moreover have "list_all (\<lambda>n. n \<noteq> []) (List.map_filter (name_before 61) (block_items raw))"
    using names_before [of 61 "block_items raw"] by (simp add: list_all_iff)
  then obtain s2 where "clear_wide demo_env_api (List.map_filter (name_before 61) (block_items raw)) s1 = Some s2"
    using demo_clear_wide by blast
  moreover obtain s' where "set_approved demo_env_api env s2 = Some s'" using demo_set_succeeds [OF assms(2)] by blast
  ultimately show ?thesis by (simp add: DenBrowserApplyCurrentEnvironment_def)
qed

lemma demo_environment:
  "DenBrowserGetApplicationDirectory (Some (wide ''C:/d/den.exe'')) = Some (wide ''C:/d'')"
  "DenBrowserBuildEnvironment demo_folders None (wide ''C:/d'') =
     Some (launch_environment (wide ''C:/d'') (wide ''C:/Win'') (wide ''C:/Win/Sys'') (wide ''C:/Win'') (wide ''C:/u/Local'') (wide ''C:/Programs''))"
  "list_all demo_valid (snd demo_caller)"
  "\<forall>(n, v) \<in> set (launch_environment (wide ''C:/d'') (wide ''C:/Win'') (wide ''C:/Win/Sys'') (wide ''C:/Win'') (wide ''C:/u/Local'') (wide ''C:/Programs'')).
     plain n \<and> plain v \<and> 61 \<notin> set n"
proof -
  show "DenBrowserGetApplicationDirectory (Some (wide ''C:/d/den.exe'')) = Some (wide ''C:/d'')"
    by (simp add: DenBrowserGetApplicationDirectory_def wide_def)
  have "take 6 (wide ''C:/Win'' @ replicate kBufferSize 0) = wide ''C:/Win''" "wide ''C:/Win'' ! 1 = 58"
    by (simp_all add: wide_def)
  then show "DenBrowserBuildEnvironment demo_folders None (wide ''C:/d'') =
     Some (launch_environment (wide ''C:/d'') (wide ''C:/Win'') (wide ''C:/Win/Sys'') (wide ''C:/Win'') (wide ''C:/u/Local'') (wide ''C:/Programs''))"
    by (simp add: DenBrowserBuildEnvironment_def demo_folders_def DenBrowserGetKnownFolder_def kBufferSize_def
        eight_sorted eight_differ launch_environment_def Let_def del: neighbours_differ.simps)
  show "list_all demo_valid (snd demo_caller)"
    by (simp add: demo_caller_def demo_valid_def named_def wide_def)
  show "\<forall>(n, v) \<in> set (launch_environment (wide ''C:/d'') (wide ''C:/Win'') (wide ''C:/Win/Sys'') (wide ''C:/Win'') (wide ''C:/u/Local'') (wide ''C:/Programs'')).
     plain n \<and> plain v \<and> 61 \<notin> set n"
    by (simp add: launch_environment_def plain_def wide_def)
qed

lemma demo_launcher_starts:
  "\<exists>s'. LauncherMain_start demo_folders demo_env_api Some True False None [Some (wide ''C:/d/den.exe'')] demo_caller =
     Launcher [Some (wide ''C:/d/den.exe'')] s'"
proof -
  let ?argv = "[Some (wide ''C:/d/den.exe'')]"
  have "LauncherMain_gate True False None ?argv = Launch ?argv" by (simp add: gate_Launch)
  moreover obtain s1 where "Option.bind (DenBrowserBuildEnvironment demo_folders None (wide ''C:/d'')) (\<lambda>env.
      DenBrowserApplyCurrentEnvironment demo_env_api env demo_caller) = Some s1"
    using demo_apply_succeeds [OF demo_environment(3,4)] unfolding demo_environment(2) by auto
  moreover have "demo_narrow (bytes ''MOZ_LAUNCHER_PROCESS'', bytes ''1'')"
    by (simp add: demo_narrow_def marker_name wide_def)
  then obtain s2 where "putenv_s demo_env_api (bytes ''MOZ_LAUNCHER_PROCESS'') (bytes ''1'') s1 = Some s2"
    using demo_putenv by blast
  moreover have marker_nonempty: "wide ''MOZ_LAUNCHER_PROCESS'' \<noteq> []" by simp
  moreover obtain s3 where "SetEnvironmentVariableW demo_env_api (wide ''MOZ_LAUNCHER_PROCESS'') (Some (wide ''1'')) s2 = Some s3"
    using demo_setenv [OF marker_nonempty] by blast
  ultimately show ?thesis by (simp add: LauncherMain_start_def demo_environment(1))
qed

lemma value_in_None: "\<forall>n \<in> set (map fst env). \<not> same m n \<Longrightarrow> value_in same env m = None"
  by (auto simp: value_in_def find_None_iff)

theorem clean_start_witness:
  "\<exists>s'. LauncherMain_start demo_folders demo_env_api Some True False None [Some (wide ''C:/d/den.exe'')] demo_caller =
       Launcher [Some (wide ''C:/d/den.exe'')] s' \<and>
     native_vars demo_env_reading s' (wide ''MOZ_LOG'') = None \<and>
     native_vars demo_env_reading s' (wide ''moz_launcher_process'') = Some (wide ''1'')"
proof -
  let ?start = "LauncherMain_start demo_folders demo_env_api Some True False None [Some (wide ''C:/d/den.exe'')] demo_caller"
  obtain s' where s': "?start = Launcher [Some (wide ''C:/d/den.exe'')] s'" using demo_launcher_starts by blast
  from clean_start [OF demo_env_laws, where w = demo_folders and fullPath = Some and lp = True and auth = False
      and same = None and argv = "[Some (wide ''C:/d/den.exe'')]" and s = demo_caller]
  obtain env where env: "map fst env = eight_names"
    "holds_only demo_env_api demo_env_reading s' (env @ [(wide ''MOZ_LAUNCHER_PROCESS'', wide ''1'')])"
    unfolding s' by auto
  have "value_in wcsieq env (wide ''MOZ_LOG'') = None"
    by (rule value_in_None, unfold env(1)) (simp add: eight_names_def wcsieq_def wide_def wchar_lower_def to_ascii_lower_def)
  moreover have "wcsieq (wide ''moz_launcher_process'') (wide ''MOZ_LAUNCHER_PROCESS'')"
      "\<not> wcsieq (wide ''MOZ_LOG'') (wide ''MOZ_LAUNCHER_PROCESS'')"
      "\<not> pseudo (wide ''MOZ_LOG'')" "\<not> pseudo (wide ''moz_launcher_process'')"
    by (simp_all add: pseudo_def wcsieq_def wide_def wchar_lower_def to_ascii_lower_def)
  ultimately show ?thesis
    using s' env(2) unfolding holds_only_def by auto
qed

theorem environment_block_roundtrip_witness:
  "list_all (\<lambda>(n, v). 0 \<notin> set n \<and> 0 \<notin> set v) [(wide ''TMP'', wide ''C:/t'')] \<and>
   block_items (wide ''TMP=C:/t'' @ [0, 0]) = [wide ''TMP=C:/t'']"
  using environment_block_roundtrip [of "[(wide ''TMP'', wide ''C:/t'')]" "\<lambda>_. True"]
  by (simp add: serialize_eq named_def total_length_def wide_def)

end
