(* ===== verification/Path_Privacy.thy ===== *)
theory Path_Privacy
  imports Proxy Logging
begin

text \<open>
  Confidentiality of the URL (\<^verbatim>\<open>src/proxy/src/audit.rs\<close>, module documentation: records must never contain
  the URL path or query string; \<^verbatim>\<open>request_summary\<close> in \<^verbatim>\<open>main.rs\<close>).  Two runs of the request path, for requests
  that differ in the path and in the token that seals it, in which the checks decide alike, record
  the same and log the same.
\<close>

section \<open>Two runs\<close>

text \<open>Two requests on equal connections, equal but for the path and the value of the token header.\<close>

definition twins :: "(byte list \<Rightarrow> ustring option) \<Rightarrow> session \<Rightarrow> session \<Rightarrow> bool" where
  "twins to_str se se' \<longleftrightarrow>
     se_server_addr se = se_server_addr se' \<and> se_client_addr se = se_client_addr se' \<and>
     session_client_cert se = session_client_cert se' \<and> se_body se = se_body se' \<and> se_body_error se = se_body_error se' \<and>
     rq_method (se_request se) = rq_method (se_request se') \<and>
     rq_authority (se_request se) = rq_authority (se_request se') \<and>
     (\<forall>n. n \<noteq> TOKEN_HEADER \<longrightarrow> map_of (rq_headers (se_request se)) n = map_of (rq_headers (se_request se')) n) \<and>
     contains_key (rq_headers (se_request se)) TOKEN_HEADER = contains_key (rq_headers (se_request se')) TOKEN_HEADER \<and>
     (header_str to_str (rq_headers (se_request se)) TOKEN_HEADER = None) =
       (header_str to_str (rq_headers (se_request se')) TOKEN_HEADER = None)"

text \<open>The states of two runs agree but for the rate counters, which are keyed by the path.\<close>

definition agree :: "('sk, 'g, 'r) proxy_state \<Rightarrow> ('sk, 'g, 'r) proxy_state \<Rightarrow> bool" where
  "agree s t \<longleftrightarrow>
     ps_verifier s = ps_verifier t \<and> ps_dns s = ps_dns t \<and> (ps_limiter s = None) = (ps_limiter t = None)"

definition alike :: "('sk, 'g, 'r) filter_exit \<Rightarrow> ('sk, 'g, 'r) filter_exit \<Rightarrow> bool" where
  "alike x y \<longleftrightarrow> fst x = fst y \<and> fst (snd x) = fst (snd y) \<and> agree (snd (snd x)) (snd (snd y))"

text \<open>Results of a phase: both leave with exits alike, or both go on with values related by \<open>Q\<close>.\<close>

definition both :: "('a \<Rightarrow> 'b \<Rightarrow> bool) \<Rightarrow> ('sk, 'g, 'r) filter_exit + 'a \<Rightarrow> ('sk, 'g, 'r) filter_exit + 'b \<Rightarrow> bool" where
  "both Q x y \<longleftrightarrow>
     (case (x, y) of (Inl e, Inl f) \<Rightarrow> alike e f | (Inr a, Inr b) \<Rightarrow> Q a b | _ \<Rightarrow> False)"

lemma both_bind:
  assumes "both Q x y" "\<And>a b. Q a b \<Longrightarrow> both Q' (f a) (g b)"
  shows "both Q' (rbind x f) (rbind y g)"
  using assms by (cases x; cases y) (auto simp: both_def)

lemma other_headers:
  "str ''host'' \<noteq> TOKEN_HEADER" "TS_HEADER \<noteq> TOKEN_HEADER" "NONCE_HEADER \<noteq> TOKEN_HEADER" "MACHINE_CERT_HEADER \<noteq> TOKEN_HEADER"
  by (simp_all add: TOKEN_HEADER_def TS_HEADER_def NONCE_HEADER_def MACHINE_CERT_HEADER_def)

lemma twins_read:
  assumes "twins to_str se se'"
  shows "client_ip se' = client_ip se" "session_client_cert se' = session_client_cert se"
    "request_host to_str (se_request se') = request_host to_str (se_request se)"
    "n \<noteq> TOKEN_HEADER \<Longrightarrow> header_str to_str (rq_headers (se_request se')) n = header_str to_str (rq_headers (se_request se)) n"
    "contains_key (rq_headers (se_request se')) n = contains_key (rq_headers (se_request se)) n"
    "se_body se' = se_body se" "se_body_error se' = se_body_error se"
    "rq_method (se_request se') = rq_method (se_request se)"
proof -
  have other: "map_of (rq_headers (se_request se')) m = map_of (rq_headers (se_request se)) m" if "m \<noteq> TOKEN_HEADER" for m
    using assms that by (simp add: twins_def)
  have token: "contains_key (rq_headers (se_request se')) TOKEN_HEADER = contains_key (rq_headers (se_request se)) TOKEN_HEADER"
    using assms by (simp add: twins_def)
  have auth: "rq_authority (se_request se') = rq_authority (se_request se)" using assms by (simp add: twins_def)
  show "client_ip se' = client_ip se" "session_client_cert se' = session_client_cert se" "se_body se' = se_body se"
    "se_body_error se' = se_body_error se" "rq_method (se_request se') = rq_method (se_request se)"
    using assms by (simp_all add: twins_def client_ip_def)
  show read: "header_str to_str (rq_headers (se_request se')) n = header_str to_str (rq_headers (se_request se)) n"
    if "n \<noteq> TOKEN_HEADER" for n
    using other [OF that] by (simp add: header_str_def)
  show "contains_key (rq_headers (se_request se')) n = contains_key (rq_headers (se_request se)) n"
    using other [of n] token by (cases "n = TOKEN_HEADER") (simp_all add: contains_key_def)
  show "request_host to_str (se_request se') = request_host to_str (se_request se)"
    using read [OF other_headers(1)] auth unfolding request_host_def by (simp only:)
qed

lemma twins_token:
  "twins to_str se se' \<Longrightarrow> (header_str to_str (rq_headers (se_request se')) n = None) =
     (header_str to_str (rq_headers (se_request se)) n = None)"
  by (cases "n = TOKEN_HEADER") (simp_all add: twins_read(4), simp add: twins_def)

lemmas twins_heads = twins_read(4) [OF _ other_headers(2)] twins_read(4) [OF _ other_headers(3)]
  twins_read(4) [OF _ other_headers(4)]

section \<open>Phase by phase\<close>

lemma record_head_twin:
  "twins (d_to_str d) se se' \<Longrightarrow> record_head d (se_request se') ra = record_head d (se_request se) ra"
  by (simp only: record_head_def twins_heads twins_read(3,8) Let_def)

lemma rate_phase_twin:
  assumes "agree s t" "rate_admits d mo se s = rate_admits d mo se' t" "client_ip se' = client_ip se"
  shows "both agree (rate_phase d mo (client_ip se) (se_request se) ra s) (rate_phase d mo (client_ip se') (se_request se') ra t)"
  using assms
  by (cases "ps_limiter s"; cases "ps_limiter t"; cases "client_ip se")
    (auto simp: rate_phase_def rate_admits_def both_def alike_def agree_def Let_def case_prod_beta)

lemma bypass_phase_twin: "agree s t \<Longrightarrow> both (=) (bypass_phase d px ip cert ra s) (bypass_phase d px ip cert ra t)"
  by (auto simp: bypass_phase_def both_def alike_def split: option.splits)

lemma describe_twin:
  assumes "twins to_str se se'"
  shows "describe_incomplete to_str (rq_headers (se_request se')) a b = describe_incomplete to_str (rq_headers (se_request se)) a b"
  by (simp only: describe_incomplete_def twins_token [OF assms] twins_read(5) [OF assms, abs_def])

lemma header_phase_twin:
  assumes "twins (d_to_str d) se se'" "agree s t"
  shows "both (\<lambda>i j. inputs_of (d_to_str d) (se_request se) i \<and> inputs_of (d_to_str d) (se_request se') j)
     (header_phase d (se_request se) ra s) (header_phase d (se_request se') ra t)"
proof -
  note same = twins_heads [OF assms(1)] twins_read(3,5) [OF assms(1)] twins_token [OF assms(1), of TOKEN_HEADER]
    describe_twin [OF assms(1)]
  have "is_ok (header_phase d (se_request se) ra s) = is_ok (header_phase d (se_request se') ra t)"
    using same(4,6) unfolding header_phase_def Let_def same(1,2,4) by (auto split: option.splits)
  moreover have "alike x y" if "header_phase d (se_request se) ra s = Inl x" "header_phase d (se_request se') ra t = Inl y" for x y
    using that assms(2) unfolding header_phase_def Let_def same(1,2,4,5,7) by (auto simp: alike_def split: option.splits)
  ultimately show ?thesis
    by (cases "header_phase d (se_request se) ra s"; cases "header_phase d (se_request se') ra t")
      (simp_all add: both_def, auto dest: header_phase_ok [THEN iffD1])
qed

lemma preflight_twin: "agree s t \<Longrightarrow> both (=) (preflight px present ra s) (preflight px present ra t)"
  by (auto simp: preflight_def both_def alike_def split: option.splits)

lemma phase_one_twin:
  assumes "agree s t"
    and "verify_headers (d_crypto d) (mo_head mo) (ps_verifier s) i = verify_headers (d_crypto d) (mo_head mo) (ps_verifier s) j"
  shows "both (=) (phase_one_step d mo i ra s) (phase_one_step d mo j ra t)"
  using assms by (auto simp: phase_one_step_def both_def alike_def agree_def split: sum.splits)

lemma machine_phase_twin:
  assumes "agree s t" "agree (oth s) (oth' t)"
  shows "both (\<lambda>x y. fst x = fst y \<and> agree (snd x) (snd y))
     (machine_phase d mo px oth present ip ra s) (machine_phase d mo px oth' present ip ra t)"
  using assms
  by (auto simp: machine_phase_def both_def alike_def agree_def Let_def case_prod_beta split: option.splits sum.splits if_splits)

lemma body_phase_twin:
  "agree s t \<Longrightarrow> se_body se' = se_body se \<Longrightarrow> se_body_error se' = se_body_error se \<Longrightarrow>
   alike (body_phase d mo se p1 ra s) (body_phase d mo se' p1 ra t)"
  by (auto simp: body_phase_def commit_step_def alike_def agree_def case_prod_beta
      split: body_binding.splits body_outcome.splits sum.splits prod.splits)

section \<open>The path is not recorded\<close>

lemma attested_path_twin:
  assumes tw: "twins (d_to_str d) se se'" and st: "agree s t"
    and oth: "\<And>k s t. agree s t \<Longrightarrow> agree (others k s) (others' k t)"
    and ver: "\<And>v i j. inputs_of (d_to_str d) (se_request se) i \<Longrightarrow> inputs_of (d_to_str d) (se_request se') j \<Longrightarrow>
      verify_headers (d_crypto d) (mo_head mo) v i = verify_headers (d_crypto d) (mo_head mo) v j"
  shows "both alike (attested_path d mo px others se ra s) (attested_path d mo px others' se' ra t)"
  unfolding attested_path_def Let_def twins_read(1,5) [OF tw]
proof (rule both_bind [OF header_phase_twin [OF tw st]], rule both_bind [OF preflight_twin [OF st]])
  fix i j and ra1 ra2 :: request_audit
  assume ij: "inputs_of (d_to_str d) (se_request se) i \<and> inputs_of (d_to_str d) (se_request se') j" and "ra1 = ra2"
  note st1 = oth [OF st, of 1] and st2 = oth [OF oth [OF st, of 1], of 2]
  let ?present = "contains_key (rq_headers (se_request se)) MACHINE_CERT_HEADER"
  have body: "both alike (Inr (body_phase d mo se p1 ra3 (others 4 s3))) (Inr (body_phase d mo se' p1 ra3 (others' 4 s4)))"
    if "agree s3 s4" for p1 ra3 s3 s4
    using body_phase_twin [OF oth [OF that] twins_read(6,7) [OF tw]] by (simp add: both_def)
  have machine: "both alike
      (rbind (machine_phase d mo px (others 3) ?present (client_ip se) ra2 (others 2 (others 1 s)))
         (\<lambda>(ra3, st3). Inr (body_phase d mo se p1 ra3 (others 4 st3))))
      (rbind (machine_phase d mo px (others' 3) ?present (client_ip se) ra2 (others' 2 (others' 1 t)))
         (\<lambda>(ra3, st3). Inr (body_phase d mo se' p1 ra3 (others' 4 st3))))" for p1 ra2
    unfolding case_prod_beta
    by (rule both_bind [OF machine_phase_twin [where oth = "others 3" and oth' = "others' 3", OF st2 oth [OF st2]]])
      (auto intro!: body)
  show "both alike
      (rbind (phase_one_step d mo i ra1 (others 1 s)) (\<lambda>(p1, ra2).
         rbind (machine_phase d mo px (others 3) ?present (client_ip se) ra2 (others 2 (others 1 s)))
           (\<lambda>(ra3, st3). Inr (body_phase d mo se p1 ra3 (others 4 st3)))))
      (rbind (phase_one_step d mo j ra2 (others' 1 t)) (\<lambda>(p1, ra2).
         rbind (machine_phase d mo px (others' 3) ?present (client_ip se) ra2 (others' 2 (others' 1 t)))
           (\<lambda>(ra3, st3). Inr (body_phase d mo se' p1 ra3 (others' 4 st3)))))"
    unfolding \<open>ra1 = ra2\<close>
    by (rule both_bind [OF phase_one_twin [OF st1 ver]]) (use ij machine in \<open>auto simp: case_prod_beta\<close>)
qed

lemma request_filter_twin:
  assumes "twins (d_to_str d) se se'" "agree s t"
    and "\<And>k s t. agree s t \<Longrightarrow> agree (others k s) (others' k t)"
    and "rate_admits d mo se (others 0 s) = rate_admits d mo se' (others' 0 t)"
    and "\<And>v i j. inputs_of (d_to_str d) (se_request se) i \<Longrightarrow> inputs_of (d_to_str d) (se_request se') j \<Longrightarrow>
      verify_headers (d_crypto d) (mo_head mo) v i = verify_headers (d_crypto d) (mo_head mo) v j"
  shows "alike (request_filter d mo px others se ra s) (request_filter d mo px others' se' ra t)"
proof -
  let ?ra = "record_head d (se_request se) ra"
  let ?run = "\<lambda>oth se s. rbind (rate_phase d mo (client_ip se) (se_request se) ?ra (oth 0 s)) (\<lambda>st'.
     rbind (bypass_phase d px (client_ip se) (session_client_cert se) ?ra st') (\<lambda>_. attested_path d mo px oth se ?ra st'))"
  have "both alike (?run others se s) (?run others' se' t)"
  proof (rule both_bind [OF rate_phase_twin [OF assms(3) [OF assms(2)] assms(4) twins_read(1) [OF assms(1)]]], goal_cases)
    case (1 s' t')
    show ?case unfolding twins_read(1,2) [OF assms(1)]
      by (rule both_bind [OF bypass_phase_twin [OF 1]]) (rule attested_path_twin [OF assms(1) 1 assms(3,5)])
  qed
  then show ?thesis
    unfolding request_filter_def Let_def record_head_twin [OF assms(1)]
    by (auto simp: both_def split: sum.splits)
qed

text \<open>
  C8. Neither the path nor the token leaves a trace in the log.  Take two requests that differ in the
  URL path and query and in the token alone, and two runs of the request path for them, each
  interleaved with other requests, that start alike; if the rate limiter and phase 1 decide the same
  for both, then they are answered alike, record the same, and, whatever the upstream does, leave
  the same audit line (or the same absence of one); and what pingora's own error lines say of them is
  the same.
\<close>

theorem path_never_logged:
  assumes "twins (d_to_str d) se se'" "agree s t"
    and "\<forall>k s t. agree s t \<longrightarrow> agree (others k s) (others' k t)"
    and "rate_admits d mo se (others 0 s) = rate_admits d mo se' (others' 0 t)"
    and "\<forall>v i j. inputs_of (d_to_str d) (se_request se) i \<longrightarrow> inputs_of (d_to_str d) (se_request se') j \<longrightarrow>
      verify_headers (d_crypto d) (mo_head mo) v i = verify_headers (d_crypto d) (mo_head mo) v j"
    and "request_filter d mo px others se (proxy_new_ctx start px) s = (v, ra, s1)"
    and "request_filter d mo px others' se' (proxy_new_ctx start px) t = (v', ra', t1)"
  shows "v = v' \<and> ra = ra' \<and>
     logging_hook (d_openssl d) (d_time d) enabled to_json now wall se status read e (fold response_body_filter cs ra) =
     logging_hook (d_openssl d) (d_time d) enabled to_json now wall se' status read e (fold response_body_filter cs ra') \<and>
     request_summary (d_to_str d) (se_request se) = request_summary (d_to_str d) (se_request se')"
proof -
  have "alike (request_filter d mo px others se (proxy_new_ctx start px) s)
      (request_filter d mo px others' se' (proxy_new_ctx start px) t)"
    by (rule request_filter_twin [OF assms(1,2)]) (use assms(3-5) in blast)+
  then have eq: "v = v'" "ra = ra'" unfolding assms(6,7) by (simp_all add: alike_def)
  have conn: "connection_of se status read x = connection_of se' status read x" for x
    using assms(1) by (simp add: connection_of_def twins_def)
  show ?thesis
    using eq by (simp add: logging_hook_def conn request_summary_def twins_read(3,8) [OF assms(1)])
qed

section \<open>An example\<close>

text \<open>The demo request of \<open>Proxy\<close> and the same request for another path, with a token for that path.\<close>

abbreviation token_for :: "string \<Rightarrow> ustring" where
  "token_for p \<equiv> make_token demo_crypto () () (replicate 16 65) (str ''1000'') (str ''host'') (str ''GET'') (str p) []"

definition session_for :: "string \<Rightarrow> session" where
  "session_for p = demo_session\<lparr>se_request := \<lparr>rq_method = str ''GET'', rq_authority = Some (str ''host:443''),
     rq_path_and_query = Some (str p),
     rq_headers = [(TS_HEADER, map of_nat (str ''1000'')), (NONCE_HEADER, replicate 16 65),
       (TOKEN_HEADER, map of_nat (token_for p))]\<rparr>\<rparr>"

abbreviation inputs_for :: "string \<Rightarrow> attest_inputs" where
  "inputs_for p \<equiv> \<lparr>in_ts = str ''1000'', in_nonce_b64 = replicate 16 65, in_token_b64 = token_for p, in_host = str ''host'',
     in_method = str ''GET'', in_path = str p\<rparr>"

lemma session_for_inputs:
  assumes "list_all (\<lambda>c. c < 128) (token_for p)" "inputs_of (d_to_str demo_deps) (se_request (session_for p)) i"
  shows "i = inputs_for p"
proof -
  have "list_all (\<lambda>c. c < 128) (str ''1000'')" "list_all (\<lambda>c. c < 128) (replicate 16 65 :: ustring)"
    by (simp_all add: str_def list_all_iff)
  then have "demo_to_str (map of_nat (str ''1000'')) = Some (str ''1000'')"
    "demo_to_str (replicate 16 65) = Some (replicate 16 65)"
    using demo_to_str_ascii [of "str ''1000''"] demo_to_str_ascii [of "replicate 16 65"] by simp_all
  moreover have "demo_to_str (map of_nat (token_for p)) = Some (token_for p)"
    using assms(1) by (rule demo_to_str_ascii)
  moreover have "hd (split_on 58 (str ''host:443'')) = str ''host''" by (simp add: hd_split_on str_def)
  ultimately show ?thesis
    using assms(2) header_names_distinct
    by (cases i) (simp add: inputs_of_def demo_deps_def session_for_def header_str_def request_host_def request_path_def)
qed

lemma inputs_for_verified:
  assumes "plain_field (str p)"
  shows "verify_headers demo_crypto demo_wall v (inputs_for p) =
     (if nc_contains (v_cache v) (replicate 16 65) then Inl AE_NonceReplay else Inr (demo_p1 65))"
proof (cases "nc_contains (v_cache v) (replicate 16 65)")
  case True
  then show ?thesis
    by (simp add: verify_headers_def parse_i64_1000 unix_now_demo check_drift_eq decode_nonce_def demo_b64 NONCE_LEN_def)
next
  case False
  then show ?thesis
    using assms plain_field_hex [of "replicate 32 0"] parse_body_binding_hex [of "replicate 32 0"] minted_field_accepted [OF crypto_laws_demo, of v "()" "replicate 16 65" "str ''1000''" "str ''host''"
        "str ''GET''" "str p" "sha256_hex demo_crypto []" 1000 demo_wall "replicate 16 65" "Hash (replicate 32 0)" "()"]
    by (simp add: make_token_def plain_demo parse_i64_1000 unix_now_demo demo_pub demo_b64 sha256_hex_def
        demo_sha)
qed

lemma demo_paths: "list_all (\<lambda>c. c < 128) (token_for ''/a'')" "list_all (\<lambda>c. c < 128) (token_for ''/b'')"
  by code_simp+

lemma demo_plain_paths: "plain_field (str ''/a'')" "plain_field (str ''/b'')"
  by (simp_all add: plain_field_def str_def)

theorem path_never_logged_witness:
  "session_for ''/a'' \<noteq> session_for ''/b'' \<and>
   fst (snd (request_filter demo_deps demo_moments demo_px alone (session_for ''/a'') (proxy_new_ctx 0 demo_px) demo_state)) =
   fst (snd (request_filter demo_deps demo_moments demo_px alone (session_for ''/b'') (proxy_new_ctx 0 demo_px) demo_state))"
proof -
  let ?run = "\<lambda>p. request_filter demo_deps demo_moments demo_px alone (session_for p) (proxy_new_ctx 0 demo_px) demo_state"
  have tok: "demo_to_str (map of_nat (token_for ''/a'')) \<noteq> None" "demo_to_str (map of_nat (token_for ''/b'')) \<noteq> None"
    using demo_paths(1,2) by (simp_all add: demo_to_str_ascii)
  have tw: "twins (d_to_str demo_deps) (session_for ''/a'') (session_for ''/b'')"
    using tok header_names_distinct by (auto simp: twins_def session_for_def contains_key_def header_str_def demo_deps_def)
  have ver: "verify_headers (d_crypto demo_deps) (mo_head demo_moments) v i = verify_headers (d_crypto demo_deps) (mo_head demo_moments) v j"
    if "inputs_of (d_to_str demo_deps) (se_request (session_for ''/a'')) i"
      "inputs_of (d_to_str demo_deps) (se_request (session_for ''/b'')) j" for v i j
    using session_for_inputs [OF demo_paths(1) that(1)] session_for_inputs [OF demo_paths(2) that(2)]
      inputs_for_verified [OF demo_plain_paths(1), of v] inputs_for_verified [OF demo_plain_paths(2), of v]
    by (simp add: demo_deps_def truncate_crypto demo_moments_def)
  obtain v ra s v' ra' t where runs: "?run ''/a'' = (v, ra, s)" "?run ''/b'' = (v', ra', t)"
    by (metis prod_cases3)
  have ag: "agree demo_state demo_state" by (simp add: agree_def)
  have adm: "rate_admits demo_deps demo_moments (session_for ''/a'') demo_state =
      rate_admits demo_deps demo_moments (session_for ''/b'') demo_state"
    by (simp add: rate_admits_def demo_state_def)
  have "ra = ra'"
    by (rule path_never_logged [OF tw ag _ adm _ runs, THEN conjunct2, THEN conjunct1]) (use ver in auto)
  moreover have "request_path (se_request (session_for ''/a'')) \<noteq> request_path (se_request (session_for ''/b''))"
    by (simp add: session_for_def request_path_def)
  then have "session_for ''/a'' \<noteq> session_for ''/b''" by metis
  ultimately show ?thesis using runs by simp
qed

end
