(* ===== verification/Json_Formats.thy ===== *)
theory Json_Formats
  imports Audit_Trail
begin

text \<open>
  The formats JSON Schema knows by name and the log's schema asks for, stated on the text alone: \<^verbatim>\<open>ipv4\<close>
  (four decimal octets), \<^verbatim>\<open>ipv6\<close> (RFC 4291: groups of one to four hexadecimal digits, at most one
  \<^verbatim>\<open>::\<close>, the last two groups possibly a dotted quad) and \<^verbatim>\<open>date-time\<close> (RFC 3339, a date of the calendar).
  The lemmas show that the proxy's printers of \<open>Prelude\<close> (addresses) and \<open>Audit_Trail\<close> (timestamps) meet them.
\<close>

section \<open>Addresses\<close>

definition dec_octet :: "ustring \<Rightarrow> bool" where
  "dec_octet s \<longleftrightarrow> s \<noteq> [] \<and> length s \<le> 3 \<and> list_all is_digit s \<and> (hd s = 48 \<longrightarrow> length s = 1) \<and>
     (case digits_val 10 0 s of Some n \<Rightarrow> n \<le> 255 | None \<Rightarrow> False)"

definition ipv4_format :: "ustring \<Rightarrow> bool" where
  "ipv4_format s \<longleftrightarrow> length (split_on 46 s) = 4 \<and> list_all dec_octet (split_on 46 s)"

definition is_hex :: "uchar \<Rightarrow> bool" where
  "is_hex c \<longleftrightarrow> is_digit c \<or> 97 \<le> c \<and> c \<le> 102 \<or> 65 \<le> c \<and> c \<le> 70"

definition h16 :: "ustring \<Rightarrow> bool" where
  "h16 s \<longleftrightarrow> s \<noteq> [] \<and> length s \<le> 4 \<and> list_all is_hex s"

text \<open>How many 16-bit groups the pieces between colons stand for; a final dotted quad counts as two.\<close>

fun groups :: "ustring list \<Rightarrow> nat option" where
  "groups [] = Some 0"
| "groups [p] = (if h16 p then Some 1 else if ipv4_format p then Some 2 else None)"
| "groups (p # q # ps) = (if h16 p then map_option Suc (groups (q # ps)) else None)"

definition left_groups :: "ustring \<Rightarrow> nat option" where
  "left_groups s =
     (if s = [] then Some 0 else if list_all h16 (split_on 58 s) then Some (length (split_on 58 s)) else None)"

definition right_groups :: "ustring \<Rightarrow> nat option" where
  "right_groups s = (if s = [] then Some 0 else groups (split_on 58 s))"

text \<open>The text around a \<^verbatim>\<open>::\<close> at position \<open>i\<close>.\<close>

definition compressed_at :: "ustring \<Rightarrow> nat \<Rightarrow> bool" where
  "compressed_at s i \<longleftrightarrow> take 2 (drop i s) = [58, 58] \<and>
     (case (left_groups (take i s), right_groups (drop (i + 2) s)) of
        (Some a, Some b) \<Rightarrow> a + b \<le> 7 | _ \<Rightarrow> False)"

definition ipv6_format :: "ustring \<Rightarrow> bool" where
  "ipv6_format s \<longleftrightarrow> groups (split_on 58 s) = Some 8 \<or> list_ex (compressed_at s) [0..<length s]"

subsection \<open>Digits\<close>

lemma print_radix_length: "2 \<le> r \<Longrightarrow> n < r ^ k \<Longrightarrow> 0 < k \<Longrightarrow> length (print_radix r n) \<le> k"
proof (induction k arbitrary: n)
  case (Suc k)
  show ?case
  proof (cases "n < r")
    case False
    then have "0 < k" using Suc.prems by (cases k) auto
    moreover have "n div r < r ^ k"
      using Suc.prems(2) Suc.prems(1) by (simp add: less_mult_imp_div_less mult.commute)
    ultimately show ?thesis using Suc False by (simp add: print_radix.simps [of r n])
  qed (simp add: print_radix.simps [of r n])
qed simp

lemma print_radix_digits: "2 \<le> r \<Longrightarrow> c \<in> set (print_radix r n) \<Longrightarrow> \<exists>k < r. c = digit_char k"
proof (induction r n rule: print_radix.induct)
  case (1 r n)
  show ?case
  proof (cases "n < r")
    case False
    with 1 have "c \<in> set (print_radix r (n div r)) \<or> c = digit_char (n mod r)" by (auto simp: print_radix.simps [of r n])
    moreover have "n mod r < r" using 1 by simp
    ultimately show ?thesis using 1 False by fastforce
  qed (use 1 in \<open>auto simp: print_radix.simps [of r n]\<close>)
qed

lemma print_radix_nonempty [simp]: "print_radix r n \<noteq> []"
  by (subst print_radix.simps) simp

lemma print_radix_no_leading_zero: "2 \<le> r \<Longrightarrow> 0 < n \<Longrightarrow> r \<le> 36 \<Longrightarrow> hd (print_radix r n) \<noteq> 48"
proof (induction r n rule: print_radix.induct)
  case (1 r n)
  show ?case
  proof (cases "n < r")
    case True
    with 1 show ?thesis by (simp add: print_radix.simps [of r n] digit_char_def)
  next
    case False
    then have "0 < n div r" using 1(2) by (simp add: div_greater_zero_iff)
    with False 1 show ?thesis by (simp add: print_radix.simps [of r n])
  qed
qed

lemma dec_octet_dec_nat: "n \<le> 255 \<Longrightarrow> dec_octet (dec_nat n)"
proof -
  assume n: "n \<le> 255"
  have "length (print_radix 10 n) \<le> 3" using n by (intro print_radix_length) simp_all
  moreover have "list_all is_digit (print_radix 10 n)"
    using print_radix_digits [of 10 _ n] by (fastforce simp: list_all_iff digit_char_def is_digit_def)
  moreover have "hd (print_radix 10 n) = 48 \<longrightarrow> length (print_radix 10 n) = 1"
    using print_radix_no_leading_zero [of 10 n] by (cases "n = 0") (simp_all add: print_radix.simps [of 10 0])
  moreover have "digits_val 10 0 (print_radix 10 n) = Some n" by (simp add: digits_val_print_radix)
  ultimately show ?thesis using n by (simp add: dec_octet_def dec_nat_def)
qed

lemma h16_print_radix: "n < 65536 \<Longrightarrow> h16 (print_radix 16 n)"
proof -
  assume "n < 65536"
  then have "length (print_radix 16 n) \<le> 4" by (intro print_radix_length) simp_all
  moreover have "list_all is_hex (print_radix 16 n)"
    unfolding list_all_iff
  proof
    fix c assume "c \<in> set (print_radix 16 n)"
    then obtain k where "k < 16" "c = digit_char k" using print_radix_digits [of 16 c n] by auto
    then show "is_hex c" by (auto simp: digit_char_def is_hex_def is_digit_def)
  qed
  ultimately show ?thesis by (simp add: h16_def)
qed

lemma is_hex_no_sep: "h16 p \<Longrightarrow> 58 \<notin> set p"
  by (auto simp: h16_def list_all_iff is_hex_def is_digit_def)

lemma dec_octet_no_sep: "dec_octet p \<Longrightarrow> 46 \<notin> set p \<and> 58 \<notin> set p"
  by (auto simp: dec_octet_def list_all_iff is_digit_def)

subsection \<open>The printers\<close>

lemma ipv4_to_string_format:
  assumes "length os = 4" "\<forall>n \<in> set os. n \<le> 255"
  shows "ipv4_format (ipv4_to_string os)" "58 \<notin> set (ipv4_to_string os)" "\<not> h16 (ipv4_to_string os)"
proof -
  have oct: "\<forall>p \<in> set (map dec_nat os). dec_octet p" using assms(2) by (simp add: dec_octet_dec_nat)
  then have "split_on 46 (ipv4_to_string os) = map dec_nat os"
    unfolding ipv4_to_string_def using assms(1) by (intro split_on_join) (auto dest: dec_octet_no_sep)
  then show "ipv4_format (ipv4_to_string os)" using assms(1) oct by (simp add: ipv4_format_def list_all_iff)
  show "58 \<notin> set (ipv4_to_string os)"
    using oct set_join [of "[46]" "map dec_nat os"] dec_octet_no_sep unfolding ipv4_to_string_def by fastforce
  have "46 \<in> set (ipv4_to_string os)"
    using split_on_free [of 46 "ipv4_to_string os"] \<open>split_on 46 (ipv4_to_string os) = map dec_nat os\<close> assms(1)
    by (metis length_map list.size(3) One_nat_def length_Cons numeral_eq_one_iff semiring_norm(83))
  moreover have "\<not> is_hex 46" by (simp add: is_hex_def is_digit_def)
  ultimately show "\<not> h16 (ipv4_to_string os)" unfolding h16_def list_all_iff by blast
qed

abbreviation hex_groups :: "nat list \<Rightarrow> ustring" where
  "hex_groups xs \<equiv> join [58] (map (print_radix 16) xs)"

lemma hex_groups_split:
  assumes "\<forall>n \<in> set xs. n < 65536" "xs \<noteq> []"
  shows "split_on 58 (hex_groups xs) = map (print_radix 16) xs"
  using assms by (intro split_on_join) (auto dest!: h16_print_radix is_hex_no_sep)

lemma groups_hex: "list_all h16 ps \<Longrightarrow> groups ps = Some (length ps)"
  by (induction ps rule: groups.induct) simp_all

lemma hex_groups_counted:
  assumes "\<forall>n \<in> set xs. n < 65536"
  shows "left_groups (hex_groups xs) = Some (length xs)" "right_groups (hex_groups xs) = Some (length xs)"
proof -
  have "list_all h16 (map (print_radix 16) xs)" using assms by (simp add: list_all_iff h16_print_radix)
  moreover have "hex_groups xs \<noteq> []" if "xs \<noteq> []" using that by (cases xs rule: remdups_adj.cases) auto
  ultimately show "left_groups (hex_groups xs) = Some (length xs)" "right_groups (hex_groups xs) = Some (length xs)"
    using hex_groups_split [OF assms] groups_hex [of "map (print_radix 16) xs"]
    by (cases "xs = []"; simp add: left_groups_def right_groups_def)+
qed

lemma zero_span_bound:
  assumes "fst cur + snd cur \<le> i" "fst longest + snd longest \<le> i"
  shows "fst (zero_span i cur longest ss) + snd (zero_span i cur longest ss) \<le> i + length ss"
  using assms by (induction i cur longest ss rule: zero_span.induct) (auto simp: Let_def)

lemma compressed_format:
  assumes "left_groups a = Some m" "right_groups b = Some n" "m + n \<le> 7"
  shows "ipv6_format (a @ str ''::'' @ b)"
proof -
  have "compressed_at (a @ str ''::'' @ b) (length a)" using assms by (simp add: compressed_at_def str_def)
  moreover have "length a \<in> set [0..<length (a @ str ''::'' @ b)]" by (simp add: str_def)
  ultimately show ?thesis unfolding ipv6_format_def list_ex_iff by blast
qed

lemma ipv6_to_string_format:
  assumes "length ss = 8" "\<forall>n \<in> set ss. n < 65536"
  shows "ipv6_format (ipv6_to_string ss)"
proof (cases "take 6 ss = [0, 0, 0, 0, 0, 65535]")
  case True
  let ?v4 = "ipv4_to_string [ss ! 6 div 256, ss ! 6 mod 256, ss ! 7 div 256, ss ! 7 mod 256]"
  have "ss ! 6 < 65536" "ss ! 7 < 65536" using assms by simp_all
  then have "\<forall>n \<in> set [ss ! 6 div 256, ss ! 6 mod 256, ss ! 7 div 256, ss ! 7 mod 256]. n \<le> 255"
    using mod_less_divisor [of 256] by (auto simp: less_Suc_eq_le [symmetric])
  note v4 = ipv4_to_string_format [OF _ this]
  have "split_on 58 (str ''ffff:'' @ ?v4) = [str ''ffff'', ?v4]"
    using split_on_append [of 58 "str ''ffff''" ?v4] split_on_free [of 58 ?v4] v4(2) by (simp add: str_def)
  then have "right_groups (str ''ffff:'' @ ?v4) = Some 3"
    using v4 by (simp add: right_groups_def str_def h16_def is_hex_def is_digit_def)
  from compressed_format [OF _ this, of "[]" 0] True show ?thesis
    by (simp add: ipv6_to_string_def left_groups_def str_def)
next
  case False
  obtain start len where z: "zero_span 0 (0, 0) (0, 0) ss = (start, len)" by (cases "zero_span 0 (0, 0) (0, 0) ss")
  have bound: "start + len \<le> 8" using zero_span_bound [of "(0, 0)" 0 "(0, 0)" ss] z assms(1) by simp
  have part: "\<forall>n \<in> set (take k ss). n < 65536" "\<forall>n \<in> set (drop k ss). n < 65536" for k
    using assms(2) set_take_subset [of k ss] set_drop_subset [of k ss] by blast+
  show ?thesis
  proof (cases "len > 1")
    case True
    have "ipv6_format (hex_groups (take start ss) @ str ''::'' @ hex_groups (drop (start + len) ss))"
      using bound True assms(1)
      by (intro compressed_format [OF hex_groups_counted(1) [OF part(1)] hex_groups_counted(2) [OF part(2)]]) simp
    with False True z show ?thesis by (simp add: ipv6_to_string_def)
  next
    case short: False
    have "groups (split_on 58 (hex_groups ss)) = Some 8"
      using hex_groups_counted(2) [OF assms(2)] assms(1) by (auto simp: right_groups_def split: if_splits)
    with False short z show ?thesis by (simp add: ipv6_to_string_def ipv6_format_def)
  qed
qed

text \<open>Every address the proxy prints is an address in the sense of the format its family has.\<close>

lemma ip_to_string_format:
  "case ip of V4 _ \<Rightarrow> ipv4_format (ip_to_string ip) | V6 _ \<Rightarrow> ipv6_format (ip_to_string ip)"
proof (cases ip)
  case (V4 w)
  have "length (octets w) = 4" "\<forall>n \<in> set (octets w). n \<le> 255"
    using mod_less_divisor [of 256] by (auto simp: octets_def less_Suc_eq_le [symmetric])
  with V4 show ?thesis by (simp add: ipv4_to_string_format(1))
next
  case (V6 w)
  have "length (segments w) = 8" "\<forall>n \<in> set (segments w). n < 65536" by (auto simp: segments_def)
  with V6 show ?thesis by (simp add: ipv6_to_string_format)
qed

section \<open>Dates\<close>

definition days_in_month :: "nat \<Rightarrow> nat \<Rightarrow> nat" where
  "days_in_month y m =
     (if m = 2 then (if y mod 4 = 0 \<and> (y mod 100 \<noteq> 0 \<or> y mod 400 = 0) then 29 else 28)
      else if m \<in> {4, 6, 9, 11} then 30 else 31)"

text \<open>The \<open>n\<close> decimal digits from position \<open>i\<close>, and whether they are digits.\<close>

definition field_val :: "ustring \<Rightarrow> nat" where
  "field_val s = foldl (\<lambda>a c. 10 * a + (c - 48)) 0 s"

definition field :: "ustring \<Rightarrow> nat \<Rightarrow> nat \<Rightarrow> nat" where
  "field s i n = field_val (take n (drop i s))"

definition matches :: "string \<Rightarrow> ustring \<Rightarrow> bool" where
  "matches p s \<longleftrightarrow> list_all2 (\<lambda>p c. if p = 48 then is_digit c else c = p) (str p) s"

text \<open>The offset at the end of an RFC 3339 instant.\<close>

definition time_offset :: "ustring \<Rightarrow> bool" where
  "time_offset s \<longleftrightarrow> s = [90] \<or> s = [122] \<or>
     (matches ''+00:00'' s \<or> matches ''-00:00'' s) \<and> field s 1 2 \<le> 23 \<and> field s 4 2 \<le> 59"

fun after_fraction :: "ustring \<Rightarrow> ustring" where
  "after_fraction (c # cs) = (if c = 46 \<and> takeWhile is_digit cs \<noteq> [] then dropWhile is_digit cs else c # cs)"
| "after_fraction [] = []"

definition date_time :: "ustring \<Rightarrow> bool" where
  "date_time s \<longleftrightarrow>
     (matches ''0000-00-00T00:00:00'' (take 19 s) \<or> matches ''0000-00-00t00:00:00'' (take 19 s)) \<and>
     1 \<le> field s 5 2 \<and> field s 5 2 \<le> 12 \<and> 1 \<le> field s 8 2 \<and> field s 8 2 \<le> days_in_month (field s 0 4) (field s 5 2) \<and>
     field s 11 2 \<le> 23 \<and> field s 14 2 \<le> 59 \<and> field s 17 2 \<le> 60 \<and> time_offset (after_fraction (drop 19 s))"

text \<open>What the calendar of the time crate promises: UTC fields that name a day of the calendar.\<close>

definition real_date :: "utc_time \<Rightarrow> bool" where
  "real_date t \<longleftrightarrow> utc_ok t \<and> 1 \<le> ut_month t \<and> 1 \<le> ut_day t \<and>
     ut_day t \<le> days_in_month (nat (ut_year t)) (ut_month t)"

definition calendar_dates :: "time_ops \<Rightarrow> bool" where
  "calendar_dates tm \<longleftrightarrow>
     (\<forall>secs t. 0 \<le> secs \<and> secs \<le> MAX_ISO_UNIX_SECS \<and> from_unix_timestamp tm secs = Some t \<longrightarrow> real_date t)"

lemma calendar_dates_range: "calendar_dates tm \<Longrightarrow> calendar_range tm"
  by (simp add: calendar_dates_def calendar_range_def real_date_def)

lemma field_val_append: "field_val (s @ [c]) = 10 * field_val s + (c - 48)"
  by (simp add: field_val_def)

lemma field_val_pad: "n < 10 ^ w \<Longrightarrow> field_val (pad_digits w n) = n"
proof (induction w arbitrary: n)
  case (Suc w)
  then have "n div 10 < 10 ^ w" by (simp add: less_mult_imp_div_less mult.commute)
  with Suc.IH show ?case by (simp add: field_val_append)
qed (simp add: field_val_def)

lemma matches_append: "matches p s \<Longrightarrow> matches q t \<Longrightarrow> matches (p @ q) (s @ t)"
  unfolding matches_def str_def by (simp add: list_all2_appendI)

lemma format_utc_date_time:
  assumes "real_date t"
  shows "date_time (format_utc t)"
proof -
  have ok: "utc_ok t" using assms by (simp add: real_date_def)
  note digits = format_utc_digits [OF ok]
  have small: "nat (ut_year t) < 10 ^ 4" "ut_month t < 10 ^ 2" "ut_day t < 10 ^ 2" "ut_hour t < 10 ^ 2"
    "ut_minute t < 10 ^ 2" "ut_second t < 10 ^ 2"
    using ok by (auto simp: utc_ok_def)
  have fields: "field (format_utc t) 0 4 = nat (ut_year t)" "field (format_utc t) 5 2 = ut_month t"
    "field (format_utc t) 8 2 = ut_day t" "field (format_utc t) 11 2 = ut_hour t"
    "field (format_utc t) 14 2 = ut_minute t" "field (format_utc t) 17 2 = ut_second t"
    using field_val_pad [OF small(1)] field_val_pad [OF small(2)] field_val_pad [OF small(3)]
      field_val_pad [OF small(4)] field_val_pad [OF small(5)] field_val_pad [OF small(6)]
    by (simp_all add: digits field_def)
  have head: "matches ''0000-00-00T00:00:00'' (take 19 (format_utc t))"
  proof -
    have "list_all2 (\<lambda>p c. if p = 48 then is_digit c else c = p) (take 19 (str ''0000-00-00T00:00:00.000Z'')) (take 19 (format_utc t))"
      using format_utc_pattern [OF ok] unfolding iso_pattern_def by (rule list_all2_takeI)
    then show ?thesis by (simp add: matches_def str_def)
  qed
  have "drop 19 (format_utc t) = 46 # pad_digits 3 (ut_milli t) @ [90]" by (simp add: digits)
  moreover have "takeWhile is_digit (pad_digits 3 (ut_milli t) @ [90]) = pad_digits 3 (ut_milli t)"
    "dropWhile is_digit (pad_digits 3 (ut_milli t) @ [90]) = [90]"
    using pad_digits_digit by (auto simp: takeWhile_append dropWhile_append is_digit_def)
  moreover have "pad_digits 3 (ut_milli t) \<noteq> []" by (metis length_pad_digits list.size(3) zero_neq_numeral)
  ultimately have "time_offset (after_fraction (drop 19 (format_utc t)))" by (simp add: time_offset_def)
  with assms ok head fields show ?thesis by (simp add: date_time_def real_date_def utc_ok_def)
qed

lemma unix_timestamp_date_time: "calendar_dates tm \<Longrightarrow> unix_timestamp tm secs = Some s \<Longrightarrow> date_time s"
  by (auto simp: unix_timestamp_def calendar_dates_def intro: format_utc_date_time split: if_splits)

text \<open>The formats are not empty words: what they accept and what they refuse.\<close>

lemma formats_decide:
  "ipv4_format (str ''10.0.0.1'')" "\<not> ipv4_format (str ''10.0.0.256'')" "\<not> ipv4_format (str ''10.0.0.01'')"
  "ipv6_format (str ''2001:db8::1'')" "ipv6_format (str ''::ffff:10.0.0.1'')" "\<not> ipv6_format (str ''2001:db8::1::2'')"
  "\<not> ipv6_format (str ''host.example'')" "\<not> ipv4_format (str ''host.example'')"
  "date_time (str ''2024-02-29T23:59:59.000Z'')" "\<not> date_time (str ''2023-02-29T23:59:59.000Z'')"
  by code_simp+

end
