(* ===== verification/Audit_Json.thy ===== *)
theory Audit_Json
  imports Proxy Logging Json_Formats
begin

text \<open>
  The shape of an audit line.  The derived \<^verbatim>\<open>Serialize\<close> implementations of \<^verbatim>\<open>src/proxy/src/audit.rs\<close> as functions
  into JSON trees (enums in snake case, structs with their fields in order, \<^verbatim>\<open>None\<close> as null, addresses
  as text, \<open>Reason\<close> by its code), the published schema \<^verbatim>\<open>src/proxy/audit/audit-log.schema.json\<close> as data, its
  formats (\<^verbatim>\<open>ipv4\<close>, \<^verbatim>\<open>ipv6\<close>, \<^verbatim>\<open>date-time\<close>, from \<open>Json_Formats\<close>) asserted as a format checker does, and
  the proof that every record the request path leads to conforms to it.  Printing a tree is serde's.
\<close>

section \<open>Trees\<close>

datatype json = J_Null | J_Bool bool | J_Num nat | J_Str ustring | J_Obj "(ustring \<times> json) list"

fun of_option :: "('a \<Rightarrow> json) \<Rightarrow> 'a option \<Rightarrow> json" where
  "of_option f None = J_Null"
| "of_option f (Some x) = f x"

fun serialize_risk :: "risk \<Rightarrow> json" where
  "serialize_risk Risk_Info = J_Str (str ''info'')"
| "serialize_risk Risk_Low = J_Str (str ''low'')"
| "serialize_risk Risk_Medium = J_Str (str ''medium'')"
| "serialize_risk Risk_High = J_Str (str ''high'')"
| "serialize_risk Risk_Critical = J_Str (str ''critical'')"

fun serialize_stage :: "stage \<Rightarrow> json" where
  "serialize_stage St_RateLimit = J_Str (str ''rate_limit'')"
| "serialize_stage St_AttestationHeaders = J_Str (str ''attestation_headers'')"
| "serialize_stage St_MachineIdentity = J_Str (str ''machine_identity'')"
| "serialize_stage St_AttestationToken = J_Str (str ''attestation_token'')"
| "serialize_stage St_AttestationBody = J_Str (str ''attestation_body'')"
| "serialize_stage St_Upstream = J_Str (str ''upstream'')"
| "serialize_stage St_Downstream = J_Str (str ''downstream'')"
| "serialize_stage St_Internal = J_Str (str ''internal'')"

definition serialize_reason :: "reason \<Rightarrow> json" where
  "serialize_reason r = J_Str (reason_code r)"

fun serialize_action :: "action \<Rightarrow> json" where
  "serialize_action Act_Forward = J_Str (str ''forward'')"
| "serialize_action Act_Bypass = J_Str (str ''bypass'')"
| "serialize_action Act_Reject = J_Str (str ''reject'')"
| "serialize_action Act_RateLimit = J_Str (str ''rate_limit'')"
| "serialize_action Act_Error = J_Str (str ''error'')"

fun serialize_outcome :: "outcome \<Rightarrow> json" where
  "serialize_outcome Success = J_Str (str ''success'')"
| "serialize_outcome Failure = J_Str (str ''failure'')"

fun serialize_attestation_status :: "attestation_status \<Rightarrow> json" where
  "serialize_attestation_status AS_Verified = J_Str (str ''verified'')"
| "serialize_attestation_status AS_Failed = J_Str (str ''failed'')"
| "serialize_attestation_status AS_Bypassed = J_Str (str ''bypassed'')"
| "serialize_attestation_status AS_Incomplete = J_Str (str ''incomplete'')"
| "serialize_attestation_status AS_NotEvaluated = J_Str (str ''not_evaluated'')"

fun serialize_machine_status :: "machine_status \<Rightarrow> json" where
  "serialize_machine_status MS_Verified = J_Str (str ''verified'')"
| "serialize_machine_status MS_Failed = J_Str (str ''failed'')"
| "serialize_machine_status MS_Absent = J_Str (str ''absent'')"
| "serialize_machine_status MS_NotEvaluated = J_Str (str ''not_evaluated'')"
| "serialize_machine_status MS_Disabled = J_Str (str ''disabled'')"

fun serialize_binding :: "binding \<Rightarrow> json" where
  "serialize_binding Binding_Bound = J_Str (str ''bound'')"
| "serialize_binding Binding_Unbound = J_Str (str ''unbound'')"

definition serialize_ip :: "ip_addr \<Rightarrow> json" where
  "serialize_ip ip = J_Str (ip_to_string ip)"

definition serialize_event :: "audit_event \<Rightarrow> json" where
  "serialize_event e = J_Obj
     [(str ''kind'', J_Str (ev_kind e)), (str ''action'', serialize_action (ev_action e)),
      (str ''outcome'', serialize_outcome (ev_outcome e)), (str ''stage'', of_option serialize_stage (ev_stage e)),
      (str ''reason'', of_option serialize_reason (ev_reason e)), (str ''risk'', serialize_risk (ev_risk e)),
      (str ''duration_ms'', J_Num (ev_duration_ms e))]"

definition serialize_endpoint :: "endpoint \<Rightarrow> json" where
  "serialize_endpoint e = J_Obj
     [(str ''ip'', of_option serialize_ip (ep_ip e)), (str ''port'', of_option (\<lambda>p. J_Num (unat p)) (ep_port e))]"

definition serialize_client :: "client_fields \<Rightarrow> json" where
  "serialize_client c = J_Obj
     [(str ''address'', of_option J_Str (cf_address c)), (str ''ip'', of_option serialize_ip (cf_ip c)),
      (str ''port'', of_option (\<lambda>p. J_Num (unat p)) (cf_port c))]"

definition serialize_machine :: "machine_fields \<Rightarrow> json" where
  "serialize_machine m = J_Obj
     [(str ''status'', serialize_machine_status (mf_status m)), (str ''subject_dn'', of_option J_Str (mf_subject_dn m)),
      (str ''hostname'', of_option J_Str (mf_hostname m)), (str ''chain_verified'', J_Bool (mf_chain_verified m))]"

definition serialize_attestation :: "attestation_fields \<Rightarrow> json" where
  "serialize_attestation a = J_Obj
     [(str ''status'', serialize_attestation_status (af_status a)), (str ''nonce'', of_option J_Str (af_nonce a)),
      (str ''client_timestamp'', of_option J_Str (af_client_timestamp a)),
      (str ''body_binding'', of_option serialize_binding (af_body_binding a))]"

definition serialize_record :: "audit_record \<Rightarrow> json" where
  "serialize_record r = J_Obj
     [(str ''timestamp'', J_Str (ar_timestamp r)), (str ''schema_version'', J_Str (ar_schema_version r)),
      (str ''level'', J_Str (ar_level r)), (str ''logger'', J_Str (ar_logger r)),
      (str ''event'', serialize_event (ar_event r)), (str ''message'', J_Str (ar_message r)),
      (str ''proxy'', serialize_endpoint (ar_proxy r)), (str ''client'', serialize_client (ar_client r)),
      (str ''server'', J_Obj [(str ''address'', of_option J_Str (ar_server_address r))]),
      (str ''tls'', J_Obj [(str ''client'', J_Obj [(str ''subject'', of_option J_Str (ar_tls_client_subject r))])]),
      (str ''machine'', serialize_machine (ar_machine r)), (str ''attestation'', serialize_attestation (ar_attestation r)),
      (str ''http'', J_Obj [(str ''request'', J_Obj [(str ''method'', of_option J_Str (ar_http_method r))]),
         (str ''response'', J_Obj [(str ''status_code'', of_option J_Num (ar_http_status_code r))])]),
      (str ''transfer'', J_Obj [(str ''request_body_bytes'', J_Num (ar_request_body_bytes r)),
         (str ''response_body_bytes'', J_Num (ar_response_body_bytes r))])]"

section \<open>JSON Schema\<close>

text \<open>
  The keywords the published schema uses, with the meaning of JSON Schema: \<^verbatim>\<open>required\<close>, \<^verbatim>\<open>properties\<close> and
  \<^verbatim>\<open>additionalProperties\<close> constrain objects only, \<^verbatim>\<open>pattern\<close> and \<^verbatim>\<open>format\<close> strings only.  The one pattern
  the schema has is that of a timestamp.
\<close>

datatype format_name = Ipv4 | Ipv6 | Date_Time

fun format_ok :: "format_name \<Rightarrow> ustring \<Rightarrow> bool" where
  "format_ok Ipv4 s = ipv4_format s"
| "format_ok Ipv6 s = ipv6_format s"
| "format_ok Date_Time s = date_time s"

datatype schema =
    Type_Null | Type_Bool | Type_Str | Type_Obj
  | Type_Int nat "nat option"
  | Const json
  | Enum "string list"
  | Format format_name
  | Iso_Pattern
  | Negated schema
  | Any_Of "schema list"
  | All_Of "schema list"
  | If_Then_Else schema schema schema
  | Required "string list"
  | Closed "string list"
  | Properties "(string \<times> schema) list"

fun conforms :: "schema \<Rightarrow> json \<Rightarrow> bool" where
  "conforms Type_Null j = (j = J_Null)"
| "conforms Type_Bool j = (case j of J_Bool _ \<Rightarrow> True | _ \<Rightarrow> False)"
| "conforms Type_Str j = (case j of J_Str _ \<Rightarrow> True | _ \<Rightarrow> False)"
| "conforms Type_Obj j = (case j of J_Obj _ \<Rightarrow> True | _ \<Rightarrow> False)"
| "conforms (Type_Int lo hi) j =
     (case j of J_Num n \<Rightarrow> lo \<le> n \<and> (case hi of None \<Rightarrow> True | Some h \<Rightarrow> n \<le> h) | _ \<Rightarrow> False)"
| "conforms (Const c) j = (j = c)"
| "conforms (Enum ss) j = (\<exists>s \<in> set ss. j = J_Str (str s))"
| "conforms (Format f) j = (case j of J_Str s \<Rightarrow> format_ok f s | _ \<Rightarrow> True)"
| "conforms Iso_Pattern j = (case j of J_Str s \<Rightarrow> iso_pattern s | _ \<Rightarrow> True)"
| "conforms (Negated s) j = (\<not> conforms s j)"
| "conforms (Any_Of ss) j = (\<exists>s \<in> set ss. conforms s j)"
| "conforms (All_Of ss) j = (\<forall>s \<in> set ss. conforms s j)"
| "conforms (If_Then_Else c t e) j = (if conforms c j then conforms t j else conforms e j)"
| "conforms (Required ks) j = (case j of J_Obj fs \<Rightarrow> \<forall>k \<in> set ks. str k \<in> fst ` set fs | _ \<Rightarrow> True)"
| "conforms (Closed ks) j = (case j of J_Obj fs \<Rightarrow> fst ` set fs \<subseteq> str ` set ks | _ \<Rightarrow> True)"
| "conforms (Properties ps) j =
     (case j of
        J_Obj fs \<Rightarrow> \<forall>(k, s) \<in> set ps. (case map_of fs (str k) of None \<Rightarrow> True | Some v \<Rightarrow> conforms s v)
      | _ \<Rightarrow> True)"

abbreviation object :: "(string \<times> schema) list \<Rightarrow> schema list \<Rightarrow> schema" where
  "object ps extra \<equiv> All_Of ([Type_Obj, Closed (map fst ps), Required (map fst ps), Properties ps] @ extra)"

abbreviation nullable :: "schema \<Rightarrow> schema" where
  "nullable s \<equiv> Any_Of [s, Type_Null]"

abbreviation const_str :: "string \<Rightarrow> schema" where
  "const_str s \<equiv> Const (J_Str (str s))"

section \<open>The published schema\<close>

definition timestamp_schema :: schema where
  "timestamp_schema = All_Of [Type_Str, Format Date_Time, Iso_Pattern]"

definition ip_schema :: schema where
  "ip_schema = Any_Of [All_Of [Type_Str, Format Ipv4], All_Of [Type_Str, Format Ipv6], Type_Null]"

definition port_schema :: schema where "port_schema = nullable (Type_Int 0 (Some 65535))"

definition reason_schema :: schema where
  "reason_schema = Enum
     [''rate_limited'', ''no_attestation_headers'', ''incomplete_attestation_headers'',
      ''machine_cert_missing'', ''machine_cert_malformed'', ''machine_cert_no_common_name'',
      ''machine_cert_unsafe_common_name'', ''machine_hostname_not_allowed'', ''machine_cert_expired'',
      ''machine_cert_not_yet_valid'', ''machine_cert_untrusted'', ''machine_hostname_unresolvable'',
      ''machine_address_mismatch'', ''machine_no_client_address'', ''timestamp_invalid'',
      ''timestamp_out_of_window'', ''nonce_invalid'', ''nonce_replay'', ''token_malformed'',
      ''token_decrypt_failed'', ''token_request_mismatch'', ''body_too_large'', ''body_hash_mismatch'',
      ''body_read_failed'', ''request_malformed'', ''upstream_error'', ''downstream_error'',
      ''internal_error'']"

definition stage_schema :: schema where
  "stage_schema = Enum [''rate_limit'', ''attestation_headers'', ''machine_identity'', ''attestation_token'',
     ''attestation_body'', ''upstream'', ''downstream'', ''internal'']"

definition event_schema :: schema where
  "event_schema = object
     [(''kind'', const_str ''audit''),
      (''action'', Enum [''forward'', ''bypass'', ''reject'', ''rate_limit'', ''error'']),
      (''outcome'', Enum [''success'', ''failure'']),
      (''stage'', nullable stage_schema), (''reason'', nullable reason_schema),
      (''risk'', Enum [''info'', ''low'', ''medium'', ''high'', ''critical'']),
      (''duration_ms'', Type_Int 0 None)] []"

definition endpoint_schema :: schema where
  "endpoint_schema = object [(''ip'', ip_schema), (''port'', port_schema)] []"

definition client_schema :: schema where
  "client_schema = object [(''address'', ip_schema), (''ip'', ip_schema), (''port'', port_schema)] []"

definition tls_schema :: schema where
  "tls_schema = object [(''client'', object [(''subject'', nullable Type_Str)] [])] []"

definition status_is_verified :: schema where
  "status_is_verified = All_Of [Required [''status''], Properties [(''status'', const_str ''verified'')]]"

definition machine_schema :: schema where
  "machine_schema = object
     [(''status'', Enum [''verified'', ''failed'', ''absent'', ''not_evaluated'', ''disabled'']),
      (''subject_dn'', nullable Type_Str), (''hostname'', nullable Type_Str), (''chain_verified'', Type_Bool)]
     [If_Then_Else status_is_verified
        (Properties [(''subject_dn'', Type_Str), (''hostname'', Type_Str), (''chain_verified'', Const (J_Bool True))])
        (Properties [(''hostname'', Type_Null)])]"

definition attestation_schema :: schema where
  "attestation_schema = object
     [(''status'', Enum [''verified'', ''failed'', ''bypassed'', ''incomplete'', ''not_evaluated'']),
      (''nonce'', nullable Type_Str), (''client_timestamp'', nullable timestamp_schema),
      (''body_binding'', nullable (Enum [''bound'', ''unbound'']))]
     [If_Then_Else status_is_verified (Properties [(''nonce'', Type_Str), (''body_binding'', Type_Str)]) (All_Of [])]"

definition server_schema :: schema where
  "server_schema = object [(''address'', nullable Type_Str)] []"

definition http_schema :: schema where
  "http_schema = object
     [(''request'', object [(''method'', nullable Type_Str)] []),
      (''response'', object [(''status_code'', nullable (Type_Int 100 (Some 999)))] [])] []"

definition transfer_schema :: schema where
  "transfer_schema = object [(''request_body_bytes'', Type_Int 0 None), (''response_body_bytes'', Type_Int 0 None)] []"

definition success_rule :: schema where
  "success_rule = If_Then_Else
     (All_Of [Required [''event''],
        Properties [(''event'', All_Of [Required [''outcome''], Properties [(''outcome'', const_str ''success'')]])]])
     (Properties
        [(''level'', const_str ''INFO''),
         (''event'', Properties [(''action'', Enum [''forward'', ''bypass'']), (''stage'', Type_Null), (''reason'', Type_Null),
            (''risk'', const_str ''info'')])])
     (Properties
        [(''level'', const_str ''WARN''),
         (''event'', Properties [(''stage'', Type_Str), (''reason'', Type_Str), (''risk'', Negated (const_str ''info''))])])"

definition audit_record_schema_json :: schema where
  "audit_record_schema_json = object
     [(''timestamp'', timestamp_schema), (''schema_version'', const_str ''1.0''), (''level'', Enum [''INFO'', ''WARN'']),
      (''logger'', const_str ''denbrowser_proxy::audit''), (''event'', event_schema), (''message'', Type_Str),
      (''proxy'', endpoint_schema), (''client'', client_schema), (''server'', server_schema), (''tls'', tls_schema),
      (''machine'', machine_schema), (''attestation'', attestation_schema), (''http'', http_schema),
      (''transfer'', transfer_schema)]
     [success_rule]"

section \<open>Each part conforms\<close>

lemma enum_conforms:
  "conforms reason_schema (serialize_reason r)" "conforms stage_schema (serialize_stage st)"
  by (cases r; simp add: reason_schema_def serialize_reason_def) (cases st; simp add: stage_schema_def)

lemma nullable_conforms: "(\<And>x. conforms s (f x)) \<Longrightarrow> conforms (nullable s) (of_option f m)"
  by (cases m) simp_all

lemma port_conforms: "conforms port_schema (of_option (\<lambda>p. J_Num (unat p)) (m :: 16 word option))"
  unfolding port_schema_def
proof (rule nullable_conforms)
  fix p :: "16 word"
  have "unat p < 2 ^ 16" using unsigned_less [of p, where ?'a = nat] by simp
  then show "conforms (Type_Int 0 (Some 65535)) (J_Num (unat p))" by simp
qed

lemma ip_conforms: "conforms ip_schema (of_option serialize_ip m)"
proof (cases m)
  case (Some ip)
  with ip_to_string_format [of ip] show ?thesis
    by (cases ip) (simp_all add: ip_schema_def serialize_ip_def del: ip_to_string.simps)
qed (simp add: ip_schema_def)

lemma address_conforms: "conforms ip_schema (of_option J_Str (map_option ip_to_string m))"
  using ip_conforms [of m] by (cases m) (simp_all add: serialize_ip_def)

lemma timestamp_conforms: "conforms timestamp_schema (J_Str s) \<longleftrightarrow> date_time s \<and> iso_pattern s"
  by (simp add: timestamp_schema_def)

lemma event_conforms: "ev_kind e = str ''audit'' \<Longrightarrow> conforms event_schema (serialize_event e)"
proof -
  assume kind: "ev_kind e = str ''audit''"
  have "conforms (Enum [''forward'', ''bypass'', ''reject'', ''rate_limit'', ''error'']) (serialize_action (ev_action e))"
    by (cases "ev_action e") simp_all
  moreover have "conforms (Enum [''success'', ''failure'']) (serialize_outcome (ev_outcome e))"
    by (cases "ev_outcome e") simp_all
  moreover have "conforms (Enum [''info'', ''low'', ''medium'', ''high'', ''critical'']) (serialize_risk (ev_risk e))"
    by (cases "ev_risk e") simp_all
  moreover have "conforms (nullable stage_schema) (of_option serialize_stage (ev_stage e))"
    "conforms (nullable reason_schema) (of_option serialize_reason (ev_reason e))"
    by (intro nullable_conforms enum_conforms)+
  ultimately show ?thesis
    using kind unfolding event_schema_def serialize_event_def by (simp del: conforms.simps(7,10))
qed

lemma addresses_conform:
  "conforms endpoint_schema (serialize_endpoint ep)"
  "cf_address c = map_option ip_to_string (cf_ip c) \<Longrightarrow> conforms client_schema (serialize_client c)"
  unfolding endpoint_schema_def serialize_endpoint_def client_schema_def serialize_client_def
  by (simp_all add: port_conforms ip_conforms address_conforms)

lemma machine_conforms:
  assumes "if mf_status m = MS_Verified then mf_subject_dn m \<noteq> None \<and> mf_hostname m \<noteq> None \<and> mf_chain_verified m
    else mf_hostname m = None"
  shows "conforms machine_schema (serialize_machine m)"
  using assms unfolding machine_schema_def serialize_machine_def status_is_verified_def
  by (cases "mf_status m"; cases "mf_subject_dn m"; cases "mf_hostname m") simp_all

lemma attestation_conforms:
  assumes "iso_or_null (af_client_timestamp a)" "\<forall>s. af_client_timestamp a = Some s \<longrightarrow> date_time s"
    and "af_status a = AS_Verified \<longrightarrow> af_nonce a \<noteq> None \<and> af_body_binding a \<noteq> None"
  shows "conforms attestation_schema (serialize_attestation a)"
proof -
  have "conforms (nullable (Enum [''bound'', ''unbound''])) (of_option serialize_binding (af_body_binding a))"
    by (rule nullable_conforms) (case_tac x; simp)
  moreover have "conforms Type_Str (of_option serialize_binding (af_body_binding a))" if "af_body_binding a \<noteq> None"
    using that by (cases "the (af_body_binding a)") auto
  moreover have "conforms (nullable timestamp_schema) (of_option J_Str (af_client_timestamp a))"
    using assms(1,2) by (cases "af_client_timestamp a") (simp_all add: timestamp_conforms iso_or_null_def)
  ultimately show ?thesis
    using assms(3) unfolding attestation_schema_def serialize_attestation_def status_is_verified_def
    by (cases "af_status a"; cases "af_nonce a") simp_all
qed

lemma rest_conforms:
  "conforms server_schema (J_Obj [(str ''address'', of_option J_Str m)])"
  "conforms tls_schema (J_Obj [(str ''client'', J_Obj [(str ''subject'', of_option J_Str m)])])"
  "conforms transfer_schema (J_Obj [(str ''request_body_bytes'', J_Num a), (str ''response_body_bytes'', J_Num b)])"
  unfolding server_schema_def tls_schema_def transfer_schema_def by (cases m; simp)+

lemma http_conforms:
  "\<forall>n. st = Some n \<longrightarrow> 100 \<le> n \<and> n \<le> 999 \<Longrightarrow>
   conforms http_schema (J_Obj [(str ''request'', J_Obj [(str ''method'', of_option J_Str m)]),
     (str ''response'', J_Obj [(str ''status_code'', of_option J_Num st)])])"
  unfolding http_schema_def by (cases m; cases st) simp_all

lemma success_conforms:
  assumes "if ev_outcome (ar_event r) = Success
      then ar_level r = str ''INFO'' \<and> ev_action (ar_event r) \<in> {Act_Forward, Act_Bypass} \<and> ev_stage (ar_event r) = None \<and>
        ev_reason (ar_event r) = None \<and> ev_risk (ar_event r) = Risk_Info
      else ar_level r = str ''WARN'' \<and> ev_reason (ar_event r) \<noteq> None \<and> ev_risk (ar_event r) \<noteq> Risk_Info"
    and "ev_stage (ar_event r) = map_option reason_stage (ev_reason (ar_event r))"
  shows "conforms success_rule (serialize_record r)"
proof (cases "ev_outcome (ar_event r)")
  case Success
  then show ?thesis
    using assms unfolding success_rule_def serialize_record_def serialize_event_def by auto
next
  case Failure
  obtain rs where "ev_reason (ar_event r) = Some rs" using assms(1) Failure by auto
  moreover have "conforms Type_Str (serialize_stage (reason_stage rs))" by (cases "reason_stage rs") simp_all
  moreover have "serialize_risk (ev_risk (ar_event r)) \<noteq> J_Str (str ''info'')"
    using assms(1) Failure by (cases "ev_risk (ar_event r)") simp_all
  ultimately show ?thesis
    using assms Failure unfolding success_rule_def serialize_record_def serialize_event_def
    by (simp add: serialize_reason_def)
qed

lemma record_conforms:
  assumes "schema_ok r" "\<forall>n. ar_http_status_code r = Some n \<longrightarrow> 100 \<le> n \<and> n \<le> 999"
    and "date_time (ar_timestamp r)" "\<forall>s. af_client_timestamp (ar_attestation r) = Some s \<longrightarrow> date_time s"
  shows "conforms audit_record_schema_json (serialize_record r)"
proof -
  have ok: "ev_kind (ar_event r) = str ''audit''" "iso_pattern (ar_timestamp r)" "ar_schema_version r = str ''1.0''"
    "ar_logger r = str ''denbrowser_proxy::audit''" "ar_level r = str ''INFO'' \<or> ar_level r = str ''WARN''"
    "conforms success_rule (serialize_record r)" "conforms machine_schema (serialize_machine (ar_machine r))"
    "conforms attestation_schema (serialize_attestation (ar_attestation r))"
    "cf_address (ar_client r) = map_option ip_to_string (cf_ip (ar_client r))"
    using assms(1,4) unfolding schema_ok_def Let_def
    by (simp_all add: success_conforms machine_conforms attestation_conforms split: if_splits)
  have "conforms timestamp_schema (J_Str (ar_timestamp r))" using assms(3) ok(2) by (simp add: timestamp_conforms)
  note parts = this event_conforms [OF ok(1)] addresses_conform(1) addresses_conform(2) [OF ok(9)]
    rest_conforms http_conforms [OF assms(2)] ok(7,8)
  show ?thesis
    using parts ok(3-6) unfolding audit_record_schema_json_def
    by (simp add: serialize_record_def)
qed

text \<open>
  The audit state of a request at any moment its line may be written: as \<^verbatim>\<open>new_ctx\<close> made it, when the
  request failed before the filter ran, or as \<^verbatim>\<open>request_filter\<close> left it, and then the chunks of the response.
\<close>

definition at_logging ::
  "('sk, 'pk, 'g, 'r, 'net, 'cert, 'b, 's) deps \<Rightarrow> ('g, 'net, 'cert, 's) den_browser_proxy \<Rightarrow> session \<Rightarrow> request_audit \<Rightarrow> bool" where
  "at_logging d px se ra \<longleftrightarrow>
     (\<exists>start cs ra0. ra = fold response_body_filter cs ra0 \<and>
        (ra0 = proxy_new_ctx start px \<or>
         (\<exists>mo others st v st' :: ('sk, 'g, 'r) proxy_state.
            request_filter d mo px others se (proxy_new_ctx start px) st = (v, ra0, st'))))"

lemma at_logging_state:
  assumes "calendar_dates (d_time d)" "at_logging d px se ra"
  shows "audit_reachable ra \<and> (\<forall>s. client_timestamp ra = Some s \<longrightarrow> date_time s)"
proof -
  obtain start cs ra0 where ra: "ra = fold response_body_filter cs ra0" and
    "ra0 = proxy_new_ctx start px \<or> (\<exists>mo others st v st'. request_filter d mo px others se (proxy_new_ctx start px) st = (v, ra0, st'))"
    using assms(2) unfolding at_logging_def by blast
  then consider "ra0 = proxy_new_ctx start px"
    | mo others st v st' where "request_filter d mo px others se (proxy_new_ctx start px) st = (v, ra0, st')"
    by blast
  then have "audit_reachable ra0 \<and> (\<forall>s. client_timestamp ra0 = Some s \<longrightarrow> date_time s)"
  proof cases
    case 1
    then show ?thesis using fresh_undecided by (auto simp: proxy_new_ctx_def undecided_def ra_new_def)
  next
    case 2
    have "decided v ra0"
      using request_filter_decided [OF calendar_dates_range [OF assms(1)] fresh_undecided] 2 by (simp add: proxy_new_ctx_def)
    then show ?thesis
      using request_filter_timestamp [OF 2] unix_timestamp_date_time [OF assms(1)] by (auto simp: decided_def)
  qed
  then show ?thesis by (simp add: ra response_chunks(1,4))
qed

text \<open>
  C15. Every line of the audit trail is an instance of the published schema.  However the request path
  ran, and however the exchange ended, the tree serialized from the request's record has exactly the
  members the schema declares at every level, each of the declared type, range and format (addresses
  are IPv4 or IPv6 text, timestamps are RFC 3339 dates of the calendar in the fixed-width pattern),
  the enumerations spelled as published, and satisfies the rules the schema ties to the outcome and to the
  two status members.  It rests on the time crate giving dates of the calendar and on the HTTP library
  sending three-digit status codes.
\<close>

theorem audit_line_conforms:
  assumes "calendar_dates (d_time d)" "real_date (from_system (d_time d) wall)"
    and "at_logging d px se ra"
    and "\<forall>n. status = Some n \<longrightarrow> 100 \<le> n \<and> n \<le> 999"
  shows "conforms audit_record_schema_json
     (serialize_record (ra_record (d_openssl d) (connection_of se status read ra) (map_option classify_proxy_error e)
        (audit_timestamp (d_time d) wall) ms ra))"
proof -
  let ?ts = "audit_timestamp (d_time d) wall"
  note ra = at_logging_state [OF assms(1,3)]
  have ts: "iso_pattern ?ts" "date_time ?ts"
    using assms(2) by (simp_all add: audit_timestamp_def real_date_def format_utc_pattern)
      (simp add: format_utc_date_time real_date_def)
  show ?thesis
  proof (rule record_conforms)
    show "schema_ok (ra_record (d_openssl d) (connection_of se status read ra) (map_option classify_proxy_error e) ?ts ms ra)"
      using ra ts(1) by (blast intro: audit_record_schema_helper)
  qed (use ra ts(2) assms(4) in \<open>simp_all add: ra_record_def Let_def connection_of_def\<close>)
qed

lemma demo_dates: "calendar_dates (d_time demo_deps)" "real_date (from_system (d_time demo_deps) 0)"
  by (simp_all add: demo_deps_time calendar_dates_def demo_time_def real_date_def utc_ok_def epoch_def days_in_month_def)

theorem audit_line_conforms_witness:
  "\<exists>ra st'. request_filter demo_deps demo_moments demo_px alone demo_session (proxy_new_ctx 0 demo_px) demo_state = (Pass, ra, st') \<and>
     conforms audit_record_schema_json (serialize_record (ra_record (d_openssl demo_deps)
       (connection_of demo_session (Some 200) 3 (fold response_body_filter [Some [1, 2]] ra)) (map_option classify_proxy_error None)
       (audit_timestamp (d_time demo_deps) 0) 7 (fold response_body_filter [Some [1, 2]] ra)))"
proof -
  obtain ra st' where r:
    "request_filter demo_deps demo_moments demo_px alone demo_session (proxy_new_ctx 0 demo_px) demo_state = (Pass, ra, st')"
    by (rule demo_run_passes)
  then have "at_logging demo_deps demo_px demo_session (fold response_body_filter [Some [1, 2]] ra)"
    unfolding at_logging_def by blast
  from audit_line_conforms [OF demo_dates this, of "Some 200" 3 None 7] r show ?thesis by auto
qed

end
