(* ===== verification/Spec2Isabelle.thy ===== *)
theory Spec2Isabelle
  imports Startup Proxy_Refinement Browser_Interop Site_Filter Launch_Environment Path_Privacy Audit_Json
begin

text \<open>
  A verification development for DenBrowser: the proxy, the Rust program under \<^verbatim>\<open>src/proxy/src\<close>, and the
  half of its protocol that the patches under \<^verbatim>\<open>src/patches\<close> add to Firefox.

  \<^bold>\<open>The program.\<close>  The proxy stands between DenBrowser (a hardened Firefox) and one upstream.  It terminates
  TLS, checks every request and forwards only those that carry a fresh attestation token of a genuine
  DenBrowser for exactly this request.  \<^verbatim>\<open>main\<close> reads the configuration, expands environment references
  in it, starts logging, builds each optional layer and the TLS listener, and hands everything to
  pingora.  For each request pingora calls the hooks of \<^verbatim>\<open>DenBrowserProxy\<close>: \<^verbatim>\<open>request_filter\<close> runs the checks in
  order (rate limit, bypass for allowlisted client certificates, presence of the headers, machine
  certificate, token, forward DNS, body, commit of the nonce), \<^verbatim>\<open>upstream_request_filter\<close> strips the
  DenBrowser headers, and \<^verbatim>\<open>logging\<close> writes one audit record.  Requests run concurrently; they share the
  nonce cache, the rate counters and the cache of resolver answers, each behind its own lock.  In the
  browser \<^verbatim>\<open>AddAttestHeaders\<close> mints the token of a request for a host that a built-in table assigns to a
  proxy, \<^verbatim>\<open>VerifyProxyPin\<close> lets the connection to that proxy go on only under a pinned key, \<^verbatim>\<open>SiteAllowed\<close>
  decides which sites can be opened at all, and \<^verbatim>\<open>LauncherMain\<close> refuses every command line outside a small grammar.

  \<^bold>\<open>The theories.\<close>
  \<^item> \<open>Prelude\<close>: Rust's strings (lists of Unicode scalar values), UTF-8, integer parsing and printing,
    saturating arithmetic, \<^verbatim>\<open>Result\<close> as a sum with \<open>rbind\<close>, \<open>map_err\<close> and \<open>ensure\<close>, addresses, clocks; the
    collection \<open>result_simps\<close>.
  \<^item> \<open>Reasons\<close>: the reason table of \<^verbatim>\<open>audit.rs\<close> (code, stage, risk) and the locale \<open>audited_error\<close>, which every
    error type that ends up in the log satisfies.  \<open>Features\<close>: the locale \<open>optional_feature\<close> for the four
    sections that can be switched off, and globs.
  \<^item> \<open>Attest\<close>, \<open>Attest_Replay\<close> (\<^verbatim>\<open>attest.rs\<close>): the two phases of token verification, the nonce cache with bounded
    eviction (through the locale \<open>replay_cache\<close>), and the transition system of a verifier shared by
    concurrent requests: no token is honoured twice, a minted token is accepted for its own request and
    no other, the cache holds the nonces of honoured tokens that match their request only, and a backlog of expired entries drains although
    each insertion evicts a bounded number.
  \<^item> \<open>Mtls\<close> (\<^verbatim>\<open>mtls.rs\<close>), \<open>Passthrough\<close> (\<^verbatim>\<open>passthrough.rs\<close>), \<open>Ratelimit\<close> (\<^verbatim>\<open>ratelimit.rs\<close>), \<open>Machine\<close> (\<^verbatim>\<open>machine.rs\<close>): the
    subject names are rendered injectively, the bypass decides by the configured text, the configured
    caps hold for every sequence of requests, and an accepted machine was resolved to the client's address
    under any interleaving of cache accesses (\<open>dns_step\<close>, locale \<open>answer_cache\<close>).
  \<^item> \<open>Audit_Trail\<close> (\<^verbatim>\<open>audit.rs\<close>): the audit state of one request, its operations as a step relation with an
    invariant, and the record, which always satisfies the published schema.
  \<^item> \<open>Config_Env\<close>, \<open>Config\<close>, \<open>Upstream_Tls\<close>, \<open>Tls_Key\<close>, \<open>Logging\<close>: the sections of the configuration with their
    checks, expansion of references (round trip, completeness and confidentiality of its errors), the
    upstream's trust settings, the listener's key, and the JSON lines formatter.
  \<^item> \<open>Proxy\<close> (\<^verbatim>\<open>main.rs\<close>, the hooks): each exit of \<^verbatim>\<open>request_filter\<close> with its status and what it records; what goes
    upstream was verified, what is verified goes upstream, a refusal leaves no trace, all three under
    every interleaving (\<open>only_others\<close> says what other requests alone made of a cache).
  \<^item> \<open>Proxy_Refinement\<close>: a run of the request path, interleaved with others, refines the transition system of
    \<open>Attest_Replay\<close>, so a captured request is not forwarded a second time.
  \<^item> \<open>Startup\<close> (\<^verbatim>\<open>main.rs\<close>, \<^verbatim>\<open>main\<close>): every step in order and what is guaranteed of a proxy that started.
  \<^item> \<open>Path_Privacy\<close>: neither the record nor the log lines of a request depend on its path, as a relation
    between two runs of the request path.
  \<^item> \<open>Json_Formats\<close>: the formats \<^verbatim>\<open>ipv4\<close>, \<^verbatim>\<open>ipv6\<close> and \<^verbatim>\<open>date-time\<close> of JSON Schema, stated on the text alone, and
    that the addresses and timestamps the proxy prints have them.
  \<^item> \<open>Audit_Json\<close> (the derived \<^verbatim>\<open>Serialize\<close> of \<^verbatim>\<open>audit.rs\<close>, \<^verbatim>\<open>src/proxy/audit/audit-log.schema.json\<close>): records as
    JSON trees, the schema as data with its formats, and that the tree of every record a request can
    leave conforms.  (\<open>schema_ok\<close> of \<open>Audit_Trail\<close> is the part of the schema that the operations of a
    request decide; the range of the status, which comes from the connection, is added here.)
  \<^item> \<open>Browser_Attest\<close>, \<open>Browser_Interop\<close> (\<^verbatim>\<open>DenBrowserAttest.cpp\<close> of patches 006, 012 and 024): the table of
    proxies, the cached keys, the body hash, the headers, the pin and the machine certificate of
    Windows; a token goes to the proxy that claims the host only, a request is held back only when its
    body cannot be hashed, and what is minted verifies at the proxy.
  \<^item> \<open>Site_Filter\<close> (patch 014): the site filter decides by whole domain labels.
  \<^item> \<open>Launch_Policy\<close> (patches 015 and 026): the command lines with which the browser can be started, against
    the grammar they are documented to follow, and that a running browser accepts no others.
  \<^item> \<open>Launch_Environment\<close> (patch 015): the variables a launch is given, the block they are passed in, and that
    nothing of the caller's environment is left in a process that goes past the checks.

  This theory holds the properties that span components: from the browser's hook to the forwarded
  request, from the configuration and the TLS handshake to a bypass, and from a request to its line in the log.

  \<^bold>\<open>Conventions.\<close>  A struct is a record, an enum a datatype, a \<^verbatim>\<open>Result\<close> a sum with the error on the left, a
  panic-free loop a recursive function.  Shared state is passed explicitly.  Where a lock is released and
  taken again, what other requests do in between is a parameter (\<open>others\<close>), so a theorem holds for every
  interleaving at the granularity of the critical sections.  Clocks are read through parameters: the wall
  clock in nanoseconds since 1970, which may jump, and the monotonic clock.  The replay theorems state the
  one assumption the code needs of them: between two commits the wall clock loses at most 59 s against the
  monotonic clock (a token lives 120 s at most, a nonce is kept for 180 s).  No fuel is used: the body
  loop and the eviction loop are structurally recursive, the expansion loop terminates by the length of
  the text left.

  \<^bold>\<open>Parameters.\<close>  Code that is not in the repository enters as records of functions: \<open>crypto\<close> (base64, P-256,
  SHA-256, AES-GCM), \<open>rate_ops\<close> (pingora's rate estimator), \<open>glob_ops\<close>, \<open>openssl_ops\<close>, \<open>time_ops\<close> (calendar),
  \<open>toml_ops\<close>, the system resolver (\<open>d_lookup_host\<close>), \<open>HeaderValue::to_str\<close>, serde's printer and the operating system (\<open>host_ops\<close>); on
  the browser's side \<open>nss_ops\<close>, \<open>head_ops\<close>, \<open>pin_ops\<close> and \<open>win_ops\<close> (NSS, Firefox, Windows),
  and \<open>folder_ops\<close> and \<open>env_api\<close> for the launcher.  The laws a theorem
  relies on are named hypotheses (\<open>crypto_laws\<close>, \<open>rate_counts\<close>, \<open>calendar_range\<close>, \<open>calendar_dates\<close>, \<open>ascii_values\<close>, \<open>head_laws\<close>, \<open>env_laws\<close>;
  \<open>nss_interop\<close> and \<open>draws_ok\<close>, that NSS and the proxy's crates implement the same standards; \<open>delivered\<close>, that
  the network carries a request unchanged), each with an instance in the witnesses.

  \<^bold>\<open>Not modelled.\<close>  Informational log lines at startup; pingora's own handling of connections, retries and
  hop-by-hop headers; the text of a JSON tree (serde) and the derived \<^verbatim>\<open>Deserialize\<close> code; what the launcher does
  after it has chosen its role (the patch shows only the hunks it changes there); the other patches,
  which set preferences, remove features of Firefox or change its build; the build scripts, and the tests
  in Rust and in Python, which exercise the code modelled here.
\<close>

section \<open>What DenBrowser sends goes through\<close>

lemma minted_commit:
  assumes "verifier_reachable K sk s" "p1_nonce p1 \<notin> (\<lambda>e. p1_nonce (ce_p1 e)) ` set (sh_log s)"
    and "- 30 \<le> unix_now wall - p1_ts p1" "unix_now wall - p1_ts p1 \<le> 90"
  shows "fst (commit_nonce wall now p1 (sh_verifier s)) = Inr ()"
proof -
  have "cache_inv (v_cache (sh_verifier s)) (sh_mono s)"
    using shared_inv_reachable [OF assms(1)] by (simp add: shared_inv_def)
  moreover have "p1_nonce p1 \<notin> seen (v_cache (sh_verifier s))"
    using fresh_not_contained [OF assms(1,2)] by (simp add: nc_contains_def)
  ultimately show ?thesis using commit_nonce_ok [of "sh_verifier s" _ p1 wall now] assms(3,4) by fastforce
qed

text \<open>
  What the network makes of the browser's request: the headers arrive under their lower-case names
  with the values the browser set, the host, the method and the path are the ones it hashed, and
  \<^verbatim>\<open>HeaderValue::to_str\<close> reads visible ASCII as it is.
\<close>

definition delivered ::
  "'head head_ops \<Rightarrow> 'head \<Rightarrow> uri \<Rightarrow> byte list \<Rightarrow> (byte list \<Rightarrow> ustring option) \<Rightarrow> http_request \<Rightarrow> bool" where
  "delivered H head' u meth to_str req \<longleftrightarrow>
     (\<forall>n \<in> {X_TS, X_NONCE, X_TOKEN}. map_of (rq_headers req) (to_ascii_lowercase n) = GetHeader H head' n) \<and>
     (\<forall>bs. (\<forall>b \<in> set bs. visible b) \<longrightarrow> to_str bs = Some (map unat bs)) \<and>
     map_option utf8 (request_host to_str req) = GetAsciiHost u \<and> utf8 (rq_method req) = meth \<and>
     Some (utf8 (request_path req)) = map_option request_path_of (GetPathQueryRef u) \<and>
     10 \<notin> set (utf8 (rq_method req)) \<and> 10 \<notin> set (utf8 (request_path req)) \<and>
     (\<forall>h. request_host to_str req = Some h \<longrightarrow> 10 \<notin> set (utf8 h))"

lemma browser_header_names:
  "to_ascii_lowercase X_TS = TS_HEADER" "to_ascii_lowercase X_NONCE = NONCE_HEADER" "to_ascii_lowercase X_TOKEN = TOKEN_HEADER"
  by (simp_all add: X_TS_def TS_HEADER_def X_NONCE_def NONCE_HEADER_def X_TOKEN_def TOKEN_HEADER_def str_def
      to_ascii_lowercase_def to_ascii_lower_def)

lemma delivered_inputs:
  assumes "delivered H head' u meth to_str req" "GetAsciiHost u = Some host"
    and "GetHeader H head' X_TS = Some ts" "\<forall>b \<in> set ts. visible b"
    and "GetHeader H head' X_NONCE = Some nonce" "\<forall>b \<in> set nonce. visible b"
    and "GetHeader H head' X_TOKEN = Some tok" "\<forall>b \<in> set tok. visible b"
  shows "\<exists>h. utf8 h = host \<and> 10 \<notin> set host \<and> inputs_of to_str req
     \<lparr>in_ts = map unat ts, in_nonce_b64 = map unat nonce, in_token_b64 = map unat tok, in_host = h,
      in_method = rq_method req, in_path = request_path req\<rparr>"
proof -
  obtain h where h: "request_host to_str req = Some h" "utf8 h = host" "10 \<notin> set host"
    using assms(1,2) by (auto simp: delivered_def)
  have hdr: "map_of (rq_headers req) TS_HEADER = Some ts" "map_of (rq_headers req) NONCE_HEADER = Some nonce"
    "map_of (rq_headers req) TOKEN_HEADER = Some tok"
    using assms(1,3,5,7) by (auto simp: delivered_def browser_header_names)
  have "to_str ts = Some (map unat ts)" "to_str nonce = Some (map unat nonce)" "to_str tok = Some (map unat tok)"
    using assms(1,4,6,8) unfolding delivered_def by blast+
  with h hdr show ?thesis by (auto simp: inputs_of_def header_str_def)
qed

lemma bound_upload_small:
  assumes "\<not> ShouldSkipBodyHash stream len" "upload_bytes stream = Some body" "stream \<noteq> None \<longrightarrow> len = length body"
  shows "length body \<le> BOUND_BODY_MAX"
  using assms
  by (cases stream) (auto simp: ShouldSkipBodyHash_def upload_bytes_def BOUND_BODY_MAX_def kMaxBoundBodyBytes_def split: if_splits)

text \<open>Phase 1 and the body, for a token the hook attached.\<close>

lemma attached_token_verifies:
  assumes crypto: "nss_interop N K R" "draws_ok R dr"
    and browser: "keys_inv N tbl (bs_keys bs)" "minted N H tbl dr u stream len head (bs_keys bs) = Inr (ts, nonceB64, tok)"
      "GetHeader H head' X_TS = Some ts" "GetHeader H head' X_NONCE = Some nonceB64" "GetHeader H head' X_TOKEN = Some tok"
    and key: "\<forall>host e pk. GetAsciiHost u = Some host \<longrightarrow> List.find (claims host) tbl = Some e \<longrightarrow>
        import_key N e = Some pk \<longrightarrow> nr_point R pk = public_key K (private_key v)"
    and fresh: "\<forall>nonce. dr_nonce dr = Some nonce \<longrightarrow> \<not> nc_contains (v_cache v) nonce"
    and request: "delivered H head' u (GetMethod H head) to_str (se_request se)"
      "\<forall>body. upload_bytes stream = Some body \<longrightarrow> concat (se_body se) = body"
      "stream \<noteq> None \<longrightarrow> len = length (concat (se_body se))" "se_body_error se = None"
    and clock: "\<bar>unix_now wall - dr_now dr div 1000000\<bar> \<le> 30"
  shows "\<exists>i p1. inputs_of to_str (se_request se) i \<and> verify_headers K wall v i = Inr p1 \<and>
     dr_nonce dr = Some (p1_nonce p1) \<and> p1_ts p1 = dr_now dr div 1000000 \<and>
     body_verified (sha256 K) se (p1_body_binding p1)"
proof -
  let ?skip = "ShouldSkipBodyHash stream len" and ?t = "now_secs (dr_now dr)" and ?req = "se_request se"
  obtain host e pk pqr nonce f where g: "GetAsciiHost u = Some host" "List.find (claims host) tbl = Some e"
    "import_key N e = Some pk" "GetPathQueryRef u = Some pqr" "dr_nonce dr = Some nonce"
    "Base64Encode N nonce = Some nonceB64"
    "if ?skip then f = bytes ''unbound'' else HashBody N stream = Inr f" "ts = utf8 (dec_int ?t)"
    "seal_token N dr pk (canonical_plaintext nonceB64 ts host (GetMethod H head) (request_path_of pqr) f) = Inr tok"
    using iffD1 [OF minted_iff [OF browser(1)] browser(2)] by blast
  have pk: "nr_point R pk = public_key K (private_key v)" using key g(1-3) by blast
  have t: "?t = dr_now dr div 1000000" "is_i64 ?t"
    using now_secs_nonneg [OF crypto(2)] crypto(2) by (auto simp: draws_ok_def now_secs_def i64_defs)
  have vis: "\<forall>b \<in> set ts. visible b" "\<forall>b \<in> set nonceB64. visible b" "\<forall>b \<in> set tok. visible b"
    using ts_visible [OF crypto(2)] interop_token(1) [OF crypto(1) g(6)] seal_token_opens [OF crypto(1,2) pk g(9)]
    by (auto simp: g(8) canonical_plaintext_def)
  obtain h where h: "utf8 h = host" "10 \<notin> set host" "inputs_of to_str ?req
     \<lparr>in_ts = map unat ts, in_nonce_b64 = map unat nonceB64, in_token_b64 = map unat tok, in_host = h,
      in_method = rq_method ?req, in_path = request_path ?req\<rparr>"
    using delivered_inputs [OF request(1) g(1)] browser(3-5) vis by blast
  have wire: "utf8 (rq_method ?req) = GetMethod H head" "utf8 (request_path ?req) = request_path_of pqr"
    "10 \<notin> set (utf8 (rq_method ?req))" "10 \<notin> set (utf8 (request_path ?req))"
    using request(1) g(4) unfolding delivered_def by auto
  let ?p1 = "\<lparr>p1_nonce = nonce,
     p1_body_binding = (if ?skip then Unbound else Hash (sha256 K (the (upload_bytes stream)))), p1_ts = ?t\<rparr>"
  have "verify_headers K wall v
     \<lparr>in_ts = map unat ts, in_nonce_b64 = map unat nonceB64, in_token_b64 = map unat tok, in_host = h,
      in_method = rq_method ?req, in_path = request_path ?req\<rparr> = Inr ?p1"
    using minted_verifies [OF crypto(1,2) pk g(6,5,7), of h "rq_method ?req" "request_path ?req" tok wall]
      g(5,8,9) h(1,2) wire clock t(1) fresh dec_int_field [OF t(2)] by simp
  moreover have "body_verified (sha256 K) se (p1_body_binding ?p1)"
    using body_field_read [OF crypto(1) g(7)] bound_upload_small [of stream len] request(2-4)
    by (auto simp: body_verified_def BOUND_BODY_MAX_def)
  ultimately show ?thesis using h(3) g(5) t(1) by (intro exI conjI) auto
qed

lemma spared_commit:
  assumes "spared K sk now (p1_nonce p1) st" "- 30 \<le> unix_now wall - p1_ts p1" "unix_now wall - p1_ts p1 \<le> 90"
  shows "fst (commit_nonce wall inst p1 (ps_verifier st)) = Inr ()"
proof -
  obtain s where "verifier_reachable K sk s" "ps_verifier st = sh_verifier s" "p1_nonce p1 \<notin> honoured s"
    using assms(1) by (auto simp: spared_def simulates_def)
  with assms(2,3) show ?thesis using minted_commit by metis
qed


section \<open>Who may skip attestation\<close>

lemma bypassed_authorised:
  assumes "calendar_range (d_time d)"
    and "request_filter d mo px others se (proxy_new_ctx now px) st = (v, ra', st')" "ra_action ra' = Some Act_Bypass"
  obtains policy ip cert where "px_bypass px = Some policy" "client_ip se = Some ip" "session_client_cert se = Some cert"
    "authorizes (d_net_contains d) policy ip cert \<noteq> None"
proof -
  have "decided v ra'"
    using request_filter_decided [OF assms(1) fresh_undecided] assms(2) by (simp add: proxy_new_ctx_def)
  then have "v = Pass" using assms(3) by (cases v) (auto simp: decided_def split: option.splits if_splits)
  from passed_verified [OF assms(1) assms(2) [unfolded this]] assms(3)
  obtain s where "bypass_subject d px (client_ip se) (session_client_cert se) = Some s" by auto
  then show thesis using that by (auto simp: bypass_subject_def split: option.splits)
qed

text \<open>
  C7. Nobody skips attestation without a verified certificate.  On a proxy that started, with the client
  identity on a connection being what the handshake callback recorded there, a request that is bypassed
  came over a listener that demands and verifies client certificates, from an address in a configured
  range, and the certificate of that very connection carries a configured subject.
\<close>

theorem bypass_needs_verified_certificate:
  assumes started: "proxy_main ho boot a = Inr sv"
    and connection: "session_client_cert se =
        (if li_records_identity (sv_listener sv) then handshake_complete peer else None)"
    and run: "calendar_range (d_time d)"
      "request_filter d mo (sv_proxy sv) others se (proxy_new_ctx now (sv_proxy sv)) st = (v, ra', st')"
      "ra_action ra' = Some Act_Bypass"
  shows "li_verify_peer (sv_listener sv) \<and> li_fail_if_no_cert (sv_listener sv) \<and>
    (\<exists>cfg cert ip. config_load (ho_toml ho) (ho_read_string ho) (ho_env ho) (ar_config a) = Inr cfg \<and>
       pb_enabled (cfg_proxy_bypass cfg) \<and> mtls_enabled (cfg_mtls cfg) \<and>
       peer = Some cert \<and> client_ip se = Some ip \<and>
       (\<exists>r \<in> set (pb_allowed_ip_ranges (cfg_proxy_bypass cfg)). \<exists>net. ho_parse_net ho r = Inr net \<and> d_net_contains d net ip) \<and>
       (\<exists>n \<in> set (pb_allowed_subjects (cfg_proxy_bypass cfg)).
          cc_common_name (from_cert cert) = Some n \<or> n \<in> set (cc_san_dns (from_cert cert))))"
proof -
  obtain policy ip cert where b: "px_bypass (sv_proxy sv) = Some policy" "client_ip se = Some ip"
    "session_client_cert se = Some cert" "authorizes (d_net_contains d) policy ip cert \<noteq> None"
    using run by (rule bypassed_authorised)
  obtain cfg up v limiter mtls machine where s:
    "config_load (ho_toml ho) (ho_read_string ho) (ho_env ho) (ar_config a) = Inr cfg"
    "mtls_from_config (ho_read_file ho) (os_stack_from_pem (ho_openssl ho)) (cfg_mtls cfg) = Inr mtls"
    "bypass_from_config (ho_parse_net ho) (mtls \<noteq> None) (cfg_proxy_bypass cfg) = Inr (Some policy)"
    "build_listener ho (cfg_proxy cfg) mtls = Inr (sv_listener sv)"
    using proxy_main_steps [OF started] den_browser_proxy_new_ok b(1) by metis
  have pol: "mtls \<noteq> None" "pb_enabled (cfg_proxy_bypass cfg)"
    using s(3) by (simp_all add: bypass_from_config_eq policy_of_def)
  have on: "mtls_enabled (cfg_mtls cfg)" using mtls_feature.present_iff_enabled [OF s(2)] pol(1) by blast
  obtain x where x: "peer = Some x" "cert = from_cert x"
    using connection b(3) by (cases peer) (auto simp: handshake_complete_def split: if_splits)
  have subj: "\<exists>n \<in> set (pb_allowed_subjects (cfg_proxy_bypass cfg)).
      cc_common_name (from_cert x) = Some n \<or> n \<in> set (cc_san_dns (from_cert x))"
    and range: "\<exists>r \<in> set (pb_allowed_ip_ranges (cfg_proxy_bypass cfg)).
      \<exists>net. ho_parse_net ho r = Inr net \<and> d_net_contains d net ip"
    using built_policy_decides [OF s(3), of "d_net_contains d" ip cert] b(4) unfolding x(2) by blast+
  show ?thesis
    using build_listener_ok(3,4) [OF s(4)] pol s(1) on x(1) b(2) subj range by blast
qed


section \<open>What is in the log\<close>

lemma record_of_decided:
  assumes "audit_reachable ra" "decided v ra"
  shows "ev_outcome (ar_event (ra_record os conn err ts ms ra)) = Success \<longleftrightarrow> v = Pass \<and> err = None"
    and "v = Respond n \<Longrightarrow> \<exists>r. ev_reason (ar_event (ra_record os conn err ts ms ra)) = Some r \<and> n = refusal_status r"
    and "Some (ev_action (ar_event (ra_record os conn err ts ms ra))) = ra_action ra"
  using assms audit_reachable_inv [OF assms(1)]
  by (cases err; auto simp: decided_def audit_inv_def decision_inv_def ra_record_def Let_def terminal_error_def apply_error_def
      ra_outcome_def split: verdict.splits option.splits action.splits if_splits)+

lemma level_of_decided: "decided v ra \<Longrightarrow> ra_level ra failed = (if v = Pass \<and> \<not> failed then L_Info else L_Warn)"
  by (auto simp: decided_def ra_level_def ra_outcome_def split: verdict.splits option.splits action.splits if_splits)

lemma refusal_status_429: "refusal_status r = 429 \<longleftrightarrow> r = R_RateLimited"
  by (cases r) simp_all

lemma refused_action: "decided (Respond n) ra \<Longrightarrow> ra_action ra = Some (if n = 429 then Act_RateLimit else Act_Reject)"
  by (auto simp: decided_def refusal_status_429 split: option.splits)

text \<open>
  C14. Every exchange leaves its line in the log, and it tells what happened.  From the request path
  through the response body to the formatter: the hook at the end raises one event, at level info for
  a success and warn for anything else, if the filter lets that level through, and none otherwise.  The
  event carries the JSON of this request's record, which the formatter writes as it is with a newline; only if
  the serializer fails is it an error event instead.  The record satisfies the schema, says success
  exactly when the request was let through and the exchange did not fail, names the action (bypass when
  the policy authorised the client, forward for a verified token, rate limit for a 429, reject for
  any other refusal) and for a refusal the reason of its status, and counts the bytes of all the response chunks.
\<close>

theorem audit_line_written:
  assumes "calendar_range (d_time d)" "utc_ok (from_system (d_time d) wall)"
    and "request_filter d mo px others se (proxy_new_ctx start px) st = (v, ra, st')"
  shows "\<exists>rec lvl. lvl = (if v = Pass \<and> e = None then L_Info else L_Warn) \<and>
    logging_hook (d_openssl d) (d_time d) enabled to_json now wall se status read e (fold response_body_filter cs ra) =
      (if enabled lvl
       then Some (case to_json rec of Inr line \<Rightarrow> Audit_Line lvl line | Inl err \<Rightarrow> Serialize_Failed err)
       else None) \<and>
    (\<forall>line. format_event jt ff tj (d_time d) wall' (event_of (Audit_Line lvl line)) = Inr (line @ [10])) \<and>
    schema_ok rec \<and>
    (ev_outcome (ar_event rec) = Success \<longleftrightarrow> v = Pass \<and> e = None) \<and>
    ev_action (ar_event rec) =
      (case v of
         Pass \<Rightarrow> if bypass_subject d px (client_ip se) (session_client_cert se) = None then Act_Forward else Act_Bypass
       | Respond n \<Rightarrow> if n = 429 then Act_RateLimit else Act_Reject) \<and>
    (\<forall>n. v = Respond n \<longrightarrow> (\<exists>r. ev_reason (ar_event rec) = Some r \<and> n = refusal_status r)) \<and>
    ar_response_body_bytes rec = min u64_max (sum_list (map chunk_bytes cs))"
proof -
  let ?ra = "fold response_body_filter cs ra" and ?tm = "d_time d"
  let ?conn = "connection_of se status read ?ra" and ?err = "map_option classify_proxy_error e"
  let ?rec = "ra_record (d_openssl d) ?conn ?err (audit_timestamp ?tm wall) (duration_millis now (ra_started ?ra)) ?ra"
  let ?lvl = "if v = Pass \<and> e = None then L_Info else L_Warn"
  have dec: "decided v ra"
    using request_filter_decided [OF assms(1) fresh_undecided] assms(3) by (simp add: proxy_new_ctx_def)
  then have reach: "audit_reachable ?ra" by (simp add: decided_def response_chunks(1))
  have dec': "decided v ?ra" using dec reach unfolding decided_def response_chunks(2,3) by simp
  note told = record_of_decided [OF reach dec', where os = "d_openssl d" and conn = ?conn and err = ?err and
      ts = "audit_timestamp ?tm wall" and ms = "duration_millis now (ra_started ?ra)"]
  have bytes: "ar_response_body_bytes ?rec = min u64_max (sum_list (map chunk_bytes cs))"
    using request_filter_keeps_bytes [OF assms(3)]
    by (simp add: ra_record_def Let_def connection_of_def response_chunks_bytes proxy_new_ctx_def ra_new_def)
  have schema: "schema_ok ?rec"
    by (rule audit_record_schema_helper [OF reach]) (simp add: audit_timestamp_def format_utc_pattern assms(2))
  have act: "ev_action (ar_event ?rec) =
      (case v of
         Pass \<Rightarrow> if bypass_subject d px (client_ip se) (session_client_cert se) = None then Act_Forward else Act_Bypass
       | Respond n \<Rightarrow> if n = 429 then Act_RateLimit else Act_Reject)"
    using told(3) passed_action [OF assms(1)] refused_action [of _ ra] assms(3) dec
    unfolding response_chunks(2) by (cases v) auto
  have hook: "logging_hook (d_openssl d) ?tm enabled to_json now wall se status read e ?ra =
      (if enabled ?lvl then Some (case to_json ?rec of Inr line \<Rightarrow> Audit_Line ?lvl line | Inl err \<Rightarrow> Serialize_Failed err) else None)"
    using level_of_decided [OF dec', of "?err \<noteq> None"] by (simp add: logging_hook_def ra_finish_def emit_def Let_def split: sum.splits)
  show ?thesis
    by (intro exI [of _ ?rec] exI [of _ ?lvl] conjI refl hook act schema bytes)
      (use told(1,2) audit_line_verbatim in simp_all)
qed

section \<open>Examples\<close>

definition wire_deps :: "(unit, unit, ustring, event_log, unit, unit, unit, unit) deps" where
  "wire_deps = demo_deps\<lparr>d_crypto := crypto.truncate wire_crypto\<rparr>"

definition wire_session :: "demo_head \<Rightarrow> session" where
  "wire_session head' = demo_session\<lparr>se_request := \<lparr>rq_method = str ''GET'', rq_authority = Some (str ''host:443''),
     rq_path_and_query = None,
     rq_headers = [(TS_HEADER, the (GetHeader demo_head_ops head' X_TS)), (NONCE_HEADER, the (GetHeader demo_head_ops head' X_NONCE)),
       (TOKEN_HEADER, the (GetHeader demo_head_ops head' X_TOKEN))]\<rparr>\<rparr>"

lemma wire_delivered:
  assumes "GetHeader demo_head_ops head' X_TS \<noteq> None" "GetHeader demo_head_ops head' X_NONCE \<noteq> None"
    "GetHeader demo_head_ops head' X_TOKEN \<noteq> None"
  shows "delivered demo_head_ops head' demo_uri (GetMethod demo_head_ops Map.empty) (d_to_str wire_deps) (se_request (wire_session head'))"
proof -
  let ?req = "se_request (wire_session head')"
  have "request_host (d_to_str wire_deps) ?req = Some (str ''host'')"
    using header_names_distinct
    by (simp add: wire_session_def request_host_def header_str_def hd_split_on) (simp add: str_def)
  moreover have "\<forall>bs. (\<forall>b \<in> set bs. visible b) \<longrightarrow> d_to_str wire_deps bs = Some (map unat bs)"
    by (fastforce simp: wire_deps_def demo_deps_def demo_to_str_def list_all_iff word_less_nat_alt)
  moreover have "request_path ?req = str ''/''" "rq_method ?req = str ''GET''"
    by (simp_all add: request_path_def wire_session_def)
  moreover have "request_path_of (bytes ''/#top'') = utf8 (str ''/'')"
    by (simp add: request_path_of_def bytes_def utf8_ascii str_def)
  moreover have "map_of (rq_headers ?req) (to_ascii_lowercase n) = GetHeader demo_head_ops head' n"
    if "n \<in> {X_TS, X_NONCE, X_TOKEN}" for n
    using that assms header_names_distinct by (auto simp: browser_header_names wire_session_def)
  ultimately show ?thesis
    using plain_demo(2-4)
    by (auto simp: delivered_def demo_uri_def bytes_def demo_head_ops_def newline_free_utf8)
qed


definition ops_x509 :: x509_cert where
  "ops_x509 = \<lparr>xc_subject = [\<lparr>xe_short_name = Some (str ''CN''), xe_oid = [], xe_is_cn = True,
     xe_utf8 = Some (str ''ops''), xe_raw = []\<rparr>], xc_san = None\<rparr>"

definition ops_deps :: "(unit, unit, ustring, event_log, ip_addr, unit, unit, unit) deps" where
  "ops_deps = \<lparr>d_crypto = crypto.truncate demo_crypto, d_rate = event_log_ops, d_glob = literal_globs,
     d_net_contains = (=), d_openssl = demo_openssl, d_time = demo_time, d_to_str = demo_to_str, d_lookup_host = (\<lambda>_ _. Inr [])\<rparr>"

definition ops_session :: session where
  "ops_session = bare_session\<lparr>se_client_addr := Some \<lparr>sa_ip = V4 167772161, sa_port = 5\<rparr>,
     se_digest := Some \<lparr>di_ssl_digest = Some \<lparr>sd_extension = handshake_complete (Some ops_x509)\<rparr>\<rparr>\<rparr>"

lemma ops_session_ip: "client_ip ops_session = Some (V4 167772161)"
  by (simp add: ops_session_def client_ip_def)

lemma ops_bypassed:
  assumes "bypass_from_config one_host on ops_bypass = Inr (Some policy)" "px_bypass px = Some policy"
    and "request_filter ops_deps demo_moments px alone ops_session ra demo_state = (v, ra', st')"
  shows "ra_action ra' = Some Act_Bypass"
proof -
  have "authorizes (=) policy (V4 167772161) (from_cert ops_x509) \<noteq> None"
    using built_policy_decides [OF assms(1), of "(=)" "V4 167772161" "from_cert ops_x509"]
    by (simp add: from_cert_def ops_x509_def)
  then obtain subj where "bypass_subject ops_deps px (client_ip ops_session) (session_client_cert ops_session) = Some subj"
    using assms(2) by (auto simp: bypass_subject_def ops_session_ip) (simp add: ops_session_def handshake_complete_def ops_deps_def)
  with assms(3) show ?thesis
    by (auto simp: request_filter_def Let_def rate_phase_def demo_state_def bypass_phase_def ra_bypass_def)
qed

theorem bypass_needs_verified_certificate_witness:
  "\<exists>sv ra' st'. proxy_main demo_host 0 demo_args = Inr sv \<and>
     request_filter ops_deps demo_moments (sv_proxy sv) alone ops_session (proxy_new_ctx 0 (sv_proxy sv)) demo_state =
       (Pass, ra', st') \<and> ra_action ra' = Some Act_Bypass \<and> li_verify_peer (sv_listener sv)"
proof -
  obtain sv where sv: "proxy_main demo_host 0 demo_args = Inr sv" using demo_starts by blast
  have time: "calendar_range (d_time ops_deps)" using demo_calendar by (simp add: ops_deps_def)
  obtain cfg v up l m mtls bypass where s0:
    "config_load (ho_toml demo_host) (ho_read_string demo_host) (ho_env demo_host) (ar_config demo_args) = Inr cfg"
    "mtls_from_config (ho_read_file demo_host) (os_stack_from_pem (ho_openssl demo_host)) (cfg_mtls cfg) = Inr mtls"
    "bypass_from_config (ho_parse_net demo_host) (mtls \<noteq> None) (cfg_proxy_bypass cfg) = Inr bypass"
    "den_browser_proxy_new v (pc_upstream (cfg_proxy cfg)) up l bypass m = Inr (sv_proxy sv, sv_state sv)"
    "build_listener demo_host (cfg_proxy cfg) mtls = Inr (sv_listener sv)"
    by (rule proxy_main_steps [OF sv]) (rule that)
  have c: "cfg = demo_config" using s0(1) demo_steps(1) by simp
  note s = s0(2,3) [unfolded c] den_browser_proxy_new_ok [OF s0(4), THEN conjunct1] s0(5) [unfolded c]
  have cfg: "cfg_proxy_bypass demo_config = ops_bypass" "ho_parse_net demo_host = one_host"
    by (simp_all add: demo_config_def demo_host_def)
  have mtls: "mtls = Some demo_mtls" using s(1) demo_steps(7) by simp
  obtain policy where policy: "bypass = Some policy"
    using bypass_feature.present_iff_enabled [OF s(2)] by (auto simp: cfg)
  have "bypass_from_config one_host True ops_bypass = Inr (Some policy)" "px_bypass (sv_proxy sv) = Some policy"
    using s(2,3) by (simp_all add: cfg mtls policy)
  note byp = ops_bypassed [OF this]
  obtain v ra' st' where r: "request_filter ops_deps demo_moments (sv_proxy sv) alone ops_session
      (proxy_new_ctx 0 (sv_proxy sv)) demo_state = (v, ra', st')"
    by (cases "request_filter ops_deps demo_moments (sv_proxy sv) alone ops_session
      (proxy_new_ctx 0 (sv_proxy sv)) demo_state")
  have a: "ra_action ra' = Some Act_Bypass" using byp [OF r] .
  have "decided v ra'" using request_filter_decided [OF time fresh_undecided] r by (simp add: proxy_new_ctx_def)
  then have v: "v = Pass" using a by (cases v) (auto simp: decided_def split: option.splits if_splits)
  have cert: "session_client_cert ops_session =
      (if li_records_identity (sv_listener sv) then handshake_complete (Some ops_x509) else None)"
    using build_listener_ok(2) [OF s(4)] by (simp add: mtls ops_session_def)
  from bypass_needs_verified_certificate [OF sv cert time r a] sv r a v show ?thesis by blast
qed

theorem audit_line_written_witness:
  "\<exists>ra st'. request_filter demo_deps demo_moments demo_px alone demo_session (proxy_new_ctx 0 demo_px) demo_state =
     (Pass, ra, st') \<and>
   logging_hook (d_openssl demo_deps) (d_time demo_deps) (\<lambda>_. True) (\<lambda>_. Inr (str ''{}'')) 9 0 demo_session (Some 200) 3 None
     (fold response_body_filter [Some [1, 2], None, Some [3]] ra) = Some (Audit_Line L_Info (str ''{}'')) \<and>
   logging_hook (d_openssl demo_deps) (d_time demo_deps) (\<lambda>l. l = L_Warn) (\<lambda>_. Inr (str ''{}'')) 9 0 demo_session (Some 200) 3 None
     (fold response_body_filter [Some [1, 2], None, Some [3]] ra) = None"
proof -
  obtain ra st' where r:
    "request_filter demo_deps demo_moments demo_px alone demo_session (proxy_new_ctx 0 demo_px) demo_state = (Pass, ra, st')"
    by (rule demo_run_passes)
  have t: "utc_ok (from_system (d_time demo_deps) 0)"
    unfolding demo_deps_time by (simp add: demo_time_def utc_ok_def epoch_def)
  note line = audit_line_written [OF demo_deps_calendar t r, where to_json = "\<lambda>_. Inr (str ''{}'')" and now = 9 and
      status = "Some 200" and read = 3 and e = None and
      jt = "\<lambda>_. []" and ff = "\<lambda>_. None" and tj = "\<lambda>_. Inr []" and wall' = 0 and cs = "[Some [1, 2], None, Some [3]]"]
  from line [where enabled = "\<lambda>_. True"] line [where enabled = "\<lambda>l. l = L_Warn"] r show ?thesis by auto
qed

end
